(* ===== verification/Kernel_Base.thy ===== *)
theory Kernel_Base
  imports Main "HOL-Library.Word"
begin

text \<open>
  Prelude of the development: the machine types of include/sys/types.h, the outcomes a kernel
  routine can have besides returning, the loop shapes the C code uses, and the lemmas on words,
  loops and finite searches that every component shares.

  A C \<open>int32_t\<close> is a \<open>32 word\<close> read with \<open>sint\<close> and compared with the signed \<open><s\<close>; a
  \<open>uint32_t\<close> or a pointer is a \<open>32 word\<close> compared with \<open><\<close>. Addition, subtraction and shifts
  wrap as they do on the machine (the kernel is built with -O0 for i386).
\<close>

unbundle bit_operations_syntax

section \<open>Machine types and outcomes\<close>

type_synonym u8 = "8 word"
type_synonym u16 = "16 word"
type_synonym u32 = "32 word"
type_synonym i32 = "32 word"

text \<open>
  A routine that does not return normally either reaches \<open>panic()\<close> (which prints and then spins
  for ever), reaches a bare \<open>while(1);\<close>, or writes through a null or stale pointer, after which
  the C code has no defined continuation. Each is a value here; the text of a panic is given without
  the newline that ends it in the source.
\<close>

datatype kerror = Panic string | Spin string | Wild_Access string

type_synonym 'a kresult = "kerror + 'a"

definition rbind :: "kerror + 'a \<Rightarrow> ('a \<Rightarrow> kerror + 'b) \<Rightarrow> kerror + 'b" where
  "rbind m f = (case m of Inl e \<Rightarrow> Inl e | Inr a \<Rightarrow> f a)"

lemma rbind_simps [simp]:
  "rbind (Inl e) f = Inl e"
  "rbind (Inr a) f = f a"
  by (simp_all add: rbind_def)

lemma rbind_eq_Inr: "rbind m f = Inr b \<longleftrightarrow> (\<exists>a. m = Inr a \<and> f a = Inr b)"
  by (cases m) auto

lemma rbind_eq_Inl: "rbind m f = Inl e \<longleftrightarrow> m = Inl e \<or> (\<exists>a. m = Inr a \<and> f a = Inl e)"
  by (cases m) auto

lemma rbind_cong [fundef_cong]:
  "m = m' \<Longrightarrow> (\<And>a. m' = Inr a \<Longrightarrow> f a = f' a) \<Longrightarrow> rbind m f = rbind m' f'"
  by (cases m') auto

section \<open>Loops\<close>

subsection \<open>A search loop\<close>

text \<open>
  \<open>for (i = lo; i < n; i++) if (P i) break;\<close> leaves \<open>i\<close> at the first index that satisfies
  \<open>P\<close>, or at \<open>n\<close> when there is none.
\<close>

function scan_up :: "(nat \<Rightarrow> bool) \<Rightarrow> nat \<Rightarrow> nat \<Rightarrow> nat" where
  "scan_up P i n = (if i < n \<and> \<not> P i then scan_up P (Suc i) n else i)"
  by pat_completeness auto
termination
  by (relation "measure (\<lambda>(P, i, n). n - i)") auto

declare scan_up.simps [simp del]

lemma scan_up_stop [simp]: "P i \<Longrightarrow> scan_up P i n = i"
  by (simp add: scan_up.simps)

lemma scan_up_end [simp]: "n \<le> i \<Longrightarrow> scan_up P i n = i"
  by (simp add: scan_up.simps)

lemma scan_up_next: "i < n \<Longrightarrow> \<not> P i \<Longrightarrow> scan_up P i n = scan_up P (Suc i) n"
  by (subst scan_up.simps) simp

lemma scan_up_bounds: "i \<le> n \<Longrightarrow> i \<le> scan_up P i n \<and> scan_up P i n \<le> n"
proof (induction P i n rule: scan_up.induct)
  case (1 P i n)
  show ?case
  proof (cases "i < n \<and> \<not> P i")
    case True
    with "1.IH" have "Suc i \<le> scan_up P (Suc i) n \<and> scan_up P (Suc i) n \<le> n" by simp
    with True show ?thesis by (simp add: scan_up_next)
  next
    case False
    with "1.prems" show ?thesis by (auto simp: scan_up.simps [of P i n])
  qed
qed

lemmas scan_up_le = scan_up_bounds [THEN conjunct2]
lemmas scan_up_ge = scan_up_bounds [THEN conjunct1]

lemma scan_up_before: "i \<le> k \<Longrightarrow> k < scan_up P i n \<Longrightarrow> \<not> P k"
proof (induction P i n rule: scan_up.induct)
  case (1 P i n)
  show ?case
  proof (cases "i < n \<and> \<not> P i")
    case True
    with "1.prems" "1.IH" show ?thesis
      by (cases "k = i") (simp_all add: scan_up_next)
  next
    case False
    with "1.prems" show ?thesis by (simp add: scan_up.simps [of P i n])
  qed
qed

lemma scan_up_hit: "scan_up P i n < n \<Longrightarrow> P (scan_up P i n)"
proof (induction P i n rule: scan_up.induct)
  case (1 P i n)
  then show ?case
    by (cases "i < n \<and> \<not> P i") (auto simp: scan_up_next scan_up.simps [of P i n])
qed

lemma scan_up_lt_iff: "i \<le> n \<Longrightarrow> scan_up P i n < n \<longleftrightarrow> (\<exists>k. i \<le> k \<and> k < n \<and> P k)"
  using scan_up_hit [of P i n] scan_up_before [of i _ P n] scan_up_bounds [of i n P]
  by (metis leI le_trans less_le_not_le)

lemma scan_up_eq_n_iff: "i \<le> n \<Longrightarrow> scan_up P i n = n \<longleftrightarrow> (\<forall>k. i \<le> k \<and> k < n \<longrightarrow> \<not> P k)"
  using scan_up_lt_iff [of i n P] scan_up_le [of i n P] by (auto simp: less_le)

lemma scan_up_eqI:
  assumes "i \<le> k" "k < n" "P k" "\<And>j. i \<le> j \<Longrightarrow> j < k \<Longrightarrow> \<not> P j"
  shows "scan_up P i n = k"
proof -
  have lt: "scan_up P i n < n" using assms by (auto simp: scan_up_lt_iff)
  then have "P (scan_up P i n)" by (rule scan_up_hit)
  moreover have "i \<le> scan_up P i n" using assms by (auto intro: scan_up_ge)
  ultimately have "\<not> scan_up P i n < k" using assms(4) by blast
  moreover have "\<not> k < scan_up P i n" using scan_up_before [of i k P n] assms by blast
  ultimately show ?thesis by simp
qed

subsection \<open>A loop whose body may fail\<close>

fun for_each :: "('i \<Rightarrow> 's \<Rightarrow> kerror + 's) \<Rightarrow> 'i list \<Rightarrow> 's \<Rightarrow> kerror + 's" where
  "for_each f [] s = Inr s"
| "for_each f (i # is) s = rbind (f i s) (for_each f is)"

lemma for_each_append:
  "for_each f (xs @ ys) s = rbind (for_each f xs s) (for_each f ys)"
  by (induction xs arbitrary: s) (auto simp: rbind_def split: sum.splits)

lemma for_each_skip: "(\<And>i. i \<in> set xs \<Longrightarrow> f i s = Inr s) \<Longrightarrow> for_each f xs s = Inr s"
  by (induction xs) auto

text \<open>An invariant indexed by the number of iterations done.\<close>

lemma for_each_upt_inv:
  assumes "for_each f [0..<n] s = Inr s'" "P 0 s"
    "\<And>k s s'. k < n \<Longrightarrow> P k s \<Longrightarrow> f k s = Inr s' \<Longrightarrow> P (Suc k) s'"
  shows "P n s'"
  using assms
proof (induction n arbitrary: s')
  case 0
  then show ?case by simp
next
  case (Suc n)
  then show ?case by (auto simp: for_each_append rbind_eq_Inr)
qed

lemma for_each_upt_ok:
  assumes "P 0 s" "\<And>k s. k < n \<Longrightarrow> P k s \<Longrightarrow> \<exists>s'. f k s = Inr s' \<and> P (Suc k) s'"
  shows "\<exists>s'. for_each f [0..<n] s = Inr s' \<and> P n s'"
  using assms
proof (induction n)
  case 0
  then show ?case by simp
next
  case (Suc n)
  then obtain s' where "for_each f [0..<n] s = Inr s'" "P n s'" by auto
  with Suc.prems(2) [of n s'] show ?case by (auto simp: for_each_append)
qed

subsection \<open>A loop whose body may fail or return from the function\<close>

fun for_ret :: "('i \<Rightarrow> 's \<Rightarrow> kerror + 'r option \<times> 's) \<Rightarrow> 'i list \<Rightarrow> 's \<Rightarrow> kerror + 'r option \<times> 's" where
  "for_ret f [] s = Inr (None, s)"
| "for_ret f (i # is) s =
     rbind (f i s) (\<lambda>(r, s'). case r of Some v \<Rightarrow> Inr (Some v, s') | None \<Rightarrow> for_ret f is s')"

lemma for_ret_append:
  "for_ret f (xs @ ys) s =
     rbind (for_ret f xs s)
       (\<lambda>(r, s'). case r of Some v \<Rightarrow> Inr (Some v, s') | None \<Rightarrow> for_ret f ys s')"
  by (induction xs arbitrary: s) (auto simp: rbind_def split: sum.splits option.splits)

text \<open>The invariant rule: what holds after \<open>n\<close> whole iterations, and what holds at an early return.\<close>

lemma for_ret_upt_inv:
  assumes "for_ret f [0..<n] s = Inr (r, s')" "P 0 s"
    "\<And>k s s'. k < n \<Longrightarrow> P k s \<Longrightarrow> f k s = Inr (None, s') \<Longrightarrow> P (Suc k) s'"
    "\<And>k s v s'. k < n \<Longrightarrow> P k s \<Longrightarrow> f k s = Inr (Some v, s') \<Longrightarrow> Q v s'"
  shows "case r of None \<Rightarrow> P n s' | Some v \<Rightarrow> Q v s'"
  using assms
proof (induction n arbitrary: r s')
  case 0
  then show ?case by simp
next
  case (Suc n)
  from Suc.prems(1) obtain r1 s1 where first: "for_ret f [0..<n] s = Inr (r1, s1)"
    and rest: "(case r1 of Some v \<Rightarrow> Inr (Some v, s1) | None \<Rightarrow> for_ret f [n] s1) = Inr (r, s')"
    by (auto simp: for_ret_append rbind_eq_Inr)
  have IH: "case r1 of None \<Rightarrow> P n s1 | Some v \<Rightarrow> Q v s1"
    by (rule Suc.IH [OF first Suc.prems(2)]) (blast intro: Suc.prems(3,4) less_SucI)+
  show ?case
  proof (cases r1)
    case None
    then have "P n s1" using IH by simp
    moreover from None rest obtain r2 where "f n s1 = Inr (r2, s')" "r = r2"
      by (auto simp: rbind_eq_Inr split: option.splits)
    ultimately show ?thesis using Suc.prems(3,4) [of n s1] by (cases r2) auto
  next
    case (Some v)
    with rest IH show ?thesis by auto
  qed
qed

lemma for_ret_Inr: "(\<And>i s. \<exists>x. f i s = Inr x) \<Longrightarrow> \<exists>x. for_ret f xs s = Inr x"
proof (induction xs arbitrary: s)
  case Nil
  then show ?case by simp
next
  case (Cons i xs)
  from Cons.prems [of i s] obtain r s' where "f i s = Inr (r, s')" by auto
  with Cons show ?case by (cases r) auto
qed

text \<open>A loop that never fails while its invariant holds.\<close>

lemma for_ret_upt_total:
  assumes "P 0 s"
    "\<And>k s. k < n \<Longrightarrow> P k s \<Longrightarrow> \<exists>r s'. f k s = Inr (r, s') \<and> (r = None \<longrightarrow> P (Suc k) s')"
  shows "\<exists>r s'. for_ret f [0..<n] s = Inr (r, s') \<and> (r = None \<longrightarrow> P n s')"
  using assms
proof (induction n)
  case 0
  then show ?case by simp
next
  case (Suc n)
  then obtain r s' where "for_ret f [0..<n] s = Inr (r, s')" "r = None \<longrightarrow> P n s'" by auto
  then show ?case using Suc.prems(2) [of n s'] by (cases r) (auto simp: for_ret_append split: option.splits)
qed

section \<open>Words\<close>

named_theorems kbits \<open>numerals of the source read as masks, for bit-by-bit proofs\<close>

lemma mask_numerals_u32 [kbits]:
  "(0xFF :: u32) = mask 8"
  "(0xFFF :: u32) = mask 12"
  "(0xFFFF :: u32) = mask 16"
  "(0x3FF :: u32) = mask 10"
  "(0x3FFFFF :: u32) = mask 22"
  "(0xF :: u32) = mask 4"
  "(0xFF0000 :: u32) = push_bit 16 (mask 8)"
  "(0xFF000000 :: u32) = push_bit 24 (mask 8)"
  "(0xFFFF0000 :: u32) = push_bit 16 (mask 16)"
  "(0x00FFFF00 :: u32) = push_bit 8 (mask 16)"
  "(0xFFF0FFFF :: u32) = mask 16 OR push_bit 20 (mask 12)"
  "(0xFFFFF000 :: u32) = push_bit 12 (mask 20)"
  by (simp_all add: mask_eq_exp_minus_1 push_bit_eq_mult)

text \<open>Two 32-bit words are equal when their 32 bits are: with the bits named, \<open>simp\<close> decides each.\<close>

lemma word32_eq_bits:
  "(a :: u32) = b \<longleftrightarrow> (\<forall>n \<in> set [0, 1, 2, 3, 4, 5, 6, 7, 8, 9, 10, 11, 12, 13, 14, 15,
     16, 17, 18, 19, 20, 21, 22, 23, 24, 25, 26, 27, 28, 29, 30, 31]. bit a n = bit b n)"
proof -
  have "set [0, 1, 2, 3, 4, 5, 6, 7, 8, 9, 10, 11, 12, 13, 14, 15, 16, 17, 18, 19, 20, 21, 22,
      23, 24, 25, 26, 27, 28, 29, 30, 31] = {..< 32 :: nat}"
    by (simp add: lessThan_nat_numeral lessThan_Suc insert_commute)
  then show ?thesis by (auto simp: bit_eq_iff intro!: bit_word_eqI)
qed

lemma bit_beyond_u32: "32 \<le> n \<Longrightarrow> \<not> bit (a :: u32) n"
  by (auto dest: bit_imp_le_length)

text \<open>The signed reading of a 32-bit word.\<close>

lemma sint_unat_u32: "sint (w :: u32) = (if unat w < 2147483648 then int (unat w) else int (unat w) - 4294967296)"
proof -
  define k where "k = uint w"
  have k: "0 \<le> k" "k < 4294967296" using uint_lt2p [of w] by (simp_all add: k_def)
  have b: "bit k 31 \<longleftrightarrow> 2147483648 \<le> k"
  proof -
    have "bit k 31 \<longleftrightarrow> odd (k div 2147483648)" by (simp add: bit_iff_odd)
    moreover have "k div 2147483648 = (if 2147483648 \<le> k then 1 else 0)" using k by (simp add: div_pos_pos_trivial; linarith)
    ultimately show ?thesis by simp
  qed
  have "sint w = take_bit 32 k - 4294967296 * of_bool (bit k 31)"
    by (simp add: sint_uint k_def signed_take_bit_eq_take_bit_minus)
  also have "take_bit 32 k = k" using k by (simp add: take_bit_int_eq_self_iff)
  finally have "sint w = k - 4294967296 * of_bool (2147483648 \<le> k)" by (simp add: b)
  moreover obtain n where n: "unat w = n" "int n = k" by (simp add: k_def)
  ultimately show ?thesis unfolding n(1) by auto
qed

lemma unat_drop_bit_u32: "unat (drop_bit n (w :: u32)) = unat w div 2 ^ n"
  unfolding unat_drop_bit_eq by (rule drop_bit_eq_div)

lemma unat_u32_lt: "unat (w :: u32) < 4294967296"
  using unsigned_less [of w, where ?'a = nat] by simp

lemma unat_of_nat_small: "n < 4294967296 \<Longrightarrow> unat (of_nat n :: u32) = n"
  by (simp only: unat_of_nat) simp

lemma of_nat_u32_inj:
  "a < 4294967296 \<Longrightarrow> b < 4294967296 \<Longrightarrow> (of_nat a :: u32) = of_nat b \<longleftrightarrow> a = b"
  using unat_of_nat_small by metis

lemma sless_0_iff: "(w :: u32) <s 0 \<longleftrightarrow> 2147483648 \<le> unat w"
proof -
  obtain n where n: "unat w = n" "n < 4294967296" using unat_u32_lt [of w] by simp
  show ?thesis unfolding word_sless_alt sint_unat_u32 n(1) using n(2) by auto
qed

lemma sless_pos_iff: "0 <s (w :: u32) \<longleftrightarrow> unat w \<noteq> 0 \<and> unat w < 2147483648"
proof -
  obtain n where n: "unat w = n" "n < 4294967296" using unat_u32_lt [of w] by simp
  show ?thesis unfolding word_sless_alt sint_unat_u32 n(1) using n(2) by auto
qed

end
