(* ===== verification/Segments.thy ===== *)
theory Segments
  imports Kernel_Base
begin

text \<open>
  Segment and gate descriptors: \<open>struct seg_desc\<close> of include/linux/head.h, the descriptor
  routines of kernel/sched.c (\<open>get_segment_base\<close>, \<open>set_segment_base\<close>, \<open>set_segment_limit\<close>,
  \<open>set_tss_desc\<close>, \<open>set_ldt_desc\<close>) and \<open>set_gate\<close> of kernel/traps.c, bit for bit. A descriptor
  table is a function from the index to the descriptor.
\<close>

record seg_desc =
  low_32 :: u32
  high_32 :: u32

type_synonym desc_table = "nat \<Rightarrow> seg_desc"

section \<open>The routines of sched.c\<close>

definition get_segment_base :: "seg_desc \<Rightarrow> u32" where
  "get_segment_base seg =
     (let base_15_0 = drop_bit 16 (low_32 seg) AND 0xFFFF;
          base_23_16 = high_32 seg AND 0xFF;
          base_31_24 = drop_bit 24 (high_32 seg) AND 0xFF
      in push_bit 24 base_31_24 OR push_bit 16 base_23_16 OR base_15_0)"

definition set_segment_base :: "seg_desc \<Rightarrow> u32 \<Rightarrow> seg_desc" where
  "set_segment_base seg new_base =
     (let base_15_0 = new_base AND 0xFFFF;
          base_23_16 = drop_bit 16 new_base AND 0xFF;
          base_31_24 = drop_bit 24 new_base AND 0xFF;
          lo = low_32 seg AND 0x0000FFFF;
          hi = high_32 seg AND 0x00FFFF00
      in seg\<lparr>low_32 := lo OR push_bit 8 base_15_0,
             high_32 := (hi OR base_23_16) OR push_bit 24 base_31_24\<rparr>)"

definition set_segment_limit :: "seg_desc \<Rightarrow> u32 \<Rightarrow> seg_desc" where
  "set_segment_limit seg new_limit =
     (let limit_19_16 = drop_bit 16 new_limit AND 0xF;
          limit_15_0 = new_limit AND 0xFFFF;
          lo = low_32 seg AND 0xFFFF0000;
          hi = high_32 seg AND 0xFFF0FFFF
      in seg\<lparr>low_32 := lo OR limit_15_0, high_32 := hi OR push_bit 16 limit_19_16\<rparr>)"

definition set_tss_desc :: "desc_table \<Rightarrow> nat \<Rightarrow> u32 \<Rightarrow> u8 \<Rightarrow> desc_table" where
  "set_tss_desc gdt_table index tss_data_addr dpl =
     (let low = push_bit 16 (tss_data_addr AND 0xFFFF) + 104;
          high = push_bit 24 (drop_bit 24 (tss_data_addr AND 0xFF000000)) OR
                 push_bit 13 (ucast dpl) OR push_bit 15 1 OR push_bit 8 9 OR
                 drop_bit 16 (tss_data_addr AND 0xFF0000)
      in gdt_table(index := (gdt_table index)\<lparr>low_32 := low, high_32 := high\<rparr>))"

definition set_ldt_desc :: "desc_table \<Rightarrow> nat \<Rightarrow> u32 \<Rightarrow> u8 \<Rightarrow> desc_table" where
  "set_ldt_desc gdt_table index ldt_data_addr dpl =
     (let low = push_bit 16 (ldt_data_addr AND 0xFFFF) + 32;
          high = push_bit 24 (drop_bit 24 (ldt_data_addr AND 0xFF000000)) OR
                 push_bit 13 (ucast dpl) OR push_bit 15 1 OR push_bit 8 2 OR
                 drop_bit 16 (ldt_data_addr AND 0xFF0000)
      in gdt_table(index := (gdt_table index)\<lparr>low_32 := low, high_32 := high\<rparr>))"

text \<open>
  The macro \<open>get_segment_limit\<close> of include/linux/sched.h is the instruction \<open>lsl\<close>: the 20-bit limit
  field, in bytes, scaled by 4096 when the granularity bit (bit 23 of the high half) is set.
\<close>

definition limit_field :: "seg_desc \<Rightarrow> u32" where
  "limit_field seg = push_bit 16 (drop_bit 16 (high_32 seg) AND 0xF) OR (low_32 seg AND 0xFFFF)"

definition lsl_limit :: "seg_desc \<Rightarrow> u32" where
  "lsl_limit seg =
     (if bit (high_32 seg) 23 then push_bit 12 (limit_field seg) OR 0xFFF else limit_field seg)"

text \<open>The selectors \<open>_TSS(n)\<close> and \<open>_LDT(n)\<close>, and the constants they use.\<close>

definition NUMBER_OF_TASKS :: nat where "NUMBER_OF_TASKS = 64"
definition FIRST_TSS_DESC_INDEX :: nat where "FIRST_TSS_DESC_INDEX = 4"
definition FIRST_LDT_DESC_INDEX :: nat where "FIRST_LDT_DESC_INDEX = FIRST_TSS_DESC_INDEX + 1"

definition TSS_selector :: "nat \<Rightarrow> u32" where
  "TSS_selector task_nr = push_bit 3 (of_nat (task_nr * 2 + FIRST_TSS_DESC_INDEX))"

definition LDT_selector :: "nat \<Rightarrow> u32" where
  "LDT_selector task_nr = push_bit 3 (of_nat (task_nr * 2 + FIRST_LDT_DESC_INDEX))"

section \<open>set_gate of traps.c\<close>

datatype gate_type = INTERRUPT_GATE | TRAP_GATE

primrec gate_code :: "gate_type \<Rightarrow> u8" where
  "gate_code INTERRUPT_GATE = 0xE"
| "gate_code TRAP_GATE = 0xF"

definition set_gate :: "desc_table \<Rightarrow> u8 \<Rightarrow> gate_type \<Rightarrow> u16 \<Rightarrow> u32 \<Rightarrow> u8 \<Rightarrow> desc_table" where
  "set_gate idt_table index type code_seg_sel handler_addr dpl =
     (let low = push_bit 16 (ucast code_seg_sel) OR (handler_addr AND 0x0000FFFF);
          high = (handler_addr AND 0xFFFF0000) OR push_bit 15 1 OR push_bit 13 (ucast dpl) OR
                 push_bit 8 (ucast (gate_code type));
          i = unat index
      in idt_table(i := (idt_table i)\<lparr>low_32 := low, high_32 := high\<rparr>))"

section \<open>What the processor reads back\<close>

text \<open>The fields of a descriptor as the architecture defines them.\<close>

definition desc_type :: "seg_desc \<Rightarrow> u32" where "desc_type d = drop_bit 8 (high_32 d) AND 0xF"
definition desc_dpl :: "seg_desc \<Rightarrow> u32" where "desc_dpl d = drop_bit 13 (high_32 d) AND 3"
definition desc_present :: "seg_desc \<Rightarrow> bool" where "desc_present d = bit (high_32 d) 15"
definition gate_offset :: "seg_desc \<Rightarrow> u32" where
  "gate_offset d = (high_32 d AND 0xFFFF0000) OR (low_32 d AND 0xFFFF)"
definition gate_selector :: "seg_desc \<Rightarrow> u16" where "gate_selector d = ucast (drop_bit 16 (low_32 d))"

lemmas desc_field_defs = desc_type_def desc_dpl_def desc_present_def gate_offset_def
  gate_selector_def limit_field_def get_segment_base_def

lemma low_plus_limit:
  "push_bit 16 (x AND 0xFFFF) + (104 :: u32) = push_bit 16 (x AND 0xFFFF) OR 104"
  "push_bit 16 (x AND 0xFFFF) + (32 :: u32) = push_bit 16 (x AND 0xFFFF) OR 32"
proof -
  have "push_bit 16 (x AND 0xFFFF) AND (104 :: u32) = 0" "push_bit 16 (x AND 0xFFFF) AND (32 :: u32) = 0"
    by (simp_all add: word32_eq_bits bit_simps kbits)
  then show "push_bit 16 (x AND 0xFFFF) + (104 :: u32) = push_bit 16 (x AND 0xFFFF) OR 104"
    "push_bit 16 (x AND 0xFFFF) + (32 :: u32) = push_bit 16 (x AND 0xFFFF) OR 32"
    by (simp_all add: disjunctive_add_eq_or)
qed

section \<open>Reading back what was written\<close>

lemma get_base_set_base:
  "get_segment_base (set_segment_base d b) = (b AND 0xFFFF0000) OR drop_bit 8 (b AND 0xFFFF)"
  by (simp add: get_segment_base_def set_segment_base_def Let_def kbits word32_eq_bits bit_simps)

lemma limit_set_base:
  "limit_field (set_segment_base d b) = limit_field d OR push_bit 8 (b AND 0xFF)"
  by (simp add: limit_field_def set_segment_base_def Let_def kbits word32_eq_bits bit_simps)

lemma get_base_set_limit [simp]: "get_segment_base (set_segment_limit d l) = get_segment_base d"
  by (simp add: get_segment_base_def set_segment_limit_def Let_def kbits word32_eq_bits bit_simps)

lemma limit_set_limit: "limit_field (set_segment_limit d l) = l AND (push_bit 16 0xF OR 0xFFFF)"
  by (simp add: limit_field_def set_segment_limit_def Let_def kbits word32_eq_bits bit_simps)

lemma granularity_set [simp]:
  "bit (high_32 (set_segment_limit d l)) 23 = bit (high_32 d) 23"
  "bit (high_32 (set_segment_base d b)) 23 = bit (high_32 d) 23"
  by (simp_all add: set_segment_limit_def set_segment_base_def Let_def kbits bit_simps)

lemma aligned64K_bits:
  "(b :: u32) AND 0xFFFF = 0 \<longleftrightarrow> (\<forall>n \<in> set [0, 1, 2, 3, 4, 5, 6, 7, 8, 9, 10, 11, 12, 13, 14, 15]. \<not> bit b n)"
  by (simp add: kbits word32_eq_bits bit_simps)

lemma get_base_set_base_aligned:
  "b AND 0xFFFF = 0 \<Longrightarrow> get_segment_base (set_segment_base d b) = b"
  by (simp add: get_base_set_base aligned64K_bits) (simp add: kbits word32_eq_bits bit_simps)

lemma limit_set_base_aligned:
  "b AND 0xFFFF = 0 \<Longrightarrow> limit_field (set_segment_base d b) = limit_field d"
  by (simp add: limit_set_base aligned64K_bits) (simp add: kbits word32_eq_bits bit_simps)

text \<open>
  The contract a client of the descriptor setters relies on: a base and a limit that the fields
  can hold are read back, and setting one leaves the other alone. A client that sets the base and
  then the limit finds both.
\<close>

locale base_limit_fields =
  fixes get_base :: "'d \<Rightarrow> 'v" and set_base :: "'d \<Rightarrow> 'v \<Rightarrow> 'd"
    and get_limit :: "'d \<Rightarrow> 'v" and set_limit :: "'d \<Rightarrow> 'v \<Rightarrow> 'd"
    and base_ok :: "'v \<Rightarrow> bool" and limit_ok :: "'v \<Rightarrow> bool"
  assumes base_read_back: "base_ok b \<Longrightarrow> get_base (set_base d b) = b"
    and base_keeps_limit: "base_ok b \<Longrightarrow> get_limit (set_base d b) = get_limit d"
    and limit_read_back: "limit_ok l \<Longrightarrow> get_limit (set_limit d l) = l"
    and limit_keeps_base: "get_base (set_limit d l) = get_base d"
begin

lemma rebase_then_limit:
  assumes "base_ok b" "limit_ok l"
  shows "get_base (set_limit (set_base d b) l) = b \<and> get_limit (set_limit (set_base d b) l) = l"
  using assms by (simp add: base_read_back limit_read_back limit_keeps_base)

lemma rebase_twice:
  "base_ok b \<Longrightarrow> base_ok b' \<Longrightarrow>
     get_base (set_base (set_base d b) b') = b' \<and> get_limit (set_base (set_base d b) b') = get_limit d"
  by (simp add: base_read_back base_keeps_limit)

end

definition base_64K_aligned :: "u32 \<Rightarrow> bool" where "base_64K_aligned b \<longleftrightarrow> b AND 0xFFFF = 0"
definition limit_20bit :: "u32 \<Rightarrow> bool" where "limit_20bit l \<longleftrightarrow> l AND NOT 0xFFFFF = 0"

lemma limit_set_limit_20bit: "limit_20bit l \<Longrightarrow> limit_field (set_segment_limit d l) = l"
  by (simp add: limit_set_limit limit_20bit_def kbits word32_eq_bits bit_simps)

interpretation desc: base_limit_fields get_segment_base set_segment_base limit_field
  set_segment_limit base_64K_aligned limit_20bit
  by unfold_locales
    (simp_all add: get_base_set_base_aligned limit_set_base_aligned base_64K_aligned_def
      limit_set_limit_20bit)

lemma u8_less_4: "(w :: u8) < 4 \<Longrightarrow> w = 0 \<or> w = 1 \<or> w = 2 \<or> w = 3"
proof -
  assume "w < 4"
  then have "unat w < 4" by (simp add: word_less_nat_alt)
  moreover have "w = of_nat (unat w)" by simp
  ultimately have "w \<in> (\<lambda>n. of_nat n) ` {0 ..< 4}"
    by (metis atLeastLessThan_iff imageI zero_le)
  then show ?thesis by (auto simp: atLeastLessThan_nat_numeral)
qed

lemmas set_tss_desc_bits = set_tss_desc_def [unfolded Let_def low_plus_limit]
lemmas set_ldt_desc_bits = set_ldt_desc_def [unfolded Let_def low_plus_limit]

lemma tss_desc_fields:
  assumes "dpl < 4"
  shows "get_segment_base (set_tss_desc t i a dpl i) = a \<and> limit_field (set_tss_desc t i a dpl i) = 104
    \<and> desc_type (set_tss_desc t i a dpl i) = 9 \<and> desc_present (set_tss_desc t i a dpl i)
    \<and> desc_dpl (set_tss_desc t i a dpl i) = ucast dpl \<and> (set_tss_desc t i a dpl)(i := t i) = t"
  using u8_less_4 [OF assms]
  by (elim disjE)
    (simp_all add: set_tss_desc_bits desc_field_defs kbits word32_eq_bits bit_simps)

text \<open>
  The task state segment descriptor \<open>set_tss_desc\<close> writes is the one the processor reads back:
  its base is the given address in full, its limit 104, its type 9 (an available TSS), it is present
  and at the privilege level given; no other entry of the table changes.
\<close>

lemma tss_desc_reads_back:
  assumes "dpl < 4"
  shows "get_segment_base (set_tss_desc t i a dpl i) = a \<and> limit_field (set_tss_desc t i a dpl i) = 104
    \<and> desc_type (set_tss_desc t i a dpl i) = 9 \<and> desc_present (set_tss_desc t i a dpl i)
    \<and> desc_dpl (set_tss_desc t i a dpl i) = ucast dpl \<and> (set_tss_desc t i a dpl)(i := t i) = t"
  using assms by (rule tss_desc_fields)

lemma tss_desc_reads_back_witness:
  "get_segment_base (set_tss_desc (\<lambda>_. \<lparr>low_32 = 0, high_32 = 0\<rparr>) 4 0x00123456 0 4) = 0x00123456"
  using tss_desc_reads_back [of 0 "\<lambda>_. \<lparr>low_32 = 0, high_32 = 0\<rparr>" 4 "0x00123456"] by simp

text \<open>The same for \<open>set_ldt_desc\<close>: type 2 (an LDT), limit 32.\<close>

lemma ldt_desc_reads_back:
  assumes "dpl < 4"
  shows "get_segment_base (set_ldt_desc t i a dpl i) = a \<and> limit_field (set_ldt_desc t i a dpl i) = 32
    \<and> desc_type (set_ldt_desc t i a dpl i) = 2 \<and> desc_present (set_ldt_desc t i a dpl i)
    \<and> desc_dpl (set_ldt_desc t i a dpl i) = ucast dpl \<and> (set_ldt_desc t i a dpl)(i := t i) = t"
  using u8_less_4 [OF assms]
  by (elim disjE)
    (simp_all add: set_ldt_desc_bits desc_field_defs kbits word32_eq_bits bit_simps)

lemma gate_fields:
  assumes "dpl < 4"
  shows "gate_offset (set_gate t n k cs h dpl (unat n)) = h \<and> gate_selector (set_gate t n k cs h dpl (unat n)) = cs
    \<and> desc_type (set_gate t n k cs h dpl (unat n)) = ucast (gate_code k)
    \<and> desc_present (set_gate t n k cs h dpl (unat n))
    \<and> desc_dpl (set_gate t n k cs h dpl (unat n)) = ucast dpl
    \<and> (set_gate t n k cs h dpl)(unat n := t (unat n)) = t"
proof -
  have sel: "gate_selector (set_gate t n k cs h dpl (unat n)) = cs"
    by (simp add: gate_selector_def set_gate_def Let_def kbits)
      (rule bit_word_eqI, simp add: bit_simps)
  have off: "gate_offset (set_gate t n k cs h dpl (unat n)) = h"
    using u8_less_4 [OF assms]
    by (cases k; elim disjE)
      (simp_all add: set_gate_def Let_def gate_offset_def kbits word32_eq_bits bit_simps)
  have fields: "desc_type (set_gate t n k cs h dpl (unat n)) = ucast (gate_code k)"
    "desc_dpl (set_gate t n k cs h dpl (unat n)) = ucast dpl"
    using u8_less_4 [OF assms]
    by (cases k; elim disjE;
        simp add: set_gate_def Let_def desc_type_def desc_dpl_def kbits word32_eq_bits bit_simps)+
  have "desc_present (set_gate t n k cs h dpl (unat n))"
    by (simp add: set_gate_def Let_def desc_present_def bit_simps)
  with sel off fields show ?thesis
    by (simp add: set_gate_def Let_def)
qed

text \<open>
  Every gate \<open>set_gate\<close> installs leads to the handler given: the offset the processor assembles
  from the two halves is the handler's address, the selector, the type (14 for an interrupt gate, 15
  for a trap gate) and the privilege level are those given, the gate is present, and no other entry of
  the table changes.
\<close>

lemma gate_reads_back:
  assumes "dpl < 4"
  shows "gate_offset (set_gate t n k cs h dpl (unat n)) = h \<and> gate_selector (set_gate t n k cs h dpl (unat n)) = cs
    \<and> desc_type (set_gate t n k cs h dpl (unat n)) = ucast (gate_code k)
    \<and> desc_present (set_gate t n k cs h dpl (unat n))
    \<and> desc_dpl (set_gate t n k cs h dpl (unat n)) = ucast dpl
    \<and> (set_gate t n k cs h dpl)(unat n := t (unat n)) = t"
  using assms by (rule gate_fields)

lemma gate_reads_back_witness:
  "gate_offset (set_gate (\<lambda>_. \<lparr>low_32 = 0, high_32 = 0\<rparr>) 0x80 INTERRUPT_GATE 8 0x0001ABCD 3 128) = 0x0001ABCD"
  using gate_reads_back [of 3 "\<lambda>_. \<lparr>low_32 = 0, high_32 = 0\<rparr>" "0x80" INTERRUPT_GATE 8 "0x0001ABCD"] by simp

text \<open>
  \<open>set_segment_base\<close> stores a base that \<open>get_segment_base\<close> reads back exactly when the low 16
  bits of the base are zero: the low half is shifted left by 8 where the descriptor wants 16. The bases
  \<open>fork\<close> uses are multiples of 64MB, so they all survive; the limit then survives too.
\<close>

lemma segment_base_roundtrip_iff:
  "(get_segment_base (set_segment_base d b) = b \<longleftrightarrow> b AND 0xFFFF = 0) \<and>
   get_segment_base (set_segment_base d (of_nat task_nr * 0x4000000)) = of_nat task_nr * 0x4000000 \<and>
   limit_field (set_segment_base d (of_nat task_nr * 0x4000000)) = limit_field d"
proof -
  have "get_segment_base (set_segment_base d b) = b \<Longrightarrow> b AND 0xFFFF = 0"
    by (simp add: get_base_set_base aligned64K_bits) (simp add: kbits word32_eq_bits bit_simps, blast)
  moreover have "(of_nat task_nr * 0x4000000 :: u32) = push_bit 26 (of_nat task_nr)"
    by (simp add: push_bit_eq_mult)
  then have "(of_nat task_nr * 0x4000000 :: u32) AND 0xFFFF = 0"
    by (simp add: aligned64K_bits bit_simps)
  ultimately show ?thesis
    using get_base_set_base_aligned limit_set_base_aligned by blast
qed

end
