(* ===== verification/Scheduler.thy ===== *)
theory Scheduler
  imports Segments
begin

text \<open>
  The task table and the scheduler of kernel/sched.c with the types of include/linux/sched.h and
  include/linux/signal.h: the task structures, the choice of the next task, the timer tick, the
  primitives that put a task to sleep and wake it up, and the system calls that read or change the
  running task's own fields.
\<close>

section \<open>Signals' constants and actions (signal.h)\<close>

record sigaction =
  sa_handler :: u32
  sa_mask :: u32
  sa_flags :: u32
  sa_restorer :: u32

definition SIGHUP :: nat where "SIGHUP = 1"
definition SIGKILL :: nat where "SIGKILL = 9"
definition SIGALRM :: nat where "SIGALRM = 14"
definition SIGCHLD :: nat where "SIGCHLD = 17"
definition SIGSTOP :: nat where "SIGSTOP = 19"

text \<open>The bit \<open>1 << (n - 1)\<close> of a signal number.\<close>

definition sigbit :: "nat \<Rightarrow> u32" where "sigbit n = push_bit (n - 1) 1"

definition SIG_BLOCKABLE :: u32 where "SIG_BLOCKABLE = NOT (sigbit SIGKILL OR sigbit SIGSTOP)"
definition SIG_DFL :: u32 where "SIG_DFL = 0"
definition SIG_IGN :: u32 where "SIG_IGN = 1"
definition SA_NOMASK :: u32 where "SA_NOMASK = 0x40000000"
definition SA_ONESHOT :: u32 where "SA_ONESHOT = 0x80000000"

section \<open>Task structures (sched.h)\<close>

record tss_data =
  pre_task_link :: u16
  pre_task_link_pad :: u16
  esp0 :: u32
  ss0 :: u16
  ss0_pad :: u16
  esp1 :: u32
  ss1 :: u16
  ss1_pad :: u16
  esp2 :: u32
  ss2 :: u16
  ss2_pad :: u16
  cr3 :: u32
  tss_eip :: u32
  tss_eflags :: u32
  tss_eax :: u32
  tss_ecx :: u32
  tss_edx :: u32
  tss_ebx :: u32
  tss_esp :: u32
  tss_ebp :: u32
  tss_esi :: u32
  tss_edi :: u32
  tss_es :: u16
  es_pad :: u16
  tss_cs :: u16
  cs_pad :: u16
  tss_ss :: u16
  ss_pad :: u16
  tss_ds :: u16
  ds_pad :: u16
  tss_fs :: u16
  fs_pad :: u16
  tss_gs :: u16
  gs_pad :: u16
  tss_ldt :: u16
  ldt_pad :: u16
  debug_trap :: u16
  io_map_base :: u16

datatype task_state =
  TASK_RUNNING | TASK_INTERRUPTIBLE | TASK_UNINTERRUPTIBLE | TASK_ZOMBIE | TASK_STOPPED

record task_struct =
  state :: task_state
  exit_code :: i32
  start_time :: i32
  ts :: i32
  priority :: i32
  signal :: i32
  sa :: "nat \<Rightarrow> sigaction"
  blocked :: i32
  alarm :: i32
  pid :: i32
  father :: i32
  pgrp :: i32
  uid :: u16
  euid :: u16
  suid :: u16
  gid :: u16
  egid :: u16
  sgid :: u16
  session :: i32
  leader :: i32
  uts :: u32
  kts :: u32
  cuts :: u32
  ckts :: u32
  ldt :: desc_table
  tss :: tss_data

text \<open>
  The byte offsets of \<open>ldt\<close> and \<open>tss\<close> in a \<open>task_struct\<close>: the fields before them are 148 words of
  four bytes (the six user and group ids are two bytes each), and three descriptors.
\<close>

definition ldt_offset :: u32 where "ldt_offset = 592"
definition tss_offset :: u32 where "tss_offset = 616"

section \<open>State\<close>

text \<open>
  The task table holds addresses, 0 for NULL; \<open>tstore\<close> is the memory at those addresses, one
  \<open>task_struct\<close> each. \<open>task0_addr\<close> is where the linker places \<open>task0\<close>.
\<close>

record sched_state =
  tasks_ptr :: "nat \<Rightarrow> u32"
  tstore :: "u32 \<Rightarrow> task_struct"
  current :: u32
  jiffies :: i32
  task0_addr :: u32

definition upd_task :: "u32 \<Rightarrow> (task_struct \<Rightarrow> task_struct) \<Rightarrow> 'a sched_state_scheme \<Rightarrow> 'a sched_state_scheme" where
  "upd_task a f s = s\<lparr>tstore := (tstore s)(a := f (tstore s a))\<rparr>"

abbreviation cur_task :: "'a sched_state_scheme \<Rightarrow> task_struct" where
  "cur_task s \<equiv> tstore s (current s)"

lemma upd_task_simps [simp]:
  "tasks_ptr (upd_task a f s) = tasks_ptr s" "current (upd_task a f s) = current s"
  "jiffies (upd_task a f s) = jiffies s" "task0_addr (upd_task a f s) = task0_addr s"
  "tstore (upd_task a f s) = (tstore s)(a := f (tstore s a))"
  "sched_state.more (upd_task a f s) = sched_state.more s"
  by (simp_all add: upd_task_def)

section \<open>find_pid_task\<close>

definition find_pid_task :: "i32 \<Rightarrow> 'a sched_state_scheme \<Rightarrow> u32" where
  "find_pid_task p s =
     (let i = scan_up (\<lambda>i. tasks_ptr s i \<noteq> 0 \<and> pid (tstore s (tasks_ptr s i)) = p) 1 NUMBER_OF_TASKS
      in if i = NUMBER_OF_TASKS then 0 else tasks_ptr s i)"

section \<open>schedule\<close>

text \<open>A pass over the task table that treats every task that is there.\<close>

definition for_tasks :: "(task_struct \<Rightarrow> task_struct) \<Rightarrow> nat list \<Rightarrow> 'a sched_state_scheme \<Rightarrow> 'a sched_state_scheme" where
  "for_tasks f is s = fold (\<lambda>i s. if tasks_ptr s i \<noteq> 0 then upd_task (tasks_ptr s i) f s else s) is s"

abbreviation all_tasks_down :: "nat list" where "all_tasks_down \<equiv> rev [0 ..< NUMBER_OF_TASKS]"

text \<open>Pass 1: an expired alarm raises SIGALRM; a signal that is not blocked wakes the task.\<close>

definition wake_task :: "i32 \<Rightarrow> task_struct \<Rightarrow> task_struct" where
  "wake_task now t =
     (let t1 = (if alarm t \<noteq> 0 \<and> alarm t <s now
                then t\<lparr>signal := signal t OR sigbit SIGALRM, alarm := 0\<rparr> else t)
      in if signal t1 AND NOT (blocked t1 AND SIG_BLOCKABLE) \<noteq> 0 \<and> state t1 = TASK_INTERRUPTIBLE
         then t1\<lparr>state := TASK_RUNNING\<rparr> else t1)"

text \<open>Pass 2: the running task with the most ticks left; \<open>None\<close> is \<open>next_task_nr == -1\<close>.\<close>

definition pick_step :: "'a sched_state_scheme \<Rightarrow> nat \<Rightarrow> nat option \<times> i32 \<Rightarrow> nat option \<times> i32" where
  "pick_step s i = (\<lambda>(nr, best).
     if tasks_ptr s i \<noteq> 0 \<and> state (tstore s (tasks_ptr s i)) = TASK_RUNNING \<and> best <s ts (tstore s (tasks_ptr s i))
     then (Some i, ts (tstore s (tasks_ptr s i))) else (nr, best))"

definition next_task :: "'a sched_state_scheme \<Rightarrow> nat option" where
  "next_task s = fst (fold (pick_step s) all_tasks_down (None, 0))"

text \<open>Pass 3: when no running task has a tick left, each gets its priority's worth.\<close>

definition refill_task :: "task_struct \<Rightarrow> task_struct" where
  "refill_task t = (if state t = TASK_RUNNING then t\<lparr>ts := priority t\<rparr> else t)"

text \<open>\<open>switch_to\<close> sets \<open>current\<close> and jumps through the TSS selector; the processor does the rest.\<close>

definition switch_to :: "nat \<Rightarrow> 'a sched_state_scheme \<Rightarrow> 'a sched_state_scheme" where
  "switch_to task_nr s = s\<lparr>current := tasks_ptr s task_nr\<rparr>"

definition schedule :: "'a sched_state_scheme \<Rightarrow> 'a sched_state_scheme" where
  "schedule s =
     (let s1 = for_tasks (wake_task (jiffies s)) all_tasks_down s
      in case next_task s1 of
           None \<Rightarrow> for_tasks refill_task all_tasks_down s1
         | Some n \<Rightarrow> if current s1 \<noteq> tasks_ptr s1 n then switch_to n s1 else s1)"

section \<open>The timer tick\<close>

definition do_timer_interrupt :: "u32 \<Rightarrow> 'a sched_state_scheme \<Rightarrow> 'a sched_state_scheme" where
  "do_timer_interrupt cs s =
     (let s1 = s\<lparr>jiffies := jiffies s + 1\<rparr>;
          s2 = upd_task (current s1) (\<lambda>t. t\<lparr>ts := ts t - 1\<rparr>) s1
      in if cs AND 3 = 0 then upd_task (current s2) (\<lambda>t. t\<lparr>kts := kts t + 1\<rparr>) s2
         else let s3 = upd_task (current s2) (\<lambda>t. t\<lparr>uts := uts t + 1\<rparr>) s2
              in if ts (cur_task s3) \<le>s 0 then schedule s3 else s3)"

section \<open>Sleeping and waking\<close>

text \<open>
  A wait queue is one pointer (\<open>q\<close>, 0 when empty). \<open>sleep_on\<close> is split at its call of \<open>schedule\<close>: the
  part up to its return, which yields the sleeper's \<open>tmp\<close> and the new queue, and the part after it, which the task
  executes when it runs again. A null \<open>p\<close> returns at once and is not modelled.
\<close>

definition sleep_on_enter :: "u32 \<Rightarrow> 'a sched_state_scheme \<Rightarrow> (u32 \<times> u32 \<times> 'a sched_state_scheme) kresult" where
  "sleep_on_enter q s =
     (if current s = task0_addr s then Inl (Panic ''task[0] trying to sleep'')
      else Inr (q, current s, schedule (upd_task (current s) (\<lambda>t. t\<lparr>state := TASK_UNINTERRUPTIBLE\<rparr>) s)))"

definition sleep_on_leave :: "u32 \<Rightarrow> 'a sched_state_scheme \<Rightarrow> 'a sched_state_scheme" where
  "sleep_on_leave tmp s = (if tmp \<noteq> 0 then upd_task tmp (\<lambda>t. t\<lparr>state := TASK_RUNNING\<rparr>) s else s)"

definition wake_up :: "u32 \<Rightarrow> 'a sched_state_scheme \<Rightarrow> u32 \<times> 'a sched_state_scheme" where
  "wake_up q s = (if q \<noteq> 0 then (0, upd_task q (\<lambda>t. t\<lparr>state := TASK_RUNNING\<rparr>) s) else (q, s))"

text \<open>
  \<open>interruptible_sleep_on\<close>: after each return of \<open>schedule\<close> a task that is not at the head of the queue
  wakes the head and sleeps again (\<open>Some\<close> state: back to \<open>repeat\<close>); at the head it empties the queue and
  wakes the task that was there before it.
\<close>

definition interruptible_sleep_again :: "'a sched_state_scheme \<Rightarrow> 'a sched_state_scheme" where
  "interruptible_sleep_again s = schedule (upd_task (current s) (\<lambda>t. t\<lparr>state := TASK_INTERRUPTIBLE\<rparr>) s)"

definition interruptible_sleep_enter :: "u32 \<Rightarrow> 'a sched_state_scheme \<Rightarrow> (u32 \<times> u32 \<times> 'a sched_state_scheme) kresult" where
  "interruptible_sleep_enter q s =
     (if current s = task0_addr s then Inl (Panic ''task[0] trying to sleep'')
      else Inr (q, current s, interruptible_sleep_again s))"

definition interruptible_sleep_return ::
  "u32 \<Rightarrow> u32 \<Rightarrow> 'a sched_state_scheme \<Rightarrow> 'a sched_state_scheme + u32 \<times> 'a sched_state_scheme" where
  "interruptible_sleep_return q tmp s =
     (if q \<noteq> 0 \<and> q \<noteq> current s
      then Inl (interruptible_sleep_again (upd_task q (\<lambda>t. t\<lparr>state := TASK_RUNNING\<rparr>) s))
      else Inr (0, if tmp \<noteq> 0 then upd_task tmp (\<lambda>t. t\<lparr>state := TASK_RUNNING\<rparr>) s else s))"

section \<open>System calls on the current task\<close>

definition sys_pause :: "'a sched_state_scheme \<Rightarrow> i32 \<times> 'a sched_state_scheme" where
  "sys_pause s = (0, schedule (upd_task (current s) (\<lambda>t. t\<lparr>state := TASK_INTERRUPTIBLE\<rparr>) s))"

definition sys_getpid :: "'a sched_state_scheme \<Rightarrow> i32" where "sys_getpid s = pid (cur_task s)"
definition sys_getppid :: "'a sched_state_scheme \<Rightarrow> i32" where "sys_getppid s = father (cur_task s)"
definition sys_getuid :: "'a sched_state_scheme \<Rightarrow> i32" where "sys_getuid s = ucast (uid (cur_task s))"
definition sys_geteuid :: "'a sched_state_scheme \<Rightarrow> i32" where "sys_geteuid s = ucast (euid (cur_task s))"
definition sys_getgid :: "'a sched_state_scheme \<Rightarrow> i32" where "sys_getgid s = ucast (gid (cur_task s))"
definition sys_getegid :: "'a sched_state_scheme \<Rightarrow> i32" where "sys_getegid s = ucast (egid (cur_task s))"

definition sys_nice :: "i32 \<Rightarrow> 'a sched_state_scheme \<Rightarrow> i32 \<times> 'a sched_state_scheme" where
  "sys_nice increment s =
     (0, if 0 <s priority (cur_task s) - increment
         then upd_task (current s) (\<lambda>t. t\<lparr>priority := priority t - increment\<rparr>) s
         else if euid (cur_task s) = 0
         then upd_task (current s) (\<lambda>t. t\<lparr>priority := priority t - increment\<rparr>) s
         else s)"

section \<open>Boot: task 0, sched_init, switch_to_TASK0\<close>

text \<open>
  The initialiser of \<open>task0\<close>. The addresses of \<open>page_dir\<close>, \<open>TASK_0\<close>, \<open>task0\<close> and its user stack are the
  linker's; fields the initialiser leaves out are zero.
\<close>

definition null_sigaction :: sigaction where
  "null_sigaction = \<lparr>sa_handler = 0, sa_mask = 0, sa_flags = 0, sa_restorer = 0\<rparr>"

definition task0_ldt :: desc_table where
  "task0_ldt = (\<lambda>_. \<lparr>low_32 = 0, high_32 = 0\<rparr>)
     (1 := \<lparr>low_32 = 0xFFF, high_32 = 0xC0FA00\<rparr>, 2 := \<lparr>low_32 = 0xFFF, high_32 = 0xC0F200\<rparr>)"

definition task0_tss :: "u32 \<Rightarrow> u32 \<Rightarrow> u32 \<Rightarrow> u32 \<Rightarrow> tss_data" where
  "task0_tss page_dir TASK_0 task0 user_stack =
     \<lparr>pre_task_link = 0, pre_task_link_pad = 0, esp0 = task0 + 4096 - 1, ss0 = 0x10, ss0_pad = 0,
      esp1 = 0, ss1 = 0, ss1_pad = 0, esp2 = 0, ss2 = 0, ss2_pad = 0, cr3 = page_dir,
      tss_eip = TASK_0, tss_eflags = 0x3202, tss_eax = 0, tss_ecx = 0, tss_edx = 0, tss_ebx = 0,
      tss_esp = user_stack + 4096 - 1, tss_ebp = 0, tss_esi = 0, tss_edi = 0,
      tss_es = 0x17, es_pad = 0, tss_cs = 0x0F, cs_pad = 0, tss_ss = 0x17, ss_pad = 0,
      tss_ds = 0x17, ds_pad = 0, tss_fs = 0x17, fs_pad = 0, tss_gs = 0, gs_pad = 0,
      tss_ldt = ucast (LDT_selector 0), ldt_pad = 0, debug_trap = 0, io_map_base = 104\<rparr>"

definition task0_init :: "u32 \<Rightarrow> u32 \<Rightarrow> u32 \<Rightarrow> u32 \<Rightarrow> task_struct" where
  "task0_init page_dir TASK_0 task0 user_stack =
     \<lparr>state = TASK_RUNNING, exit_code = 0, start_time = 0, ts = 10, priority = 10,
      signal = 0, sa = (\<lambda>_. null_sigaction), blocked = 0, alarm = 0,
      pid = 0, father = - 1, pgrp = 0, uid = 0, euid = 0, suid = 0, gid = 0, egid = 0, sgid = 0,
      session = 0, leader = 0, uts = 0, kts = 0, cuts = 0, ckts = 0,
      ldt = task0_ldt, tss = task0_tss page_dir TASK_0 task0 user_stack\<rparr>"

text \<open>
  \<open>sched_init\<close>: the descriptors of task 0, the rest of the task table and of the descriptor table
  cleared, the rate of the timer chip (port and value of each \<open>out_b\<close>) and its gate. The two loads of the
  task registers have no state here; \<open>ocw1\<close> is what \<open>in_b\<close> reads from the interrupt mask.
\<close>

definition timer_divisor :: u32 where "timer_divisor = 1193180 div 100"

definition sched_init ::
  "u32 \<Rightarrow> u8 \<Rightarrow> 'a sched_state_scheme \<Rightarrow> desc_table \<Rightarrow> desc_table \<Rightarrow>
     'a sched_state_scheme \<times> desc_table \<times> desc_table \<times> (u16 \<times> u8) list" where
  "sched_init timer_interrupt ocw1 s gdt idt =
     (let gdt1 = set_tss_desc gdt FIRST_TSS_DESC_INDEX (task0_addr s + tss_offset) 0;
          gdt2 = set_ldt_desc gdt1 FIRST_LDT_DESC_INDEX (task0_addr s + ldt_offset) 0;
          s1 = s\<lparr>tasks_ptr := (\<lambda>i. if 1 \<le> i \<and> i < NUMBER_OF_TASKS then 0 else tasks_ptr s i)\<rparr>;
          gdt3 = (\<lambda>i. if FIRST_TSS_DESC_INDEX + 2 \<le> i \<and> i < (NUMBER_OF_TASKS - 1) * 2
                      then \<lparr>low_32 = 0, high_32 = 0\<rparr> else gdt2 i);
          idt1 = set_gate idt 0x20 INTERRUPT_GATE 8 timer_interrupt 0
      in (s1, gdt3, idt1,
          [(0x43, 0x36), (0x40, ucast (timer_divisor AND 0xFF)), (0x40, ucast (drop_bit 8 timer_divisor AND 0xFF)),
           (0x21, ocw1 AND NOT 1)]))"

text \<open>
  \<open>switch_to_TASK0\<close> copies the registers of task 0's TSS to locals, pushes the frame of an
  inter-privilege return, loads the general registers and data segments, pops \<open>eax\<close> and \<open>ebp\<close> and
  executes \<open>iret\<close>. The stack is the list of double words pushed, top first.
\<close>

record cpu_regs =
  r_eax :: u32
  r_ebx :: u32
  r_ecx :: u32
  r_edx :: u32
  r_ebp :: u32
  r_esi :: u32
  r_edi :: u32
  r_eip :: u32
  r_eflags :: u32
  r_esp :: u32
  r_cs :: u16
  r_ds :: u16
  r_es :: u16
  r_fs :: u16
  r_gs :: u16
  r_ss :: u16

definition push32 :: "u32 \<Rightarrow> u32 list \<Rightarrow> u32 list" where "push32 v st = v # st"

text \<open>\<open>iret\<close> to an outer ring: \<open>eip\<close>, \<open>cs\<close>, \<open>eflags\<close>, \<open>esp\<close>, \<open>ss\<close> in the order they are popped.\<close>

fun iret_outer :: "u32 list \<Rightarrow> cpu_regs \<Rightarrow> cpu_regs option" where
  "iret_outer (ip # c # fl # sp # sg # st) r =
     Some (r\<lparr>r_eip := ip, r_cs := ucast c, r_eflags := fl, r_esp := sp, r_ss := ucast sg\<rparr>)"
| "iret_outer _ r = None"

text \<open>
  The 16-bit operands are moved to \<open>eax\<close> as double words (\<open>mov %13, %%eax\<close> reads 32 bits at a 16-bit
  local), so the upper half of the words pushed for \<open>ss\<close> and \<open>cs\<close> is whatever lies beside the local (\<open>junk\<close>).
\<close>

definition switch_to_TASK0 ::
  "u16 \<Rightarrow> u16 \<Rightarrow> cpu_regs \<Rightarrow> 'a sched_state_scheme \<Rightarrow> ('a sched_state_scheme \<times> cpu_regs) option" where
  "switch_to_TASK0 junk1 junk2 r s =
     (let t = tss (tstore s (tasks_ptr s 0));
          s1 = s\<lparr>current := tasks_ptr s 0\<rparr>;
          r1 = r\<lparr>r_ebx := tss_ebx t, r_ecx := tss_ecx t, r_edx := tss_edx t, r_esi := tss_esi t, r_edi := tss_edi t\<rparr>;
          st = push32 (tss_eax t) (push32 (tss_ebp t) (push32 (tss_eip t)
                (push32 (push_bit 16 (ucast junk2) OR ucast (tss_cs t))
                  (push32 (tss_eflags t) (push32 (tss_esp t)
                    (push32 (push_bit 16 (ucast junk1) OR ucast (tss_ss t)) []))))));
          r2 = r1\<lparr>r_es := tss_es t, r_fs := tss_fs t, r_gs := tss_gs t, r_ds := tss_ds t\<rparr>
      in case st of
           a # b # st' \<Rightarrow> map_option (\<lambda>r3. (s1, r3)) (iret_outer st' (r2\<lparr>r_eax := a, r_ebp := b\<rparr>))
         | _ \<Rightarrow> None)"

section \<open>What a pass over the table does\<close>

definition live_tasks :: "nat list \<Rightarrow> 'a sched_state_scheme \<Rightarrow> u32 set" where
  "live_tasks is s = {tasks_ptr s i | i. i \<in> set is \<and> tasks_ptr s i \<noteq> 0}"

lemma for_tasks_tstore:
  assumes idem: "\<And>t. f (f t) = f t"
  shows "for_tasks f is s = s\<lparr>tstore := \<lambda>a. if a \<in> live_tasks is s then f (tstore s a) else tstore s a\<rparr>"
proof (induction "is" arbitrary: s)
  case Nil
  then show ?case by (simp add: for_tasks_def live_tasks_def)
next
  case (Cons i "is")
  show ?case
  proof (cases "tasks_ptr s i = 0")
    case True
    then have "live_tasks (i # is) s = live_tasks is s" by (auto simp: live_tasks_def)
    with True Cons.IH show ?thesis by (simp add: for_tasks_def)
  next
    case False
    let ?s1 = "upd_task (tasks_ptr s i) f s"
    have live: "live_tasks (i # is) s = insert (tasks_ptr s i) (live_tasks is s)" "live_tasks is ?s1 = live_tasks is s"
      using False by (auto simp: live_tasks_def)
    have "for_tasks f (i # is) s = for_tasks f is ?s1" using False by (simp add: for_tasks_def)
    also have "\<dots> = ?s1\<lparr>tstore := \<lambda>a. if a \<in> live_tasks is s then f (tstore ?s1 a) else tstore ?s1 a\<rparr>"
      by (simp only: Cons.IH live)
    also have "\<dots> = s\<lparr>tstore := \<lambda>a. if a \<in> insert (tasks_ptr s i) (live_tasks is s) then f (tstore s a) else tstore s a\<rparr>"
      by (auto simp: upd_task_def idem fun_eq_iff)
    finally show ?thesis by (simp only: live)
  qed
qed

lemma wake_task_idem: "wake_task j (wake_task j t) = wake_task j t"
  by (simp add: wake_task_def Let_def)

lemma refill_task_idem: "refill_task (refill_task t) = refill_task t"
  by (simp add: refill_task_def)

definition table_tasks :: "'a sched_state_scheme \<Rightarrow> u32 set" where
  "table_tasks s = {tasks_ptr s i | i. i < NUMBER_OF_TASKS \<and> tasks_ptr s i \<noteq> 0}"

lemma live_all_tasks: "live_tasks all_tasks_down s = table_tasks s"
  by (auto simp: live_tasks_def table_tasks_def)

lemmas for_all_tasks =
  for_tasks_tstore [of "wake_task j", OF wake_task_idem, of all_tasks_down, unfolded live_all_tasks] for j

lemmas for_all_refill =
  for_tasks_tstore [of refill_task, OF refill_task_idem, of all_tasks_down, unfolded live_all_tasks]

section \<open>Which task is chosen\<close>

text \<open>The scan from the top keeps the first maximum it meets: ties go to the higher task number.\<close>

definition can_run :: "'a sched_state_scheme \<Rightarrow> nat \<Rightarrow> bool" where
  "can_run s i \<longleftrightarrow> tasks_ptr s i \<noteq> 0 \<and> state (tstore s (tasks_ptr s i)) = TASK_RUNNING"

abbreviation ticks :: "'a sched_state_scheme \<Rightarrow> nat \<Rightarrow> int" where
  "ticks s i \<equiv> sint (ts (tstore s (tasks_ptr s i)))"

lemma pick_fold:
  "fold (pick_step s) (rev [0 ..< n]) (r0, m0) = (r, m) \<Longrightarrow>
     sint m0 \<le> sint m \<and> (\<forall>i < n. can_run s i \<longrightarrow> ticks s i \<le> sint m) \<and>
     ((r = r0 \<and> m = m0) \<or>
      (\<exists>k < n. r = Some k \<and> can_run s k \<and> ts (tstore s (tasks_ptr s k)) = m \<and> sint m0 < sint m \<and>
         (\<forall>i < n. k < i \<and> can_run s i \<longrightarrow> ticks s i < sint m)))"
proof (induction n arbitrary: r0 m0)
  case 0
  then show ?case by simp
next
  case (Suc n)
  show ?case
  proof (cases "can_run s n \<and> sint m0 < ticks s n")
    case True
    let ?t = "ts (tstore s (tasks_ptr s n))"
    have "pick_step s n (r0, m0) = (Some n, ?t)"
      using True by (simp add: pick_step_def can_run_def word_sless_alt)
    with Suc.prems have "fold (pick_step s) (rev [0 ..< n]) (Some n, ?t) = (r, m)" by simp
    from Suc.IH [OF this] show ?thesis
    proof (elim conjE disjE exE)
      assume "sint ?t \<le> sint m" "\<forall>i < n. can_run s i \<longrightarrow> ticks s i \<le> sint m" "r = Some n" "m = ?t"
      then show ?thesis using True by (auto simp: less_Suc_eq)
    next
      fix k assume k: "sint ?t \<le> sint m" "\<forall>i < n. can_run s i \<longrightarrow> ticks s i \<le> sint m" "k < n" "r = Some k" "can_run s k"
        "ts (tstore s (tasks_ptr s k)) = m" "sint ?t < sint m"
        "\<forall>i < n. k < i \<and> can_run s i \<longrightarrow> ticks s i < sint m"
      then have "\<forall>i < Suc n. k < i \<and> can_run s i \<longrightarrow> ticks s i < sint m" "sint m0 < sint m"
        using True by (auto simp: less_Suc_eq)
      then show ?thesis using k by (auto simp: less_Suc_eq)
    qed
  next
    case False
    then have "pick_step s n (r0, m0) = (r0, m0)"
      by (auto simp: pick_step_def can_run_def word_sless_alt)
    with Suc.prems have "fold (pick_step s) (rev [0 ..< n]) (r0, m0) = (r, m)" by simp
    from Suc.IH [OF this] show ?thesis
    proof (elim conjE disjE exE)
      assume "sint m0 \<le> sint m" "\<forall>i < n. can_run s i \<longrightarrow> ticks s i \<le> sint m" "r = r0" "m = m0"
      then show ?thesis using False by (auto simp: less_Suc_eq)
    next
      fix k assume k: "sint m0 \<le> sint m" "\<forall>i < n. can_run s i \<longrightarrow> ticks s i \<le> sint m" "k < n" "r = Some k" "can_run s k"
        "ts (tstore s (tasks_ptr s k)) = m" "sint m0 < sint m"
        "\<forall>i < n. k < i \<and> can_run s i \<longrightarrow> ticks s i < sint m"
      then have "\<forall>i < Suc n. k < i \<and> can_run s i \<longrightarrow> ticks s i < sint m"
        using False by (auto simp: less_Suc_eq)
      then show ?thesis using k False by (auto simp: less_Suc_eq)
    qed
  qed
qed

lemma next_task_None: "next_task s = None \<longleftrightarrow> (\<forall>i < NUMBER_OF_TASKS. can_run s i \<longrightarrow> ticks s i \<le> 0)"
proof -
  obtain r m where f: "fold (pick_step s) all_tasks_down (None, 0) = (r, m)" by fastforce
  from pick_fold [OF f] show ?thesis by (fastforce simp: next_task_def f)
qed

lemma next_task_Some:
  assumes "next_task s = Some k"
  shows "k < NUMBER_OF_TASKS \<and> can_run s k \<and> 0 < ticks s k \<and>
    (\<forall>i < NUMBER_OF_TASKS. can_run s i \<longrightarrow> ticks s i \<le> ticks s k \<and> (k < i \<longrightarrow> ticks s i < ticks s k))"
proof -
  obtain r m where f: "fold (pick_step s) all_tasks_down (None, 0) = (r, m)" by fastforce
  from pick_fold [OF f] assms show ?thesis by (auto simp: next_task_def f)
qed

text \<open>The state after pass 1, and the two ways \<open>schedule\<close> ends.\<close>

definition woken :: "'a sched_state_scheme \<Rightarrow> 'a sched_state_scheme" where
  "woken s = s\<lparr>tstore := \<lambda>a. if a \<in> table_tasks s then wake_task (jiffies s) (tstore s a) else tstore s a\<rparr>"

definition refilled :: "'a sched_state_scheme \<Rightarrow> 'a sched_state_scheme" where
  "refilled s = s\<lparr>tstore := \<lambda>a. if a \<in> table_tasks s then refill_task (tstore s a) else tstore s a\<rparr>"

lemma schedule_eq:
  "schedule s = (case next_task (woken s) of None \<Rightarrow> refilled (woken s)
     | Some n \<Rightarrow> (woken s)\<lparr>current := tasks_ptr s n\<rparr>)"
proof -
  have w: "for_tasks (wake_task (jiffies s)) all_tasks_down s = woken s"
    by (simp add: for_all_tasks woken_def)
  have "tasks_ptr (woken s) = tasks_ptr s" "(woken s)\<lparr>current := current (woken s)\<rparr> = woken s"
    by (simp_all add: woken_def)
  then show ?thesis
    unfolding schedule_def Let_def w
    by (auto simp: for_all_refill refilled_def switch_to_def split: option.splits)
qed

lemma woken_frame [simp]:
  "tasks_ptr (woken s) = tasks_ptr s" "current (woken s) = current s" "jiffies (woken s) = jiffies s"
  "table_tasks (woken s) = table_tasks s" "task0_addr (woken s) = task0_addr s"
  "sched_state.more (woken s) = sched_state.more s"
  by (simp_all add: woken_def table_tasks_def)

lemma refilled_frame [simp]:
  "tasks_ptr (refilled s) = tasks_ptr s" "current (refilled s) = current s" "jiffies (refilled s) = jiffies s"
  "table_tasks (refilled s) = table_tasks s" "task0_addr (refilled s) = task0_addr s"
  "sched_state.more (refilled s) = sched_state.more s"
  by (simp_all add: refilled_def table_tasks_def)

lemma schedule_frame [simp]:
  "tasks_ptr (schedule s) = tasks_ptr s" "jiffies (schedule s) = jiffies s"
  "task0_addr (schedule s) = task0_addr s" "sched_state.more (schedule s) = sched_state.more s"
  by (auto simp: schedule_eq split: option.splits)


text \<open>
  C11. What \<open>schedule\<close> does, once alarms and pending signals have been looked at: if a running task has
  ticks left, the one with the most is current afterwards, the highest task number winning a tie, and
  nothing else changes; otherwise the current task stays, and every running task gets its priority in
  ticks while all others keep theirs.
\<close>

theorem schedule_chooses:
  "if \<exists>i < NUMBER_OF_TASKS. can_run (woken s) i \<and> 0 < ticks (woken s) i
   then \<exists>k < NUMBER_OF_TASKS. can_run (woken s) k \<and> 0 < ticks (woken s) k
      \<and> (\<forall>i < NUMBER_OF_TASKS. can_run (woken s) i \<longrightarrow>
            ticks (woken s) i \<le> ticks (woken s) k \<and> (k < i \<longrightarrow> ticks (woken s) i < ticks (woken s) k))
      \<and> schedule s = (woken s)\<lparr>current := tasks_ptr s k\<rparr>
   else current (schedule s) = current s
      \<and> (\<forall>i < NUMBER_OF_TASKS. tasks_ptr s i \<noteq> 0 \<longrightarrow>
            tstore (schedule s) (tasks_ptr s i) =
              (if can_run (woken s) i
               then (tstore (woken s) (tasks_ptr s i))\<lparr>ts := priority (tstore (woken s) (tasks_ptr s i))\<rparr>
               else tstore (woken s) (tasks_ptr s i)))"
proof (cases "next_task (woken s)")
  case (Some k)
  from next_task_Some [OF Some] have k: "k < NUMBER_OF_TASKS" "can_run (woken s) k" "0 < ticks (woken s) k"
    and max: "\<forall>i < NUMBER_OF_TASKS. can_run (woken s) i \<longrightarrow>
      ticks (woken s) i \<le> ticks (woken s) k \<and> (k < i \<longrightarrow> ticks (woken s) i < ticks (woken s) k)" by auto
  moreover have "schedule s = (woken s)\<lparr>current := tasks_ptr s k\<rparr>" by (simp add: schedule_eq Some)
  ultimately show ?thesis by auto
next
  case None
  then have none: "\<not> (\<exists>i < NUMBER_OF_TASKS. can_run (woken s) i \<and> 0 < ticks (woken s) i)"
    by (auto simp: next_task_None dest: spec)
  moreover have "schedule s = refilled (woken s)" by (simp add: schedule_eq None)
  moreover have "tasks_ptr s i \<in> table_tasks s" if "i < NUMBER_OF_TASKS" "tasks_ptr s i \<noteq> 0" for i
    using that by (auto simp: table_tasks_def)
  ultimately show ?thesis unfolding if_not_P [OF none] by (simp add: refilled_def refill_task_def can_run_def)
qed

definition two_tasks :: "i32 \<Rightarrow> i32 \<Rightarrow> sched_state" where
  "two_tasks ts0 ts1 =
     (let t = task0_init 0 0 0 0
      in \<lparr>tasks_ptr = (\<lambda>_. 0)(0 := 0x10000, 1 := 0x20000),
          tstore = (\<lambda>_. t)(0x10000 := t\<lparr>ts := ts0\<rparr>, 0x20000 := t\<lparr>ts := ts1, pid := 1, father := 0\<rparr>),
          current = 0x20000, jiffies = 7, task0_addr = 0x10000\<rparr>)"

lemma wake_task0 [simp]: "wake_task j (task0_init a b c d) = task0_init a b c d"
  by (simp add: wake_task_def task0_init_def Let_def)

lemma two_tasks_simps [simp]:
  "tasks_ptr (two_tasks x y) = (\<lambda>_. 0)(0 := 0x10000, 1 := 0x20000)" "current (two_tasks x y) = 0x20000"
  "task0_addr (two_tasks x y) = 0x10000" "jiffies (two_tasks x y) = 7"
  "tstore (two_tasks x y) 0x10000 = (task0_init 0 0 0 0)\<lparr>ts := x\<rparr>"
  "tstore (two_tasks x y) 0x20000 = (task0_init 0 0 0 0)\<lparr>ts := y, pid := 1, father := 0\<rparr>"
  "table_tasks (two_tasks x y) = {0x10000, 0x20000}"
  by (auto simp: two_tasks_def Let_def table_tasks_def NUMBER_OF_TASKS_def)

lemma two_tasks_woken [simp]: "woken (two_tasks x y) = two_tasks x y"
  by (simp add: woken_def two_tasks_def Let_def wake_task_def task0_init_def fun_eq_iff)

theorem schedule_chooses_witness: "current (schedule (two_tasks 3 0)) = 0x10000"
proof -
  have "can_run (two_tasks 3 0) 0 \<and> 0 < ticks (two_tasks 3 0) 0"
    by (simp add: can_run_def task0_init_def)
  then have ex: "\<exists>i < NUMBER_OF_TASKS. can_run (woken (two_tasks 3 0)) i \<and> 0 < ticks (woken (two_tasks 3 0)) i"
    unfolding two_tasks_woken by (intro exI [of _ 0]) (simp add: NUMBER_OF_TASKS_def)
  from schedule_chooses [of "two_tasks 3 0"] ex obtain k where
    k: "can_run (two_tasks 3 0) k" "0 < ticks (two_tasks 3 0) k"
    "schedule (two_tasks 3 0) = (two_tasks 3 0)\<lparr>current := tasks_ptr (two_tasks 3 0) k\<rparr>" by auto
  then have "k = 0 \<or> k = 1" by (auto simp: can_run_def split: if_splits)
  with k(2) have "k = 0" by (auto simp: task0_init_def)
  with k(3) show ?thesis by simp
qed

lemma wake_task_fields:
  "ts (wake_task j t) = ts t" "priority (wake_task j t) = priority t"
  "state t \<noteq> TASK_INTERRUPTIBLE \<Longrightarrow> state (wake_task j t) = state t"
  "state (wake_task j t) = state t \<or> state (wake_task j t) = TASK_RUNNING"
  by (simp_all add: wake_task_def Let_def)

lemma refill_task_fields:
  "state (refill_task t) = state t" "priority (refill_task t) = priority t"
  "state t = TASK_RUNNING \<Longrightarrow> ts (refill_task t) = priority t"
  by (simp_all add: refill_task_def)

lemma schedule_state:
  "state (tstore (schedule s) a) = state (tstore (woken s) a)"
  by (auto simp: schedule_eq refilled_def refill_task_def split: option.splits)

lemma can_run_woken: "can_run s i \<Longrightarrow> can_run (woken s) i"
  by (auto simp: can_run_def woken_def wake_task_fields)

lemma can_run_schedule: "can_run (schedule s) i \<longleftrightarrow> can_run (woken s) i"
  by (simp add: can_run_def schedule_state)

lemma ticks_woken: "ts (tstore (woken s) a) = ts (tstore s a)"
  by (simp add: woken_def wake_task_fields)

lemma schedule_runs:
  assumes "\<exists>i < NUMBER_OF_TASKS. can_run s i \<and> 0 < ticks s i"
  shows "\<exists>k < NUMBER_OF_TASKS. current (schedule s) = tasks_ptr s k \<and> can_run (schedule s) k \<and> 0 < ticks (schedule s) k"
proof -
  from assms have "next_task (woken s) \<noteq> None"
    unfolding next_task_None ticks_woken woken_frame by (meson can_run_woken linorder_not_le)
  then obtain k where k: "next_task (woken s) = Some k" by blast
  then have "schedule s = (woken s)\<lparr>current := tasks_ptr s k\<rparr>" by (simp add: schedule_eq)
  with next_task_Some [OF k] show ?thesis by (auto simp: can_run_def)
qed

text \<open>
  C26. The processor is never idle while some task can use it: whatever ticks are left, if a task is
  running and has a positive priority, then after two successive calls of \<open>schedule\<close> the current task is
  a running task with ticks left. (The first call may only refill the ticks and return.)
\<close>

theorem two_schedules_run_a_task:
  assumes "i < NUMBER_OF_TASKS" "tasks_ptr s i \<noteq> 0" "state (tstore s (tasks_ptr s i)) = TASK_RUNNING"
    "0 <s priority (tstore s (tasks_ptr s i))"
  shows "\<exists>k < NUMBER_OF_TASKS. current (schedule (schedule s)) = tasks_ptr s k
    \<and> can_run (schedule (schedule s)) k \<and> 0 < ticks (schedule (schedule s)) k"
proof -
  have run: "can_run s i" using assms by (simp add: can_run_def)
  have "\<exists>j < NUMBER_OF_TASKS. can_run (schedule s) j \<and> 0 < ticks (schedule s) j"
  proof (cases "next_task (woken s)")
    case (Some k)
    then have "schedule s = (woken s)\<lparr>current := tasks_ptr s k\<rparr>" by (simp add: schedule_eq)
    with next_task_Some [OF Some] show ?thesis by (auto simp: can_run_def)
  next
    case None
    then have s1: "schedule s = refilled (woken s)" by (simp add: schedule_eq)
    have "tasks_ptr s i \<in> table_tasks s" using assms by (auto simp: table_tasks_def)
    moreover have "state (tstore (woken s) (tasks_ptr s i)) = TASK_RUNNING"
      using can_run_woken [OF run] by (simp add: can_run_def)
    moreover have "priority (tstore (woken s) (tasks_ptr s i)) = priority (tstore s (tasks_ptr s i))"
      by (simp add: woken_def wake_task_fields)
    ultimately have "ticks (schedule s) i = sint (priority (tstore s (tasks_ptr s i)))"
      by (simp add: s1 refilled_def refill_task_def)
    moreover have "can_run (schedule s) i" using run by (simp add: can_run_schedule can_run_woken)
    ultimately show ?thesis using assms by (auto simp: word_sless_alt)
  qed
  from schedule_runs [OF this] show ?thesis by simp
qed

theorem two_schedules_run_a_task_witness:
  "\<exists>k < NUMBER_OF_TASKS. current (schedule (schedule (two_tasks 0 0))) = tasks_ptr (two_tasks 0 0) k"
proof -
  have "(0 :: nat) < NUMBER_OF_TASKS" "tasks_ptr (two_tasks 0 0) 0 \<noteq> 0"
    "state (tstore (two_tasks 0 0) (tasks_ptr (two_tasks 0 0) 0)) = TASK_RUNNING"
    "0 <s priority (tstore (two_tasks 0 0) (tasks_ptr (two_tasks 0 0) 0))"
    by (simp_all add: NUMBER_OF_TASKS_def task0_init_def word_sless_alt)
  from two_schedules_run_a_task [OF this] show ?thesis by blast
qed


section \<open>Schedulers and sleeping tasks\<close>

text \<open>
  What the code that puts tasks to sleep, or ends them, relies on: a scheduler changes the state of no
  task but an interruptible sleeper's (which it may set running), and the task it makes current is a
  running one unless it leaves the current task where it was. So a task that is neither running nor
  interruptible keeps its state, and never gets the processor, however often the scheduler is called.
\<close>

locale cpu_scheduler =
  fixes sched :: "'s \<Rightarrow> 's" and st :: "'s \<Rightarrow> u32 \<Rightarrow> task_state" and cur :: "'s \<Rightarrow> u32"
  assumes keeps: "st s a \<noteq> TASK_INTERRUPTIBLE \<Longrightarrow> st (sched s) a = st s a"
    and wakes: "st s a = TASK_INTERRUPTIBLE \<Longrightarrow> st (sched s) a = TASK_INTERRUPTIBLE \<or> st (sched s) a = TASK_RUNNING"
    and chooses: "cur (sched s) = cur s \<or> st (sched s) (cur (sched s)) = TASK_RUNNING"
begin

definition off_cpu :: "'s \<Rightarrow> u32 \<Rightarrow> bool" where
  "off_cpu s a \<longleftrightarrow> st s a \<noteq> TASK_RUNNING \<and> st s a \<noteq> TASK_INTERRUPTIBLE"

lemma keeps_many: "st s a \<noteq> TASK_INTERRUPTIBLE \<Longrightarrow> st ((sched ^^ n) s) a = st s a"
  by (induction n) (simp_all add: keeps)

lemma off_cpu_stays: "off_cpu s a \<Longrightarrow> off_cpu ((sched ^^ n) s) a"
  by (simp add: off_cpu_def keeps_many)

lemma sleeper_not_chosen: "off_cpu s a \<Longrightarrow> cur s \<noteq> a \<Longrightarrow> cur ((sched ^^ n) s) \<noteq> a"
proof (induction n)
  case (Suc n)
  let ?t = "(sched ^^ n) s"
  have "off_cpu (sched ?t) a" using off_cpu_stays [OF Suc.prems(1), of "Suc n"] by simp
  with chooses [of ?t] Suc show ?case by (auto simp: off_cpu_def)
qed simp

lemma switched_to_runs: "cur (sched s) \<noteq> cur s \<Longrightarrow> st (sched s) (cur (sched s)) = TASK_RUNNING"
  using chooses by blast

end

interpretation cpu: cpu_scheduler schedule "\<lambda>s a. state (tstore s a)" current
proof unfold_locales
  fix s :: "'a sched_state_scheme" and a
  show "state (tstore s a) \<noteq> TASK_INTERRUPTIBLE \<Longrightarrow> state (tstore (schedule s) a) = state (tstore s a)"
    by (simp add: schedule_state woken_def wake_task_fields)
  show "state (tstore s a) = TASK_INTERRUPTIBLE \<Longrightarrow> state (tstore (schedule s) a) = TASK_INTERRUPTIBLE \<or>
     state (tstore (schedule s) a) = TASK_RUNNING"
    using wake_task_fields(4) [of "jiffies s" "tstore s a"] by (auto simp: schedule_state woken_def)
next
  fix s :: "'a sched_state_scheme"
  show "current (schedule s) = current s \<or> state (tstore (schedule s) (current (schedule s))) = TASK_RUNNING"
  proof (cases "next_task (woken s)")
    case (Some k)
    with next_task_Some [OF Some] show ?thesis by (simp add: schedule_eq can_run_def)
  qed (simp add: schedule_eq)
qed

text \<open>
  C25. A task that went to sleep with \<open>sleep_on\<close> and lost the processor is not given it back by any number
  of further calls of \<open>schedule\<close>, whatever signals or alarms it has: it stays uninterruptible until
  someone calls \<open>wake_up\<close>, and \<open>wake_up\<close> makes it runnable.
\<close>

theorem sleeper_waits_for_wake_up:
  assumes "sleep_on_enter q s = Inr (tmp, q', s1)" "current s1 \<noteq> current s"
  shows "q' = current s \<and> tmp = q \<and> current ((schedule ^^ n) s1) \<noteq> current s
    \<and> state (tstore ((schedule ^^ n) s1) (current s)) = TASK_UNINTERRUPTIBLE
    \<and> (current s \<noteq> 0 \<longrightarrow>
        state (tstore (snd (wake_up q' ((schedule ^^ n) s1))) (current s)) = TASK_RUNNING)"
proof -
  let ?s0 = "upd_task (current s) (\<lambda>t. t\<lparr>state := TASK_UNINTERRUPTIBLE\<rparr>) s"
  from assms(1) have eqs: "tmp = q" "q' = current s" "s1 = schedule ?s0"
    by (auto simp: sleep_on_enter_def split: if_splits)
  have "state (tstore ?s0 (current s)) = TASK_UNINTERRUPTIBLE" by simp
  then have st: "state (tstore s1 (current s)) = TASK_UNINTERRUPTIBLE"
    unfolding eqs(3) using cpu.keeps [of ?s0 "current s"] by simp
  then have off: "cpu.off_cpu s1 (current s)" by (simp add: cpu.off_cpu_def)
  have "state (tstore ((schedule ^^ n) s1) (current s)) = TASK_UNINTERRUPTIBLE"
    using cpu.keeps_many [of s1 "current s" n] st by simp
  with cpu.sleeper_not_chosen [OF off assms(2)] eqs show ?thesis by (simp add: wake_up_def)
qed

theorem sleeper_waits_for_wake_up_witness:
  "\<exists>tmp q' s1. sleep_on_enter 0 (two_tasks 3 5) = Inr (tmp, q', s1) \<and> current ((schedule ^^ 7) s1) \<noteq> 0x20000"
proof -
  let ?s0 = "upd_task 0x20000 (\<lambda>t. t\<lparr>state := TASK_UNINTERRUPTIBLE\<rparr>) (two_tasks 3 5)"
  have run: "sleep_on_enter 0 (two_tasks 3 5) = Inr (0, 0x20000, schedule ?s0)"
    by (simp add: sleep_on_enter_def)
  have "can_run ?s0 0 \<and> 0 < ticks ?s0 0" by (simp add: can_run_def task0_init_def)
  then have "\<exists>i < NUMBER_OF_TASKS. can_run ?s0 i \<and> 0 < ticks ?s0 i"
    by (intro exI [of _ 0]) (simp add: NUMBER_OF_TASKS_def)
  from schedule_runs [OF this] have "state (tstore (schedule ?s0) (current (schedule ?s0))) = TASK_RUNNING"
    by (auto simp: can_run_def)
  moreover have "state (tstore (schedule ?s0) 0x20000) = TASK_UNINTERRUPTIBLE"
    using cpu.keeps [of ?s0 "0x20000"] by simp
  ultimately have "current (schedule ?s0) \<noteq> current (two_tasks 3 5)" by auto
  from sleeper_waits_for_wake_up [OF run this, of 7] run show ?thesis by auto
qed

text \<open>
  \<open>sleep_on\<close> need not put the task to sleep: when no other running task has a tick left, \<open>schedule\<close> only
  refills the ticks and returns, and the caller goes on running in state TASK_UNINTERRUPTIBLE, with its
  own ticks the only ones not refilled.
\<close>

lemma sleep_on_may_return_at_once:
  assumes "current s \<noteq> task0_addr s"
    "\<forall>i < NUMBER_OF_TASKS. tasks_ptr s i \<noteq> current s \<longrightarrow> can_run (woken s) i \<longrightarrow> ticks s i \<le> 0"
  shows "\<exists>s1. sleep_on_enter q s = Inr (q, current s, s1) \<and> current s1 = current s
    \<and> state (cur_task s1) = TASK_UNINTERRUPTIBLE \<and> ts (cur_task s1) = ts (cur_task s)"
proof -
  let ?s0 = "upd_task (current s) (\<lambda>t. t\<lparr>state := TASK_UNINTERRUPTIBLE\<rparr>) s"
  have same: "tstore (woken ?s0) a = tstore (woken s) a" if "a \<noteq> current s" for a
    using that by (auto simp: woken_def table_tasks_def)
  have cur: "state (tstore (woken ?s0) (current s)) = TASK_UNINTERRUPTIBLE" "ts (tstore (woken ?s0) (current s)) = ts (cur_task s)"
    by (simp_all add: woken_def wake_task_fields)
  have "next_task (woken ?s0) = None"
    unfolding next_task_None
  proof (intro allI impI)
    fix i assume i: "i < NUMBER_OF_TASKS" "can_run (woken ?s0) i"
    then have ne: "tasks_ptr s i \<noteq> current s" using cur(1) by (auto simp: can_run_def)
    with i have "can_run (woken s) i" by (simp add: can_run_def same)
    with assms(2) i ne show "ticks (woken ?s0) i \<le> 0" by (simp add: ticks_woken)
  qed
  then have "schedule ?s0 = refilled (woken ?s0)" by (simp add: schedule_eq)
  then show ?thesis using assms(1) cur by (simp add: sleep_on_enter_def refilled_def refill_task_def)
qed

lemma sleep_on_may_return_at_once_witness:
  "\<exists>s1. sleep_on_enter 0 (two_tasks 0 5) = Inr (0, 0x20000, s1) \<and> current s1 = 0x20000
     \<and> state (cur_task s1) = TASK_UNINTERRUPTIBLE"
proof -
  have "\<forall>i < NUMBER_OF_TASKS. tasks_ptr (two_tasks 0 5) i \<noteq> current (two_tasks 0 5) \<longrightarrow>
      can_run (woken (two_tasks 0 5)) i \<longrightarrow> ticks (two_tasks 0 5) i \<le> 0"
    by (auto simp: can_run_def)
  from sleep_on_may_return_at_once [OF _ this] show ?thesis by fastforce
qed

text \<open>
  One tick of the timer: the clock advances by one, the interrupted task is charged one tick of its
  slice and one unit of user or of kernel time according to the ring it ran in, and only an interrupt
  of user mode that finds the slice used up calls \<open>schedule\<close>; otherwise no other task is touched.
\<close>

lemma timer_tick_accounts:
  "jiffies (do_timer_interrupt cs s) = jiffies s + 1 \<and>
   (let t = tstore (do_timer_interrupt cs s) (current s) in
      kts t = kts (cur_task s) + (if cs AND 3 = 0 then 1 else 0) \<and>
      uts t = uts (cur_task s) + (if cs AND 3 = 0 then 0 else 1)) \<and>
   (if cs AND 3 \<noteq> 0 \<and> ts (cur_task s) - 1 \<le>s 0
    then do_timer_interrupt cs s = schedule (upd_task (current s) (\<lambda>t. t\<lparr>ts := ts t - 1, uts := uts t + 1\<rparr>)
            (s\<lparr>jiffies := jiffies s + 1\<rparr>))
    else current (do_timer_interrupt cs s) = current s \<and>
         ts (cur_task (do_timer_interrupt cs s)) = ts (cur_task s) - 1 \<and>
         tstore (do_timer_interrupt cs s) = (tstore s)(current s := cur_task (do_timer_interrupt cs s)))"
proof -
  have times: "kts (tstore (schedule s') a) = kts (tstore s' a)" "uts (tstore (schedule s') a) = uts (tstore s' a)"
    for s' :: "'a sched_state_scheme" and a
    by (auto simp: schedule_eq woken_def refilled_def refill_task_def wake_task_def Let_def split: option.splits)
  show ?thesis by (simp add: do_timer_interrupt_def Let_def times) (simp add: upd_task_def)
qed


section \<open>Boot\<close>

lemma junk_word: "ucast (push_bit 16 (ucast (j :: u16)) OR (ucast (w :: u16)) :: u32) = (w :: u16)"
  by (rule bit_word_eqI) (auto simp: bit_simps)

text \<open>
  The first switch to user mode: after \<open>sched_init\<close> the descriptors of task 0 lead to its TSS and its
  LDT, every other slot of the task table is empty, and \<open>switch_to_TASK0\<close> leaves the processor with every
  register of task 0's TSS, in ring 3, whatever lies beside the 16-bit locals on the stack.
\<close>

lemma boot_enters_task0:
  assumes "tasks_ptr s 0 = task0_addr s" "tstore s (task0_addr s) = task0_init pd entry (task0_addr s) ustack"
    "sched_init h ocw1 s gdt idt = (s1, gdt1, idt1, ports)"
  shows "get_segment_base (gdt1 FIRST_TSS_DESC_INDEX) = task0_addr s + tss_offset
    \<and> get_segment_base (gdt1 FIRST_LDT_DESC_INDEX) = task0_addr s + ldt_offset
    \<and> table_tasks s1 \<subseteq> {task0_addr s}
    \<and> (\<exists>s2 r2. switch_to_TASK0 j1 j2 r s1 = Some (s2, r2) \<and> current s2 = task0_addr s
        \<and> r_eip r2 = entry \<and> r_cs r2 AND 3 = 3 \<and> r_ss r2 = 0x17 \<and> r_ds r2 = 0x17 \<and> r_esp r2 = ustack + 4095
        \<and> r_eax r2 = 0 \<and> r_ebp r2 = 0 \<and> bit (r_eflags r2) 9)"
proof -
  let ?g1 = "set_tss_desc gdt FIRST_TSS_DESC_INDEX (task0_addr s + tss_offset) 0"
  let ?g2 = "set_ldt_desc ?g1 FIRST_LDT_DESC_INDEX (task0_addr s + ldt_offset) 0"
  have init: "s1 = s\<lparr>tasks_ptr := (\<lambda>i. if 1 \<le> i \<and> i < NUMBER_OF_TASKS then 0 else tasks_ptr s i)\<rparr>"
    "gdt1 FIRST_TSS_DESC_INDEX = ?g2 FIRST_TSS_DESC_INDEX" "gdt1 FIRST_LDT_DESC_INDEX = ?g2 FIRST_LDT_DESC_INDEX"
    using assms(3) by (auto simp: sched_init_def Let_def FIRST_TSS_DESC_INDEX_def FIRST_LDT_DESC_INDEX_def)
  have "?g2 FIRST_TSS_DESC_INDEX = ?g1 FIRST_TSS_DESC_INDEX"
    by (simp add: set_ldt_desc_def Let_def FIRST_LDT_DESC_INDEX_def)
  then have desc: "get_segment_base (gdt1 FIRST_TSS_DESC_INDEX) = task0_addr s + tss_offset"
    "get_segment_base (gdt1 FIRST_LDT_DESC_INDEX) = task0_addr s + ldt_offset"
    using tss_desc_fields [of 0] ldt_desc_reads_back [of 0] by (simp_all add: init)
  have "table_tasks s1 \<subseteq> {task0_addr s}"
    using assms(1) by (auto simp: table_tasks_def init(1) Suc_le_eq split: if_splits)
  moreover have "\<exists>s2 r2. switch_to_TASK0 j1 j2 r s1 = Some (s2, r2) \<and> current s2 = task0_addr s
        \<and> r_eip r2 = entry \<and> r_cs r2 AND 3 = 3 \<and> r_ss r2 = 0x17 \<and> r_ds r2 = 0x17 \<and> r_esp r2 = ustack + 4095
        \<and> r_eax r2 = 0 \<and> r_ebp r2 = 0 \<and> bit (r_eflags r2) 9"
    using assms(1,2)
    by (auto simp: switch_to_TASK0_def Let_def init(1) push32_def junk_word task0_init_def task0_tss_def)
  ultimately show ?thesis using desc by blast
qed

text \<open>
  The descriptor table head.s sets up: the limit it loads is 64 * 8 + 1, so the last selector the processor
  accepts is that of entry 63.
\<close>

definition gdt_limit :: nat where "gdt_limit = 64 * 8 + 1"

definition selector_in_gdt :: "u32 \<Rightarrow> bool" where "selector_in_gdt sel \<longleftrightarrow> unat sel + 7 \<le> gdt_limit"

text \<open>
  The TSS and LDT selectors of task \<open>n\<close> lie within the descriptor table exactly when \<open>n < 30\<close>: the table
  of 64 tasks has room for 30, and switching to task 30 or higher faults.
\<close>

lemma tasks_within_gdt:
  "\<forall>n < NUMBER_OF_TASKS. (selector_in_gdt (TSS_selector n) \<and> selector_in_gdt (LDT_selector n)) \<longleftrightarrow> n < 30"
proof -
  have sel: "unat (push_bit 3 (of_nat k) :: u32) = 8 * k" if "k < 1000" for k
  proof -
    have "(push_bit 3 (of_nat k) :: u32) = of_nat (8 * k)" by (simp add: push_bit_eq_mult)
    moreover have "unat (of_nat (8 * k) :: u32) = 8 * k" using that by (simp only: unat_of_nat) simp
    ultimately show ?thesis by simp
  qed
  show ?thesis
  proof (intro allI impI)
    fix n assume "n < NUMBER_OF_TASKS"
    then have "n * 2 + 4 < 1000" "n * 2 + (4 + 1) < 1000" by (simp_all add: NUMBER_OF_TASKS_def)
    then show "(selector_in_gdt (TSS_selector n) \<and> selector_in_gdt (LDT_selector n)) \<longleftrightarrow> n < 30"
      unfolding selector_in_gdt_def TSS_selector_def LDT_selector_def FIRST_TSS_DESC_INDEX_def
        FIRST_LDT_DESC_INDEX_def gdt_limit_def by (simp only: sel) auto
  qed
qed

lemma tasks_within_gdt_witness: "\<not> (selector_in_gdt (TSS_selector 63) \<and> selector_in_gdt (LDT_selector 63))"
  using tasks_within_gdt [rule_format, of 63] by (simp add: NUMBER_OF_TASKS_def)

end
