(* ===== verification/Linked_Lists.thy ===== *)
theory Linked_Lists
  imports Kernel_Base
begin

text \<open>
  Doubly linked lists in a store: null-terminated chains with a head pointer, and rings. The links
  are two functions, from an address to the next and to the previous one; 0 is the null pointer. The
  buffer cache keeps its hash chains and its free list in this form.
\<close>

section \<open>Chains\<close>

text \<open>The chain that starts at \<open>p\<close>, whose first element points back to \<open>a\<close>, has the elements \<open>xs\<close>.\<close>

fun chain :: "(u32 \<Rightarrow> u32) \<Rightarrow> (u32 \<Rightarrow> u32) \<Rightarrow> u32 \<Rightarrow> u32 \<Rightarrow> u32 list \<Rightarrow> bool" where
  "chain nx pv a p [] \<longleftrightarrow> p = 0"
| "chain nx pv a p (x # xs) \<longleftrightarrow> p = x \<and> x \<noteq> 0 \<and> pv x = a \<and> chain nx pv x (nx x) xs"

lemma chain_cong:
  "(\<And>x. x \<in> set xs \<Longrightarrow> nx x = nx' x \<and> pv x = pv' x) \<Longrightarrow> chain nx pv a p xs \<longleftrightarrow> chain nx' pv' a p xs"
  by (induction xs arbitrary: a p) auto

lemma chain_nonnull: "chain nx pv a p xs \<Longrightarrow> 0 \<notin> set xs"
  by (induction xs arbitrary: a p) auto

lemma chain_null: "chain nx pv a 0 xs \<longleftrightarrow> xs = []"
  by (cases xs) auto

lemma chain_hd: "chain nx pv a p xs \<Longrightarrow> p \<noteq> 0 \<Longrightarrow> \<exists>ys. xs = p # ys"
  by (cases xs) auto

lemma chain_next: "chain nx pv a p xs \<Longrightarrow> b \<in> set xs \<Longrightarrow> nx b = 0 \<or> nx b \<in> set xs"
proof (induction xs arbitrary: a p)
  case (Cons x xs)
  then show ?case by (cases xs) auto
qed simp

lemma chain_prev: "chain nx pv a p xs \<Longrightarrow> b \<in> set xs \<Longrightarrow> p \<noteq> b \<Longrightarrow> pv b \<in> set xs"
proof (induction xs arbitrary: a p)
  case (Cons x xs)
  then show ?case by (cases "nx x = b"; cases xs) auto
qed simp

lemma chain_prev_iff:
  assumes "chain nx pv a p xs" "b \<in> set xs" "a \<notin> set xs"
  shows "pv b = a \<longleftrightarrow> p = b"
proof
  assume "pv b = a"
  then show "p = b" using chain_prev [OF assms(1,2)] assms(3) by blast
next
  assume "p = b"
  then show "pv b = a" using assms(1,2) by (cases xs) auto
qed

lemma chain_irrefl:
  "chain nx pv a p xs \<Longrightarrow> distinct xs \<Longrightarrow> b \<in> set xs \<Longrightarrow> nx b \<noteq> b"
  "chain nx pv a p xs \<Longrightarrow> distinct xs \<Longrightarrow> a \<notin> set xs \<Longrightarrow> b \<in> set xs \<Longrightarrow> pv b \<noteq> b"
proof (induction xs arbitrary: a p)
  case (Cons x xs)
  {
    case 1
    then show ?case using Cons.IH(1) [of x "nx x"] by (cases xs) auto
  next
    case 2
    then show ?case using Cons.IH(2) [of x "nx x"] by auto
  }
qed auto

text \<open>Unlinking an element; an update at the null pointer changes nothing that the chain reads.\<close>

lemma chain_unlink:
  "chain nx pv a p xs \<Longrightarrow> distinct xs \<Longrightarrow> a \<notin> set xs \<Longrightarrow> b \<in> set xs \<Longrightarrow>
     chain (nx(pv b := nx b)) (pv(nx b := pv b)) a (if p = b then nx b else p) (remove1 b xs)"
proof (induction xs arbitrary: a p)
  case (Cons x xs)
  note c = Cons.prems
  show ?case
  proof (cases "x = b")
    case True
    show ?thesis
    proof (cases xs)
      case Nil
      then show ?thesis using c True by simp
    next
      case (Cons y ys)
      have "chain nx pv y (nx y) ys \<longleftrightarrow> chain (nx(pv b := nx b)) (pv(nx b := pv b)) y (nx y) ys"
        using c True Cons by (intro chain_cong) auto
      then show ?thesis using c True Cons by (auto simp: fun_upd_def)
    qed
  next
    case False
    have IH: "chain (nx(pv b := nx b)) (pv(nx b := pv b)) x (if nx x = b then nx b else nx x) (remove1 b xs)"
      using c False by (intro Cons.IH) auto
    have "pv b = x \<longleftrightarrow> nx x = b" using c False by (intro chain_prev_iff) auto
    moreover have "nx b \<noteq> x" using chain_next [of nx pv x "nx x" xs b] c False by auto
    ultimately show ?thesis using IH c False by (auto simp: fun_upd_def)
  qed
qed simp

lemma chain_front:
  assumes "chain nx pv 0 p xs" "distinct xs" "b \<notin> set xs" "b \<noteq> 0"
  shows "chain (nx(b := p)) ((pv(b := 0))(p := b)) 0 b (b # xs)"
proof (cases xs)
  case Nil
  then show ?thesis using assms by auto
next
  case (Cons y ys)
  have "chain nx pv y (nx y) ys \<longleftrightarrow> chain (nx(b := p)) ((pv(b := 0))(p := b)) y (nx y) ys"
    using assms Cons by (intro chain_cong) auto
  then show ?thesis using assms Cons by auto
qed

section \<open>Rings\<close>

fun links :: "(u32 \<Rightarrow> u32) \<Rightarrow> (u32 \<Rightarrow> u32) \<Rightarrow> u32 list \<Rightarrow> bool" where
  "links nx pv (x # y # zs) \<longleftrightarrow> nx x = y \<and> pv y = x \<and> links nx pv (y # zs)"
| "links nx pv _ \<longleftrightarrow> True"

definition ring_links :: "(u32 \<Rightarrow> u32) \<Rightarrow> (u32 \<Rightarrow> u32) \<Rightarrow> u32 list \<Rightarrow> bool" where
  "ring_links nx pv xs \<longleftrightarrow> xs \<noteq> [] \<and> distinct xs \<and> links nx pv (xs @ [hd xs])"

lemma links_append: "links nx pv (xs @ y # zs) \<longleftrightarrow> links nx pv (xs @ [y]) \<and> links nx pv (y # zs)"
proof (induction xs)
  case (Cons x xs)
  then show ?case by (cases xs) auto
qed simp

lemma links_cong:
  "(\<And>x. x \<in> set (butlast xs) \<Longrightarrow> nx x = nx' x) \<Longrightarrow> (\<And>x. x \<in> set (tl xs) \<Longrightarrow> pv x = pv' x) \<Longrightarrow>
     links nx pv xs \<longleftrightarrow> links nx' pv' xs"
proof (induction nx pv xs rule: links.induct)
  case (1 nx pv x y zs)
  then show ?case by (auto split: if_splits)
qed auto

lemma ring_links_cong:
  assumes "\<And>x. x \<in> set xs \<Longrightarrow> nx x = nx' x \<and> pv x = pv' x"
  shows "ring_links nx pv xs \<longleftrightarrow> ring_links nx' pv' xs"
proof -
  have "links nx pv (xs @ [hd xs]) \<longleftrightarrow> links nx' pv' (xs @ [hd xs])" if "xs \<noteq> []"
    using assms that by (intro links_cong) (cases xs; auto)+
  then show ?thesis by (auto simp: ring_links_def)
qed

lemma ring_rotate:
  assumes "ring_links nx pv (ys @ zs)"
  shows "ring_links nx pv (zs @ ys)"
proof (cases "ys = [] \<or> zs = []")
  case True
  then show ?thesis using assms by auto
next
  case False
  then obtain y ys' z zs' where yz: "ys = y # ys'" "zs = z # zs'" by (meson neq_Nil_conv)
  have "links nx pv (y # ys' @ z # zs' @ [y])" using assms by (simp add: ring_links_def yz)
  then have "links nx pv ((y # ys') @ [z])" "links nx pv ((z # zs') @ [y])"
    using links_append [of nx pv "y # ys'" z "zs' @ [y]"] by simp_all
  then have "links nx pv ((z # zs') @ y # (ys' @ [z]))" using links_append [of nx pv "z # zs'" y "ys' @ [z]"] by simp
  then show ?thesis using assms by (auto simp: ring_links_def yz)
qed

lemma ring_first:
  assumes "ring_links nx pv (b # ys)" "ys \<noteq> []"
  shows "nx b = hd ys" "pv b = last ys"
proof -
  obtain zs l where l: "ys = zs @ [l]" using assms(2) by (metis append_butlast_last_id)
  have "links nx pv ((b # zs) @ l # [b])" using assms(1) by (simp add: ring_links_def l)
  then have "links nx pv (l # [b])" using links_append [of nx pv "b # zs" l "[b]"] by simp
  then show "pv b = last ys" by (simp add: l)
  obtain h ts where "ys = h # ts" using assms(2) by (cases ys) auto
  then show "nx b = hd ys" using assms(1) by (simp add: ring_links_def)
qed

lemma ring_unlink_first:
  assumes "ring_links nx pv (b # ys)" "ys \<noteq> []"
  shows "ring_links (nx(last ys := hd ys)) (pv(hd ys := last ys)) ys"
proof -
  obtain zs l where l: "ys = zs @ [l]" using assms(2) by (metis append_butlast_last_id)
  obtain h ts where h: "ys = h # ts" using assms(2) by (cases ys) auto
  have d: "distinct ys" using assms(1) by (simp add: ring_links_def)
  have "links nx pv (ys @ [b])" using assms(1) h by (simp add: ring_links_def)
  then have "links nx pv ys" using links_append [of nx pv zs l "[b]"] by (simp add: l)
  moreover have "links nx pv ys \<longleftrightarrow> links (nx(l := h)) (pv(h := l)) ys"
  proof (rule links_cong)
    fix x assume "x \<in> set (butlast ys)"
    then show "nx x = (nx(l := h)) x" using d l by auto
  next
    fix x assume "x \<in> set (tl ys)"
    then show "pv x = (pv(h := l)) x" using d h by auto
  qed
  ultimately have "links (nx(l := h)) (pv(h := l)) (zs @ l # [h])"
    using links_append [of "nx(l := h)" "pv(h := l)" zs l "[h]"] by (simp add: l)
  moreover have "hd ys = h" "last ys = l" by (simp add: h, simp add: l)
  ultimately show ?thesis using d l by (simp add: ring_links_def)
qed

lemma ring_unlink:
  assumes "ring_links nx pv xs" "b \<in> set xs" "xs \<noteq> [b]"
  shows "ring_links (nx(pv b := nx b)) (pv(nx b := pv b)) (remove1 b xs)"
    "hd (remove1 b xs) = (if hd xs = b then nx b else hd xs)" "nx b \<in> set xs" "pv b \<in> set xs" "nx b \<noteq> b" "pv b \<noteq> b"
proof -
  obtain as bs where xs: "xs = as @ b # bs" using assms(2) by (meson split_list)
  have d: "b \<notin> set as" "b \<notin> set bs" using assms(1) by (auto simp: ring_links_def xs)
  have rem: "remove1 b xs = as @ bs" using d by (simp add: xs remove1_append)
  have r: "ring_links nx pv (b # (bs @ as))" using ring_rotate [of nx pv as "b # bs"] assms(1) by (simp add: xs)
  have ne: "bs @ as \<noteq> []" using assms(3) by (auto simp: xs)
  note f = ring_first [OF r ne]
  have "ring_links (nx(pv b := nx b)) (pv(nx b := pv b)) (bs @ as)" using ring_unlink_first [OF r ne] f by simp
  then show "ring_links (nx(pv b := nx b)) (pv(nx b := pv b)) (remove1 b xs)" unfolding rem by (rule ring_rotate)
  show "hd (remove1 b xs) = (if hd xs = b then nx b else hd xs)"
    unfolding rem using f(1) d ne by (cases as) (auto simp: xs)
  have "nx b \<in> set (bs @ as)" "pv b \<in> set (bs @ as)" using f ne by (simp_all del: set_append)
  then show "nx b \<in> set xs" "pv b \<in> set xs" "nx b \<noteq> b" "pv b \<noteq> b" using d by (auto simp: xs)
qed

lemma ring_last: "ring_links nx pv ys \<Longrightarrow> pv (hd ys) = last ys"
proof (cases "tl ys = []")
  case True
  assume "ring_links nx pv ys"
  moreover then obtain y where "ys = [y]" using True by (cases ys) (auto simp: ring_links_def)
  ultimately show ?thesis by (simp add: ring_links_def)
next
  case False
  assume r: "ring_links nx pv ys"
  then obtain y zs where "ys = y # zs" "zs \<noteq> []" using False by (cases ys) auto
  then show ?thesis using ring_first [of nx pv y zs] r by simp
qed

lemma ring_insert:
  assumes "ring_links nx pv ys" "b \<notin> set ys"
  shows "ring_links ((nx(b := hd ys))(pv (hd ys) := b)) ((pv(b := pv (hd ys)))(hd ys := b)) (ys @ [b])"
proof -
  let ?nx = "(nx(b := hd ys))(pv (hd ys) := b)" and ?pv = "(pv(b := pv (hd ys)))(hd ys := b)"
  note l = ring_last [OF assms(1)]
  have ne: "ys \<noteq> []" using assms(1) by (simp add: ring_links_def)
  obtain zs where z: "ys = zs @ [last ys]" using ne by (metis append_butlast_last_id)
  have d: "distinct ys" using assms(1) by (simp add: ring_links_def)
  have lk: "links nx pv (zs @ last ys # [hd ys])" using assms(1) z by (metis append.assoc append_Cons append_Nil ring_links_def)
  then have "links nx pv ys" using links_append [of nx pv zs "last ys" "[hd ys]"] z by simp
  moreover have "links nx pv ys \<longleftrightarrow> links ?nx ?pv ys"
  proof (rule links_cong)
    fix x assume x: "x \<in> set (butlast ys)"
    then have "x \<noteq> last ys" using d z by (metis butlast_snoc distinct_append disjoint_iff list.set_intros(1))
    moreover have "x \<noteq> b" using x assms(2) by (meson in_set_butlastD)
    ultimately show "nx x = ?nx x" by (simp add: l)
  next
    fix x assume x: "x \<in> set (tl ys)"
    then have "x \<noteq> hd ys" using d ne by (cases ys) auto
    moreover have "x \<noteq> b" using x assms(2) by (meson list.set_sel(2) ne)
    ultimately show "pv x = ?pv x" by simp
  qed
  ultimately have "links ?nx ?pv (zs @ [last ys])" using z by simp
  moreover have "last ys \<noteq> b" "hd ys \<noteq> b" using ne assms(2) by auto
  then have "links ?nx ?pv (last ys # [b, hd ys])" by (simp add: l)
  ultimately have "links ?nx ?pv (zs @ last ys # [b, hd ys])" using links_append [of ?nx ?pv zs "last ys" "[b, hd ys]"] by simp
  then have "links ?nx ?pv ((ys @ [b]) @ [hd (ys @ [b])])" using z ne by (metis append.assoc append_Cons append_Nil hd_append2)
  then show ?thesis using d assms(2) by (simp add: ring_links_def)
qed

end
