(* ===== verification/Buffer_Cache.thy ===== *)
theory Buffer_Cache
  imports Scheduler Linked_Lists
begin

text \<open>
  The buffer cache of fs/buffer.c. The heads are one store from addresses to \<open>buffer_head\<close>s, total like
  the memory it stands for: at address 0 lies what the kernel reads and writes through a null
  pointer. The text given to \<open>printk\<close> is kept in \<open>messages\<close>, without the characters that end the line, with the
  words that follow it.

  A routine that sleeps takes an argument \<open>others\<close>: what the other tasks and the interrupts do from the moment
  \<open>schedule\<close> gives the processor away until the sleeper has it again. A loop that need not end is
  a partial function into \<open>option\<close>: \<open>None\<close> is a call that never returns.
\<close>

section \<open>Heads and state\<close>

record buffer_head =
  b_data :: u32
  b_blocknr :: u32
  b_dev :: u16
  b_uptodate :: u8
  b_dirt :: u8
  b_count :: u8
  b_lock :: u8
  b_wait :: u32
  b_prev_hash :: u32
  b_next_hash :: u32
  b_prev_free :: u32
  b_next_free :: u32

definition BLOCK_SIZE :: u32 where "BLOCK_SIZE = 1024"
definition NR_HASH :: nat where "NR_HASH = 307"
definition sizeof_buffer_head :: u32 where "sizeof_buffer_head = 36"
definition buf_start_addr :: u32 where "buf_start_addr = 0x100000"

definition MAJOR :: "u32 \<Rightarrow> u32" where "MAJOR a = drop_bit 8 a"
definition MINOR :: "u32 \<Rightarrow> u32" where "MINOR a = a AND 0xFF"

record buffer_state = sched_state +
  bufs :: "u32 \<Rightarrow> buffer_head"
  free_list :: u32
  hash_table :: "nat \<Rightarrow> u32"
  buffer_wait :: u32
  number_of_buffers :: i32
  messages :: "(string \<times> u32 list) list"

definition upd_buf :: "u32 \<Rightarrow> (buffer_head \<Rightarrow> buffer_head) \<Rightarrow> 'a buffer_state_scheme \<Rightarrow> 'a buffer_state_scheme" where
  "upd_buf p f s = s\<lparr>bufs := (bufs s)(p := f (bufs s p))\<rparr>"

definition print_message :: "string \<Rightarrow> u32 list \<Rightarrow> 'a buffer_state_scheme \<Rightarrow> 'a buffer_state_scheme" where
  "print_message fmt args s = s\<lparr>messages := messages s @ [(fmt, args)]\<rparr>"

text \<open>Calls in sequence, when each can fail or not return.\<close>

definition obind :: "'a kresult option \<Rightarrow> ('a \<Rightarrow> 'b kresult option) \<Rightarrow> 'b kresult option" where
  "obind m f = Option.bind m (case_sum (\<lambda>e. Some (Inl e)) f)"

lemma obind_simps [simp]:
  "obind None f = None" "obind (Some (Inl e)) f = Some (Inl e)" "obind (Some (Inr a)) f = f a"
  by (simp_all add: obind_def)

lemma obind_mono [partial_function_mono]:
  assumes "mono_option m" "\<And>y. mono_option (\<lambda>f. g y f)"
  shows "mono_option (\<lambda>f. obind (m f) (\<lambda>y. g y f))"
proof -
  have "mono_option (\<lambda>f. case_sum (\<lambda>e. Some (Inl e)) (\<lambda>y. g y f) z)" for z :: "kerror + 'c"
    using assms(2) by (cases z) (auto intro: option.const_mono)
  then show ?thesis unfolding obind_def by (intro bind_mono assms(1))
qed

section \<open>Locking\<close>

text \<open>\<open>sleep_on(&bh->b_wait)\<close> and \<open>sleep_on(&buffer_wait)\<close>.\<close>

definition sleep_on_buffer ::
  "('a buffer_state_scheme \<Rightarrow> 'a buffer_state_scheme) \<Rightarrow> u32 \<Rightarrow> 'a buffer_state_scheme \<Rightarrow> 'a buffer_state_scheme kresult" where
  "sleep_on_buffer others bh s =
     rbind (sleep_on_enter (b_wait (bufs s bh)) s)
       (\<lambda>(tmp, q, s1). Inr (sleep_on_leave tmp (others (upd_buf bh (\<lambda>b. b\<lparr>b_wait := q\<rparr>) s1))))"

definition sleep_on_any ::
  "('a buffer_state_scheme \<Rightarrow> 'a buffer_state_scheme) \<Rightarrow> 'a buffer_state_scheme \<Rightarrow> 'a buffer_state_scheme kresult" where
  "sleep_on_any others s =
     rbind (sleep_on_enter (buffer_wait s) s)
       (\<lambda>(tmp, q, s1). Inr (sleep_on_leave tmp (others (s1\<lparr>buffer_wait := q\<rparr>))))"

partial_function (option) wait_on_buffer ::
  "('a buffer_state_scheme \<Rightarrow> 'a buffer_state_scheme) \<Rightarrow> u32 \<Rightarrow> 'a buffer_state_scheme \<Rightarrow> 'a buffer_state_scheme kresult option" where
  "wait_on_buffer others bh s =
     (if b_lock (bufs s bh) \<noteq> 0 then obind (Some (sleep_on_buffer others bh s)) (\<lambda>s1. wait_on_buffer others bh s1)
      else Some (Inr s))"

definition lock_buffer ::
  "('a buffer_state_scheme \<Rightarrow> 'a buffer_state_scheme) \<Rightarrow> u32 \<Rightarrow> 'a buffer_state_scheme \<Rightarrow> 'a buffer_state_scheme kresult option" where
  "lock_buffer others bh s =
     obind (wait_on_buffer others bh s) (\<lambda>s1. Some (Inr (upd_buf bh (\<lambda>b. b\<lparr>b_lock := 1\<rparr>) s1)))"

definition unlock_buffer :: "u32 \<Rightarrow> 'a buffer_state_scheme \<Rightarrow> 'a buffer_state_scheme" where
  "unlock_buffer bh s =
     (let s1 = (if b_lock (bufs s bh) = 0 then print_message ''try to unlock a unlocked buffer'' [] s else s);
          s2 = upd_buf bh (\<lambda>b. b\<lparr>b_lock := 0\<rparr>) s1;
          (q, s3) = wake_up (b_wait (bufs s2 bh)) s2
      in upd_buf bh (\<lambda>b. b\<lparr>b_wait := q\<rparr>) s3)"

section \<open>The queues\<close>

definition hashfn :: "i32 \<Rightarrow> u32 \<Rightarrow> nat" where
  "hashfn dev block = unat (dev XOR block) mod NR_HASH"

definition bucket_of :: "buffer_head \<Rightarrow> nat" where
  "bucket_of b = hashfn (ucast (b_dev b)) (b_blocknr b)"

partial_function (option) find_in_chain :: "i32 \<Rightarrow> u32 \<Rightarrow> u32 \<Rightarrow> 'a buffer_state_scheme \<Rightarrow> u32 option" where
  "find_in_chain dev block tmp s =
     (if tmp = 0 then Some 0
      else if ucast (b_dev (bufs s tmp)) = dev \<and> b_blocknr (bufs s tmp) = block then Some tmp
      else find_in_chain dev block (b_next_hash (bufs s tmp)) s)"

definition find_buffer :: "i32 \<Rightarrow> u32 \<Rightarrow> 'a buffer_state_scheme \<Rightarrow> u32 option" where
  "find_buffer dev block s = find_in_chain dev block (hash_table s (hashfn dev block)) s"

text \<open>\<open>remove_from_queues\<close>: out of the hash chain, then out of the free list.\<close>

definition unlink_hash :: "u32 \<Rightarrow> 'a buffer_state_scheme \<Rightarrow> 'a buffer_state_scheme" where
  "unlink_hash bh s =
     (let s1 = (if b_next_hash (bufs s bh) \<noteq> 0
                then upd_buf (b_next_hash (bufs s bh)) (\<lambda>b. b\<lparr>b_prev_hash := b_prev_hash (bufs s bh)\<rparr>) s else s);
          s2 = (if b_prev_hash (bufs s1 bh) \<noteq> 0
                then upd_buf (b_prev_hash (bufs s1 bh)) (\<lambda>b. b\<lparr>b_next_hash := b_next_hash (bufs s1 bh)\<rparr>) s1 else s1);
          h = bucket_of (bufs s2 bh)
      in if hash_table s2 h = bh then s2\<lparr>hash_table := (hash_table s2)(h := b_next_hash (bufs s2 bh))\<rparr> else s2)"

definition unlink_free :: "u32 \<Rightarrow> 'a buffer_state_scheme \<Rightarrow> 'a buffer_state_scheme kresult" where
  "unlink_free bh s =
     (if b_prev_free (bufs s bh) = 0 \<or> b_next_free (bufs s bh) = 0 then Inl (Panic ''Free block list corrupted'')
      else let s1 = upd_buf (b_prev_free (bufs s bh)) (\<lambda>b. b\<lparr>b_next_free := b_next_free (bufs s bh)\<rparr>) s;
               s2 = upd_buf (b_next_free (bufs s1 bh)) (\<lambda>b. b\<lparr>b_prev_free := b_prev_free (bufs s1 bh)\<rparr>) s1
           in Inr (if free_list s2 = bh then s2\<lparr>free_list := b_next_free (bufs s2 bh)\<rparr> else s2))"

definition remove_from_queues :: "u32 \<Rightarrow> 'a buffer_state_scheme \<Rightarrow> 'a buffer_state_scheme kresult" where
  "remove_from_queues bh s = unlink_free bh (unlink_hash bh s)"

text \<open>\<open>insert_into_queues\<close>: at the end of the free list, then at the front of the hash chain.\<close>

definition link_free :: "u32 \<Rightarrow> 'a buffer_state_scheme \<Rightarrow> 'a buffer_state_scheme" where
  "link_free bh s =
     (let s1 = upd_buf bh (\<lambda>b. b\<lparr>b_next_free := free_list s\<rparr>) s;
          s2 = upd_buf bh (\<lambda>b. b\<lparr>b_prev_free := b_prev_free (bufs s1 (free_list s1))\<rparr>) s1;
          s3 = upd_buf (b_prev_free (bufs s2 (free_list s2))) (\<lambda>b. b\<lparr>b_next_free := bh\<rparr>) s2
      in upd_buf (free_list s3) (\<lambda>b. b\<lparr>b_prev_free := bh\<rparr>) s3)"

definition link_hash :: "u32 \<Rightarrow> 'a buffer_state_scheme \<Rightarrow> 'a buffer_state_scheme" where
  "link_hash bh s =
     (let s1 = upd_buf bh (\<lambda>b. b\<lparr>b_prev_hash := 0, b_next_hash := 0\<rparr>) s in
      if b_dev (bufs s1 bh) = 0 then s1
      else let h = bucket_of (bufs s1 bh);
               s2 = upd_buf bh (\<lambda>b. b\<lparr>b_next_hash := hash_table s1 h\<rparr>) s1;
               s3 = s2\<lparr>hash_table := (hash_table s2)(h := bh)\<rparr>
           in upd_buf (b_next_hash (bufs s3 bh)) (\<lambda>b. b\<lparr>b_prev_hash := bh\<rparr>) s3)"

definition insert_into_queues :: "u32 \<Rightarrow> 'a buffer_state_scheme \<Rightarrow> 'a buffer_state_scheme" where
  "insert_into_queues bh s = link_hash bh (link_free bh s)"

section \<open>Getting a block\<close>

definition sync_dev :: "i32 \<Rightarrow> i32" where "sync_dev dev = 0"

partial_function (option) get_hash_table ::
  "('a buffer_state_scheme \<Rightarrow> 'a buffer_state_scheme) \<Rightarrow> i32 \<Rightarrow> u32 \<Rightarrow> 'a buffer_state_scheme \<Rightarrow>
     (u32 \<times> 'a buffer_state_scheme) kresult option" where
  "get_hash_table others dev block s =
     Option.bind (find_buffer dev block s) (\<lambda>bh.
       if bh = 0 then Some (Inr (0, s))
       else obind (wait_on_buffer others bh (upd_buf bh (\<lambda>b. b\<lparr>b_count := b_count b + 1\<rparr>) s)) (\<lambda>s1.
         if ucast (b_dev (bufs s1 bh)) = dev \<and> b_blocknr (bufs s1 bh) = block then Some (Inr (bh, s1))
         else get_hash_table others dev block (upd_buf bh (\<lambda>b. b\<lparr>b_count := b_count b - 1\<rparr>) s1)))"

definition BADNESS :: "buffer_head \<Rightarrow> nat" where
  "BADNESS b = 2 * unat (b_dirt b) + unat (b_lock b)"

text \<open>The search of the free list, from \<open>tmp\<close> on with the best buffer \<open>bh\<close> so far (0 for none).\<close>

partial_function (option) free_scan :: "'a buffer_state_scheme \<Rightarrow> u32 \<Rightarrow> u32 \<Rightarrow> u32 option" where
  "free_scan s tmp bh =
     (let better = b_count (bufs s tmp) = 0 \<and> (bh = 0 \<or> BADNESS (bufs s tmp) < BADNESS (bufs s bh));
          bh1 = (if better then tmp else bh); next_buf = b_next_free (bufs s tmp)
      in if better \<and> BADNESS (bufs s tmp) = 0 then Some bh1
         else if next_buf \<noteq> free_list s then free_scan s next_buf bh1
         else Some bh1)"

text \<open>The loop over a dirty buffer; the result says whether to start again.\<close>

partial_function (option) sync_loop ::
  "('a buffer_state_scheme \<Rightarrow> 'a buffer_state_scheme) \<Rightarrow> u32 \<Rightarrow> 'a buffer_state_scheme \<Rightarrow>
     (bool \<times> 'a buffer_state_scheme) kresult option" where
  "sync_loop others bh s =
     (if b_dirt (bufs s bh) = 1
      then let r = sync_dev (ucast (b_dev (bufs s bh))) in
           obind (wait_on_buffer others bh s) (\<lambda>s1.
             if b_count (bufs s1 bh) \<noteq> 0 then Some (Inr (True, s1)) else sync_loop others bh s1)
      else Some (Inr (False, s)))"

definition claim_buffer :: "u32 \<Rightarrow> i32 \<Rightarrow> u32 \<Rightarrow> 'a buffer_state_scheme \<Rightarrow> 'a buffer_state_scheme kresult" where
  "claim_buffer bh dev block s =
     rbind (remove_from_queues bh (upd_buf bh (\<lambda>b. b\<lparr>b_count := 1, b_dirt := 0, b_uptodate := 0\<rparr>) s))
       (\<lambda>s1. Inr (insert_into_queues bh (upd_buf bh (\<lambda>b. b\<lparr>b_dev := ucast dev, b_blocknr := block\<rparr>) s1)))"

text \<open>
  The part of \<open>getblk\<close> after a buffer was chosen, and after the block was not found: the result 0 is a jump
  to \<open>repeat\<close>.
\<close>

definition try_claim ::
  "('a buffer_state_scheme \<Rightarrow> 'a buffer_state_scheme) \<Rightarrow> i32 \<Rightarrow> u32 \<Rightarrow> u32 \<Rightarrow> 'a buffer_state_scheme \<Rightarrow>
     (u32 \<times> 'a buffer_state_scheme) kresult option" where
  "try_claim others dev block bh s =
     obind (wait_on_buffer others bh s) (\<lambda>s1.
       if b_count (bufs s1 bh) \<noteq> 0 then Some (Inr (0, s1))
       else obind (sync_loop others bh s1) (\<lambda>(again, s2).
         if again then Some (Inr (0, s2))
         else Option.bind (find_buffer dev block s2) (\<lambda>p.
           if p \<noteq> 0 then Some (Inr (0, s2))
           else Some (rbind (claim_buffer bh dev block s2) (\<lambda>s3. Inr (bh, s3))))))"

definition search_free ::
  "('a buffer_state_scheme \<Rightarrow> 'a buffer_state_scheme) \<Rightarrow> i32 \<Rightarrow> u32 \<Rightarrow> 'a buffer_state_scheme \<Rightarrow>
     (u32 \<times> 'a buffer_state_scheme) kresult option" where
  "search_free others dev block s =
     Option.bind (free_scan s (free_list s) 0) (\<lambda>bh.
       if bh = 0 then Some (rbind (sleep_on_any others s) (\<lambda>s1. Inr (0, s1)))
       else try_claim others dev block bh s)"

partial_function (option) getblk ::
  "('a buffer_state_scheme \<Rightarrow> 'a buffer_state_scheme) \<Rightarrow> i32 \<Rightarrow> u32 \<Rightarrow> 'a buffer_state_scheme \<Rightarrow>
     (u32 \<times> 'a buffer_state_scheme) kresult option" where
  "getblk others dev block s =
     obind (get_hash_table others dev block s) (\<lambda>(bh, s1).
       if bh \<noteq> 0 then Some (Inr (bh, s1))
       else obind (search_free others dev block s1) (\<lambda>(bh, s2).
         if bh = 0 then getblk others dev block s2 else Some (Inr (bh, s2))))"

definition brelse ::
  "('a buffer_state_scheme \<Rightarrow> 'a buffer_state_scheme) \<Rightarrow> u32 \<Rightarrow> 'a buffer_state_scheme \<Rightarrow> 'a buffer_state_scheme kresult option" where
  "brelse others buf s =
     (if buf = 0 then Some (Inr s)
      else obind (wait_on_buffer others buf s) (\<lambda>s1.
        if b_count (bufs s1 buf) = 0 then Some (Inl (Panic ''Trying to free free buffer''))
        else let s2 = upd_buf buf (\<lambda>b. b\<lparr>b_count := b_count b - 1\<rparr>) s1;
                 (q, s3) = wake_up (buffer_wait s2) s2
             in Some (Inr (s3\<lparr>buffer_wait := q\<rparr>))))"

section \<open>buffer_init\<close>

definition fresh_head :: "u32 \<Rightarrow> u32 \<Rightarrow> buffer_head \<Rightarrow> buffer_head" where
  "fresh_head heads end b =
     b\<lparr>b_dev := 0, b_dirt := 0, b_count := 0, b_lock := 0, b_uptodate := 0, b_wait := 0, b_prev_hash := 0, b_next_hash := 0,
       b_data := end, b_prev_free := heads - sizeof_buffer_head, b_next_free := heads + sizeof_buffer_head\<rparr>"

partial_function (option) init_loop :: "u32 \<Rightarrow> u32 \<Rightarrow> 'a buffer_state_scheme \<Rightarrow> (u32 \<times> 'a buffer_state_scheme) option" where
  "init_loop heads end s =
     (let end1 = end - BLOCK_SIZE in
      if end1 < heads + sizeof_buffer_head then Some (heads, s)
      else init_loop (heads + sizeof_buffer_head) end1
             (upd_buf heads (fresh_head heads end1) s\<lparr>number_of_buffers := number_of_buffers s + 1\<rparr>))"

definition buffer_init :: "u32 \<Rightarrow> 'a buffer_state_scheme \<Rightarrow> 'a buffer_state_scheme option" where
  "buffer_init buffer_end s =
     map_option (\<lambda>(heads0, s0).
       let heads = heads0 - sizeof_buffer_head;
           s1 = s0\<lparr>free_list := buf_start_addr\<rparr>;
           s2 = upd_buf (free_list s1) (\<lambda>b. b\<lparr>b_prev_free := heads\<rparr>) s1;
           s3 = upd_buf heads (\<lambda>b. b\<lparr>b_next_free := free_list s2\<rparr>) s2;
           s4 = s3\<lparr>hash_table := \<lambda>i. if i < NR_HASH then 0 else hash_table s3 i\<rparr>
       in print_message ''init %d buffers'' [number_of_buffers s4] s4) (init_loop buf_start_addr buffer_end s)"

end
