(* ===== verification/Cache_Order.thy ===== *)
theory Cache_Order
  imports Buffer_Cache
begin

text \<open>
  What the buffer cache guarantees: the free list stays a ring and the hash chains stay in step
  with it, \<open>getblk\<close> is a least-recently-used cache when it need not wait, and whatever it
  waits for, the buffer it returns holds the block asked for.
\<close>

section \<open>Fields and links\<close>

lemma upd_buf_simps [simp]:
  "bufs (upd_buf p f s) = (bufs s)(p := f (bufs s p))" "free_list (upd_buf p f s) = free_list s"
  "hash_table (upd_buf p f s) = hash_table s" "buffer_wait (upd_buf p f s) = buffer_wait s"
  "tasks_ptr (upd_buf p f s) = tasks_ptr s" "tstore (upd_buf p f s) = tstore s" "current (upd_buf p f s) = current s"
  "jiffies (upd_buf p f s) = jiffies s" "task0_addr (upd_buf p f s) = task0_addr s"
  "number_of_buffers (upd_buf p f s) = number_of_buffers s" "messages (upd_buf p f s) = messages s"
  by (simp_all add: upd_buf_def)

abbreviation next_free :: "'a buffer_state_scheme \<Rightarrow> u32 \<Rightarrow> u32" where "next_free s \<equiv> \<lambda>p. b_next_free (bufs s p)"
abbreviation prev_free :: "'a buffer_state_scheme \<Rightarrow> u32 \<Rightarrow> u32" where "prev_free s \<equiv> \<lambda>p. b_prev_free (bufs s p)"
abbreviation next_hash :: "'a buffer_state_scheme \<Rightarrow> u32 \<Rightarrow> u32" where "next_hash s \<equiv> \<lambda>p. b_next_hash (bufs s p)"
abbreviation prev_hash :: "'a buffer_state_scheme \<Rightarrow> u32 \<Rightarrow> u32" where "prev_hash s \<equiv> \<lambda>p. b_prev_hash (bufs s p)"

text \<open>A head without its links: what the holder of a buffer sees.\<close>

definition payload :: "buffer_head \<Rightarrow> buffer_head" where
  "payload b = b\<lparr>b_prev_hash := 0, b_next_hash := 0, b_prev_free := 0, b_next_free := 0\<rparr>"

lemma payload_eqD:
  assumes "payload a = payload b"
  shows "b_dev a = b_dev b" "b_blocknr a = b_blocknr b" "b_count a = b_count b" "b_dirt a = b_dirt b"
    "b_lock a = b_lock b" "b_uptodate a = b_uptodate b" "b_data a = b_data b" "b_wait a = b_wait b"
proof -
  note a = arg_cong [OF assms]
  show "b_dev a = b_dev b" using a [of b_dev] by (simp add: payload_def)
  show "b_blocknr a = b_blocknr b" using a [of b_blocknr] by (simp add: payload_def)
  show "b_count a = b_count b" using a [of b_count] by (simp add: payload_def)
  show "b_dirt a = b_dirt b" using a [of b_dirt] by (simp add: payload_def)
  show "b_lock a = b_lock b" using a [of b_lock] by (simp add: payload_def)
  show "b_uptodate a = b_uptodate b" using a [of b_uptodate] by (simp add: payload_def)
  show "b_data a = b_data b" using a [of b_data] by (simp add: payload_def)
  show "b_wait a = b_wait b" using a [of b_wait] by (simp add: payload_def)
qed

lemma payload_simps [simp]:
  "payload (b\<lparr>b_prev_hash := x\<rparr>) = payload b" "payload (b\<lparr>b_next_hash := x\<rparr>) = payload b"
  "payload (b\<lparr>b_prev_free := x\<rparr>) = payload b" "payload (b\<lparr>b_next_free := x\<rparr>) = payload b"
  "payload (b\<lparr>b_prev_hash := x, b_next_hash := y\<rparr>) = payload b"
  "b_dev (payload b) = b_dev b" "b_blocknr (payload b) = b_blocknr b" "b_count (payload b) = b_count b"
  "b_dirt (payload b) = b_dirt b" "b_lock (payload b) = b_lock b" "b_uptodate (payload b) = b_uptodate b"
  by (simp_all add: payload_def)

section \<open>The invariant\<close>

definition holds :: "i32 \<Rightarrow> u32 \<Rightarrow> buffer_head \<Rightarrow> bool" where
  "holds dev block b \<longleftrightarrow> ucast (b_dev b) = dev \<and> b_blocknr b = block"

definition hash_rep :: "'a buffer_state_scheme \<Rightarrow> u32 list \<Rightarrow> (nat \<Rightarrow> u32 list) \<Rightarrow> bool" where
  "hash_rep s xs C \<longleftrightarrow>
     (\<forall>h < NR_HASH. chain (next_hash s) (prev_hash s) 0 (hash_table s h) (C h) \<and> distinct (C h) \<and>
        set (C h) = {b \<in> set xs. b_dev (bufs s b) \<noteq> 0 \<and> bucket_of (bufs s b) = h}) \<and>
     (\<forall>b \<in> set xs. b_dev (bufs s b) = 0 \<longrightarrow> next_hash s b = 0 \<and> prev_hash s b = 0)"

definition no_twins :: "'a buffer_state_scheme \<Rightarrow> u32 list \<Rightarrow> bool" where
  "no_twins s xs \<longleftrightarrow> (\<forall>a \<in> set xs. \<forall>b \<in> set xs. b_dev (bufs s a) \<noteq> 0 \<longrightarrow> b_dev (bufs s a) = b_dev (bufs s b) \<longrightarrow>
     b_blocknr (bufs s a) = b_blocknr (bufs s b) \<longrightarrow> a = b)"

definition cache_rep :: "'a buffer_state_scheme \<Rightarrow> u32 list \<Rightarrow> bool" where
  "cache_rep s xs \<longleftrightarrow> ring_links (next_free s) (prev_free s) xs \<and> hd xs = free_list s \<and> 0 \<notin> set xs \<and>
     (\<exists>C. hash_rep s xs C) \<and> no_twins s xs"

lemma bucket_lt: "bucket_of b < NR_HASH"
  by (simp add: bucket_of_def hashfn_def NR_HASH_def)

lemma bucket_of_payload:
  assumes "payload a = payload b"
  shows "bucket_of a = bucket_of b"
  unfolding bucket_of_def payload_eqD(1,2) [OF assms] ..

lemma hash_repD:
  assumes "hash_rep s xs C" "h < NR_HASH"
  shows "chain (next_hash s) (prev_hash s) 0 (hash_table s h) (C h)" "distinct (C h)"
    "set (C h) = {b \<in> set xs. b_dev (bufs s b) \<noteq> 0 \<and> bucket_of (bufs s b) = h}"
  using assms by (auto simp: hash_rep_def)

section \<open>Taking a buffer out\<close>

lemma unlink_hash_fields:
  assumes "next_hash s b \<noteq> b" "prev_hash s b \<noteq> b"
  shows "payload (bufs (unlink_hash b s) p) = payload (bufs s p)"
    "next_free (unlink_hash b s) = next_free s" "prev_free (unlink_hash b s) = prev_free s"
    "p \<noteq> 0 \<Longrightarrow> next_hash (unlink_hash b s) p = ((next_hash s)(prev_hash s b := next_hash s b)) p"
    "p \<noteq> 0 \<Longrightarrow> prev_hash (unlink_hash b s) p = ((prev_hash s)(next_hash s b := prev_hash s b)) p"
    "free_list (unlink_hash b s) = free_list s"
    "hash_table (unlink_hash b s) = (if hash_table s (bucket_of (bufs s b)) = b
       then (hash_table s)(bucket_of (bufs s b) := next_hash s b) else hash_table s)"
proof -
  have b: "bucket_of (r\<lparr>b_prev_hash := x\<rparr>) = bucket_of r" "bucket_of (r\<lparr>b_next_hash := x\<rparr>) = bucket_of r" for r x
    by (simp_all add: bucket_of_def)
  show "payload (bufs (unlink_hash b s) p) = payload (bufs s p)"
    using assms by (auto simp: unlink_hash_def Let_def)
  show "next_free (unlink_hash b s) = next_free s" "prev_free (unlink_hash b s) = prev_free s"
    using assms by (auto simp: unlink_hash_def Let_def)
  show "p \<noteq> 0 \<Longrightarrow> next_hash (unlink_hash b s) p = ((next_hash s)(prev_hash s b := next_hash s b)) p"
    "p \<noteq> 0 \<Longrightarrow> prev_hash (unlink_hash b s) p = ((prev_hash s)(next_hash s b := prev_hash s b)) p"
    using assms by (auto simp: unlink_hash_def Let_def)
  show "free_list (unlink_hash b s) = free_list s" by (simp add: unlink_hash_def Let_def)
  show "hash_table (unlink_hash b s) = (if hash_table s (bucket_of (bufs s b)) = b
       then (hash_table s)(bucket_of (bufs s b) := next_hash s b) else hash_table s)"
    using assms by (simp add: unlink_hash_def Let_def b)
qed

lemma unlink_free_fields:
  assumes "next_free s b \<notin> {0, b}" "prev_free s b \<notin> {0, b}"
  obtains s' where "unlink_free b s = Inr s'" "\<And>p. payload (bufs s' p) = payload (bufs s p)"
    "next_free s' = (next_free s)(prev_free s b := next_free s b)"
    "prev_free s' = (prev_free s)(next_free s b := prev_free s b)"
    "next_hash s' = next_hash s" "prev_hash s' = prev_hash s" "hash_table s' = hash_table s"
    "free_list s' = (if free_list s = b then next_free s b else free_list s)"
proof -
  define s' where "s' = projr (unlink_free b s)"
  have s': "unlink_free b s = Inr s'" using assms by (simp add: s'_def unlink_free_def Let_def)
  have d: "s' = (let s1 = upd_buf (b_prev_free (bufs s b)) (\<lambda>r. r\<lparr>b_next_free := b_next_free (bufs s b)\<rparr>) s;
               s2 = upd_buf (b_next_free (bufs s1 b)) (\<lambda>r. r\<lparr>b_prev_free := b_prev_free (bufs s1 b)\<rparr>) s1
           in if free_list s2 = b then s2\<lparr>free_list := b_next_free (bufs s2 b)\<rparr> else s2)"
    using assms s' by (simp add: unlink_free_def Let_def)
  show thesis
  proof (rule that [OF s'])
    show "payload (bufs s' p) = payload (bufs s p)" for p using assms by (auto simp: d Let_def)
    show "next_free s' = (next_free s)(prev_free s b := next_free s b)"
      "prev_free s' = (prev_free s)(next_free s b := prev_free s b)" using assms by (auto simp: d Let_def fun_eq_iff)
    show "next_hash s' = next_hash s" "prev_hash s' = prev_hash s" "hash_table s' = hash_table s"
      using assms by (auto simp: d Let_def fun_eq_iff)
    show "free_list s' = (if free_list s = b then next_free s b else free_list s)" using assms by (auto simp: d Let_def)
  qed
qed

lemma hash_neighbours:
  assumes "hash_rep s xs C" "b \<in> set xs" "0 \<notin> set xs"
  shows "next_hash s b \<noteq> b" "prev_hash s b \<noteq> b"
    "next_hash s b = 0 \<or> next_hash s b \<in> set (C (bucket_of (bufs s b)))"
    "prev_hash s b = 0 \<or> prev_hash s b \<in> set (C (bucket_of (bufs s b)))"
    "b_dev (bufs s b) = 0 \<longrightarrow> next_hash s b = 0 \<and> prev_hash s b = 0"
    "b_dev (bufs s b) \<noteq> 0 \<longleftrightarrow> b \<in> set (C (bucket_of (bufs s b)))"
proof -
  let ?h = "bucket_of (bufs s b)"
  note c = hash_repD [OF assms(1) bucket_lt, of "bufs s b"]
  show dev: "b_dev (bufs s b) = 0 \<longrightarrow> next_hash s b = 0 \<and> prev_hash s b = 0" using assms(1,2) by (simp add: hash_rep_def)
  show mem: "b_dev (bufs s b) \<noteq> 0 \<longleftrightarrow> b \<in> set (C ?h)" using c(3) assms(2) by simp
  have b0: "b \<noteq> 0" using assms(2,3) by blast
  have z: "0 \<notin> set (C ?h)" using c(3) assms(3) by simp
  show n: "next_hash s b = 0 \<or> next_hash s b \<in> set (C ?h)" using dev mem chain_next [OF c(1)] by blast
  have p0: "hash_table s ?h = b \<Longrightarrow> b \<in> set (C ?h) \<Longrightarrow> prev_hash s b = 0" using chain_prev_iff [OF c(1) _ z] by blast
  then show p: "prev_hash s b = 0 \<or> prev_hash s b \<in> set (C ?h)" using dev mem chain_prev [OF c(1)] by blast
  show "next_hash s b \<noteq> b" using dev mem chain_irrefl(1) [OF c(1,2)] b0 by metis
  show "prev_hash s b \<noteq> b" using dev mem chain_irrefl(2) [OF c(1,2) z] b0 by metis
qed

lemma unlink_hash_links:
  assumes "next_hash s b \<noteq> b" "prev_hash s b \<noteq> b" "0 \<notin> set ys"
  shows "chain (next_hash (unlink_hash b s)) (prev_hash (unlink_hash b s)) 0 q ys \<longleftrightarrow>
    chain ((next_hash s)(prev_hash s b := next_hash s b)) ((prev_hash s)(next_hash s b := prev_hash s b)) 0 q ys"
proof (rule chain_cong)
  fix x assume "x \<in> set ys"
  then have x: "x \<noteq> 0" using assms(3) by blast
  show "next_hash (unlink_hash b s) x = ((next_hash s)(prev_hash s b := next_hash s b)) x \<and>
      prev_hash (unlink_hash b s) x = ((prev_hash s)(next_hash s b := prev_hash s b)) x"
    by (rule conjI unlink_hash_fields(4,5) [OF assms(1,2) x])+
qed

lemma unlink_hash_head:
  assumes "hash_rep s xs C" "b \<in> set xs" "0 \<notin> set xs" "h < NR_HASH"
  shows "hash_table (unlink_hash b s) h = (if hash_table s h = b then next_hash s b else hash_table s h)"
proof -
  note nb = hash_neighbours [OF assms(1-3)]
  have bucket: "bucket_of (bufs s b) = h" if b: "hash_table s h = b"
  proof -
    have "b \<noteq> 0" using assms(2,3) by blast
    then have "b \<in> set (C h)" using chain_hd [OF hash_repD(1) [OF assms(1,4)]] unfolding b by fastforce
    then show ?thesis unfolding hash_repD(3) [OF assms(1,4)] by blast
  qed
  show ?thesis
  proof (cases "bucket_of (bufs s b) = h")
    case True
    then show ?thesis by (simp add: unlink_hash_fields(7) [OF nb(1,2)])
  next
    case False
    then have "hash_table s h \<noteq> b" using bucket by blast
    then show ?thesis using False by (simp add: unlink_hash_fields(7) [OF nb(1,2)])
  qed
qed

text \<open>The chain the buffer is in loses it, and no other chain changes.\<close>

lemma unlink_hash_chain:
  assumes r: "hash_rep s xs C" and b: "b \<in> set xs" "0 \<notin> set xs" and h: "h < NR_HASH"
  shows "chain (next_hash (unlink_hash b s)) (prev_hash (unlink_hash b s)) 0 (hash_table (unlink_hash b s) h) (remove1 b (C h))"
proof -
  note nb = hash_neighbours [OF r b] and c = hash_repD [OF r h]
  have z: "0 \<notin> set (C h)" using c(3) b(2) by simp
  then have "0 \<notin> set (remove1 b (C h))" by (meson notin_set_remove1)
  note upd = unlink_hash_links [OF nb(1,2) this]
  show ?thesis
  proof (cases "b \<in> set (C h)")
    case True
    have "chain ((next_hash s)(prev_hash s b := next_hash s b)) ((prev_hash s)(next_hash s b := prev_hash s b)) 0
        (if hash_table s h = b then next_hash s b else hash_table s h) (remove1 b (C h))"
      by (rule chain_unlink [OF c(1,2) z True])
    then show ?thesis unfolding upd unlink_hash_head [OF r b h] .
  next
    case False
    have "set (C (bucket_of (bufs s b))) \<inter> set (C h) = {}" if "bucket_of (bufs s b) \<noteq> h"
      using that c(3) hash_repD(3) [OF r bucket_lt, of "bufs s b"] by auto
    then have "prev_hash s b \<notin> set (C h) \<and> next_hash s b \<notin> set (C h)"
      using nb(3-6) False z by (cases "bucket_of (bufs s b) = h") auto
    then have "chain ((next_hash s)(prev_hash s b := next_hash s b)) ((prev_hash s)(next_hash s b := prev_hash s b)) 0
        (hash_table s h) (C h) \<longleftrightarrow> chain (next_hash s) (prev_hash s) 0 (hash_table s h) (C h)"
      by (intro chain_cong) auto
    moreover have "hash_table s h \<noteq> b" using False c(1) b chain_hd [OF c(1)] by fastforce
    ultimately show ?thesis unfolding upd unlink_hash_head [OF r b h] using c(1) False by (simp add: remove1_idem)
  qed
qed

lemma unlink_hash_rep:
  assumes r: "hash_rep s xs C" and b: "b \<in> set xs" "0 \<notin> set xs" "distinct xs"
  shows "hash_rep (unlink_hash b s) (remove1 b xs) (\<lambda>h. remove1 b (C h))"
proof -
  let ?s = "unlink_hash b s"
  note nb = hash_neighbours [OF r b(1,2)]
  note f = unlink_hash_fields [OF nb(1,2)]
  note pl = payload_eqD [OF f(1)] and bk = bucket_of_payload [OF f(1)]
  have "set (remove1 b (C h)) = {a \<in> set (remove1 b xs). b_dev (bufs ?s a) \<noteq> 0 \<and> bucket_of (bufs ?s a) = h}"
    "distinct (remove1 b (C h))" if "h < NR_HASH" for h
    using hash_repD(2,3) [OF r that] b(3) by (auto simp: pl bk)
  moreover have "next_hash ?s a = 0 \<and> prev_hash ?s a = 0" if a: "a \<in> set (remove1 b xs)" "b_dev (bufs ?s a) = 0" for a
  proof -
    have a': "a \<in> set xs" "a \<noteq> 0" "b_dev (bufs s a) = 0" using a b by (auto simp: pl dest: notin_set_remove1)
    then have "a \<notin> set (C (bucket_of (bufs s b)))" using hash_repD(3) [OF r bucket_lt] by simp
    then have "a \<noteq> prev_hash s b" "a \<noteq> next_hash s b" using nb(3,4) a'(2) by metis+
    moreover have "next_hash s a = 0 \<and> prev_hash s a = 0" using r a' by (simp add: hash_rep_def)
    ultimately show ?thesis using f(4,5) [OF a'(2)] by simp
  qed
  ultimately show ?thesis using unlink_hash_chain [OF r b(1,2)] unfolding hash_rep_def by blast
qed

lemma remove_from_queues_rep:
  assumes r: "cache_rep s xs" and b: "b \<in> set xs" "xs \<noteq> [b]"
  obtains s' where "remove_from_queues b s = Inr s'" "cache_rep s' (remove1 b xs)"
    "\<And>p. payload (bufs s' p) = payload (bufs s p)"
proof -
  obtain C where C: "hash_rep s xs C" using r by (auto simp: cache_rep_def)
  have x: "ring_links (next_free s) (prev_free s) xs" "hd xs = free_list s" "0 \<notin> set xs" "no_twins s xs"
    using r by (simp_all add: cache_rep_def)
  then have d: "distinct xs" by (simp add: ring_links_def)
  let ?s1 = "unlink_hash b s"
  note f = unlink_hash_fields [OF hash_neighbours(1,2) [OF C b(1) x(3)]]
  note u = ring_unlink [OF x(1) b]
  have "next_free ?s1 b \<notin> {0, b}" "prev_free ?s1 b \<notin> {0, b}"
    using u(3-6) x(3) unfolding f(2,3) [THEN fun_cong] by auto
  from unlink_free_fields [OF this] obtain s' where s': "unlink_free b ?s1 = Inr s'"
    "\<And>p. payload (bufs s' p) = payload (bufs ?s1 p)"
    "next_free s' = (next_free ?s1)(prev_free ?s1 b := next_free ?s1 b)"
    "prev_free s' = (prev_free ?s1)(next_free ?s1 b := prev_free ?s1 b)"
    "next_hash s' = next_hash ?s1" "prev_hash s' = prev_hash ?s1" "hash_table s' = hash_table ?s1"
    "free_list s' = (if free_list ?s1 = b then next_free ?s1 b else free_list ?s1)" by blast
  have pl: "payload (bufs s' p) = payload (bufs s p)" for p using s'(2) f(1) by simp
  note e = payload_eqD [OF pl] and e1 = payload_eqD [OF s'(2)] and k1 = bucket_of_payload [OF s'(2)]
  have h: "hash_rep s' (remove1 b xs) (\<lambda>h. remove1 b (C h))" using unlink_hash_rep [OF C b(1) x(3) d]
    unfolding hash_rep_def s'(5-7) e1 k1 by (simp add: s'(5,6) [THEN fun_cong])
  have "ring_links (next_free s') (prev_free s') (remove1 b xs)" using u(1) s'(3,4) f(2,3) by (metis (no_types, lifting))
  moreover have "hd (remove1 b xs) = free_list s'" using u(2) x(2) s'(8) f(2,6) by (metis (no_types, lifting))
  moreover have "0 \<notin> set (remove1 b xs)" using x(3) by (meson notin_set_remove1)
  moreover have "no_twins s' (remove1 b xs)" using x(4) d by (simp add: no_twins_def e)
  ultimately have "cache_rep s' (remove1 b xs)" using h by (auto simp: cache_rep_def)
  then show thesis using that s'(1) pl by (simp add: remove_from_queues_def)
qed

section \<open>Putting a buffer in\<close>

lemma link_free_fields:
  assumes "b \<noteq> free_list s" "prev_free s (free_list s) \<noteq> b"
  shows "payload (bufs (link_free b s) p) = payload (bufs s p)"
    "next_free (link_free b s) = ((next_free s)(b := free_list s))(prev_free s (free_list s) := b)"
    "prev_free (link_free b s) = ((prev_free s)(b := prev_free s (free_list s)))(free_list s := b)"
    "next_hash (link_free b s) = next_hash s" "prev_hash (link_free b s) = prev_hash s"
    "free_list (link_free b s) = free_list s" "hash_table (link_free b s) = hash_table s"
  using assms by (auto simp: link_free_def Let_def fun_eq_iff)

lemma link_hash_fields:
  assumes "hash_table s (bucket_of (bufs s b)) \<noteq> b"
  shows "payload (bufs (link_hash b s) p) = payload (bufs s p)"
    "next_free (link_hash b s) = next_free s" "prev_free (link_hash b s) = prev_free s" "free_list (link_hash b s) = free_list s"
    "next_hash (link_hash b s) = (next_hash s)(b := if b_dev (bufs s b) = 0 then 0 else hash_table s (bucket_of (bufs s b)))"
    "prev_hash (link_hash b s) = (if b_dev (bufs s b) = 0 then (prev_hash s)(b := 0)
       else ((prev_hash s)(b := 0))(hash_table s (bucket_of (bufs s b)) := b))"
    "hash_table (link_hash b s) = (if b_dev (bufs s b) = 0 then hash_table s else (hash_table s)(bucket_of (bufs s b) := b))"
proof -
  have k: "bucket_of (r\<lparr>b_prev_hash := x, b_next_hash := y\<rparr>) = bucket_of r" for r x y by (simp add: bucket_of_def)
  show "payload (bufs (link_hash b s) p) = payload (bufs s p)"
    "next_free (link_hash b s) = next_free s" "prev_free (link_hash b s) = prev_free s" "free_list (link_hash b s) = free_list s"
    "next_hash (link_hash b s) = (next_hash s)(b := if b_dev (bufs s b) = 0 then 0 else hash_table s (bucket_of (bufs s b)))"
    "prev_hash (link_hash b s) = (if b_dev (bufs s b) = 0 then (prev_hash s)(b := 0)
       else ((prev_hash s)(b := 0))(hash_table s (bucket_of (bufs s b)) := b))"
    "hash_table (link_hash b s) = (if b_dev (bufs s b) = 0 then hash_table s else (hash_table s)(bucket_of (bufs s b) := b))"
    using assms by (auto simp: link_hash_def Let_def fun_eq_iff k)
qed

lemma link_hash_rep:
  assumes r: "hash_rep s xs C" and b: "b \<notin> set xs" "b \<noteq> 0" "0 \<notin> set xs"
  shows "\<exists>C'. hash_rep (link_hash b s) (xs @ [b]) C'"
proof -
  let ?k = "bucket_of (bufs s b)" and ?s = "link_hash b s"
  have bC: "b \<notin> set (C h) \<and> 0 \<notin> set (C h)" if "h < NR_HASH" for h using hash_repD(3) [OF r that] b(1,3) by simp
  have head: "hash_table s h \<noteq> b \<and> (hash_table s h = 0 \<or> hash_table s h \<in> set (C h))" if "h < NR_HASH" for h
    using chain_hd [OF hash_repD(1) [OF r that]] bC [OF that] b(2) by fastforce
  note f = link_hash_fields [OF head [OF bucket_lt, THEN conjunct1]]
  note pl = payload_eqD [OF f(1)] and bk = bucket_of_payload [OF f(1)]
  define C' where "C' h = (if b_dev (bufs s b) \<noteq> 0 \<and> h = ?k then b # C h else C h)" for h
  have "chain (next_hash ?s) (prev_hash ?s) 0 (hash_table ?s h) (C' h)" if h: "h < NR_HASH" for h
  proof (cases "b_dev (bufs s b) \<noteq> 0 \<and> h = ?k")
    case True
    then show ?thesis using chain_front [OF hash_repD(1,2) [OF r h]] bC [OF h] b(2) by (simp add: C'_def f(5-7))
  next
    case False
    have "hash_table s ?k \<notin> set (C h)" if "b_dev (bufs s b) \<noteq> 0"
      using False that head [OF bucket_lt, of "bufs s b"] bC [OF h] hash_repD(3) [OF r h] hash_repD(3) [OF r bucket_lt, of "bufs s b"] by auto
    then have "chain (next_hash ?s) (prev_hash ?s) 0 (hash_table s h) (C h) \<longleftrightarrow> chain (next_hash s) (prev_hash s) 0 (hash_table s h) (C h)"
      using bC [OF h] by (intro chain_cong) (auto simp: f(5,6) [THEN fun_cong])
    then show ?thesis using False hash_repD(1) [OF r h] by (auto simp: C'_def f(7))
  qed
  moreover have "distinct (C' h) \<and> set (C' h) = {a \<in> set (xs @ [b]). b_dev (bufs ?s a) \<noteq> 0 \<and> bucket_of (bufs ?s a) = h}"
    if h: "h < NR_HASH" for h
    using hash_repD(2,3) [OF r h] bC [OF h] b(1) by (auto simp: C'_def pl bk)
  moreover have "next_hash ?s a = 0 \<and> prev_hash ?s a = 0" if a: "a \<in> set (xs @ [b])" "b_dev (bufs ?s a) = 0" for a
  proof (cases "a = b")
    case True
    then show ?thesis using a(2) by (simp add: f(5,6) [THEN fun_cong] pl)
  next
    case False
    then have a': "a \<in> set xs" "b_dev (bufs s a) = 0" "a \<noteq> 0" using a b(3) by (auto simp: pl)
    then have "a \<noteq> hash_table s ?k" using head [OF bucket_lt, of "bufs s b"] hash_repD(3) [OF r bucket_lt, of "bufs s b"] by auto
    then show ?thesis using r a' False by (simp add: hash_rep_def f(5,6) [THEN fun_cong])
  qed
  ultimately show ?thesis unfolding hash_rep_def by blast
qed

lemma insert_into_queues_rep:
  assumes r: "cache_rep s xs" and b: "b \<notin> set xs" "b \<noteq> 0"
    and new: "\<And>a. a \<in> set xs \<Longrightarrow> b_dev (bufs s b) \<noteq> 0 \<Longrightarrow> b_dev (bufs s a) = b_dev (bufs s b) \<Longrightarrow>
      b_blocknr (bufs s a) \<noteq> b_blocknr (bufs s b)"
  shows "cache_rep (insert_into_queues b s) (xs @ [b]) \<and> payload (bufs (insert_into_queues b s) p) = payload (bufs s p)"
proof -
  obtain C where C: "hash_rep s xs C" using r by (auto simp: cache_rep_def)
  have x: "ring_links (next_free s) (prev_free s) xs" "hd xs = free_list s" "0 \<notin> set xs" "no_twins s xs"
    using r by (simp_all add: cache_rep_def)
  then have ne: "xs \<noteq> []" by (simp add: ring_links_def)
  have m: "free_list s \<in> set xs" "prev_free s (free_list s) \<in> set xs"
    using ring_last [OF x(1)] ne by (simp_all flip: x(2))
  then have "b \<noteq> free_list s" "prev_free s (free_list s) \<noteq> b" using b(1) by blast+
  note f = link_free_fields [OF this]
  let ?s1 = "link_free b s" and ?s2 = "insert_into_queues b s"
  note e1 = payload_eqD [OF f(1)] and k1 = bucket_of_payload [OF f(1)]
  have h1: "hash_rep ?s1 xs C" using C unfolding hash_rep_def f(4,5,7) e1 k1 by (simp add: f(4,5) [THEN fun_cong])
  then obtain C' where C': "hash_rep ?s2 (xs @ [b]) C'" using link_hash_rep [OF h1 b x(3)] by (auto simp: insert_into_queues_def)
  have "hash_table ?s1 (bucket_of (bufs ?s1 b)) \<noteq> b"
  proof
    assume a: "hash_table ?s1 (bucket_of (bufs ?s1 b)) = b"
    have "b \<in> set (C (bucket_of (bufs ?s1 b)))"
      using chain_hd [OF hash_repD(1) [OF h1 bucket_lt, of "bufs ?s1 b"]] b(2) a by fastforce
    then show False using hash_repD(3) [OF h1 bucket_lt] b(1) by auto
  qed
  note g = link_hash_fields [OF this, folded insert_into_queues_def]
  have pl: "payload (bufs ?s2 q) = payload (bufs s q)" for q using g(1) f(1) by simp
  note e = payload_eqD [OF pl]
  have "ring_links (next_free ?s2) (prev_free ?s2) (xs @ [b])"
    using ring_insert [OF x(1) b(1)] unfolding g(2,3) f(2,3) x(2) .
  moreover have "hd (xs @ [b]) = free_list ?s2" using ne x(2) by (simp add: g(4) f(6))
  moreover have "no_twins ?s2 (xs @ [b])" using x(4) new unfolding no_twins_def e by (auto dest: sym)
  ultimately have "cache_rep ?s2 (xs @ [b])" using C' x(3) b(2) by (auto simp: cache_rep_def)
  then show ?thesis using pl by simp
qed

section \<open>Changes that keep the cache\<close>

lemma cache_rep_cong:
  assumes r: "cache_rep s xs" and f: "free_list t = free_list s" "\<And>h. h < NR_HASH \<Longrightarrow> hash_table t h = hash_table s h"
    and b: "\<And>a. a \<in> set xs \<Longrightarrow> next_free t a = next_free s a \<and> prev_free t a = prev_free s a \<and> next_hash t a = next_hash s a \<and>
      prev_hash t a = prev_hash s a \<and> b_dev (bufs t a) = b_dev (bufs s a) \<and> b_blocknr (bufs t a) = b_blocknr (bufs s a)"
  shows "cache_rep t xs"
proof -
  obtain C where C: "hash_rep s xs C" using r by (auto simp: cache_rep_def)
  have k: "bucket_of (bufs t a) = bucket_of (bufs s a)" if "a \<in> set xs" for a using b [OF that] by (simp add: bucket_of_def)
  have "chain (next_hash t) (prev_hash t) 0 q (C h) \<longleftrightarrow> chain (next_hash s) (prev_hash s) 0 q (C h)" if "h < NR_HASH" for h q
    using b hash_repD(3) [OF C that] by (intro chain_cong) simp
  then have "hash_rep t xs C" using C b k f(2) unfolding hash_rep_def by auto
  moreover have "ring_links (next_free t) (prev_free t) xs \<longleftrightarrow> ring_links (next_free s) (prev_free s) xs"
    using b by (intro ring_links_cong) simp
  moreover have "no_twins t xs \<longleftrightarrow> no_twins s xs" using b by (simp add: no_twins_def)
  ultimately show ?thesis using r f(1) by (auto simp: cache_rep_def)
qed

lemma cache_rep_upd:
  assumes "cache_rep s xs" "p \<in> set xs \<Longrightarrow> b_next_free (f (bufs s p)) = next_free s p \<and> b_prev_free (f (bufs s p)) = prev_free s p \<and>
    b_next_hash (f (bufs s p)) = next_hash s p \<and> b_prev_hash (f (bufs s p)) = prev_hash s p \<and>
    b_dev (f (bufs s p)) = b_dev (bufs s p) \<and> b_blocknr (f (bufs s p)) = b_blocknr (bufs s p)"
  shows "cache_rep (upd_buf p f s) xs"
  by (rule cache_rep_cong [OF assms(1)]) (use assms(2) in auto)

section \<open>Searching\<close>

lemma find_in_chain_find:
  "chain (next_hash s) pv a p ys \<Longrightarrow>
     find_in_chain dev block p s = Some (case find (\<lambda>b. holds dev block (bufs s b)) ys of None \<Rightarrow> 0 | Some b \<Rightarrow> b)"
proof (induction ys arbitrary: a p)
  case Nil
  then show ?case by (simp add: find_in_chain.simps)
next
  case (Cons y ys)
  then show ?case by (subst find_in_chain.simps) (auto simp: holds_def)
qed

lemma holds_key: "holds dev block b \<Longrightarrow> dev \<noteq> 0 \<Longrightarrow> b_dev b \<noteq> 0 \<and> bucket_of b = hashfn dev block"
  by (auto simp: holds_def bucket_of_def)

lemma unat_ucast_u16: "unat (ucast (a :: u16) :: u32) = unat a"
proof -
  have "unat a < 4294967296" using unsigned_less [of a, where ?'a = nat] by simp
  then show ?thesis by (simp add: unsigned_ucast_eq take_bit_nat_eq_self_iff)
qed

lemma holds_unique:
  assumes "cache_rep s xs" "dev \<noteq> 0" "a \<in> set xs" "b \<in> set xs" "holds dev block (bufs s a)" "holds dev block (bufs s b)"
  shows "a = b"
proof -
  have "(ucast (b_dev (bufs s a)) :: u32) = ucast (b_dev (bufs s b))" using assms(5,6) by (simp add: holds_def)
  then have "b_dev (bufs s a) = b_dev (bufs s b)" by (metis unat_ucast_u16 word_unat_eq_iff)
  then show ?thesis using assms holds_key [OF assms(5,2)] by (auto simp: cache_rep_def no_twins_def holds_def)
qed

lemma find_buffer_rep:
  assumes "cache_rep s xs" "dev \<noteq> 0"
  obtains p where "find_buffer dev block s = Some p"
    "p = 0 \<and> (\<forall>b \<in> set xs. \<not> holds dev block (bufs s b)) \<or> p \<noteq> 0 \<and> p \<in> set xs \<and> holds dev block (bufs s p)"
proof -
  obtain C where C: "hash_rep s xs C" using assms(1) by (auto simp: cache_rep_def)
  let ?h = "hashfn dev block"
  have h: "?h < NR_HASH" by (simp add: hashfn_def NR_HASH_def)
  note c = hash_repD [OF C h]
  have z: "0 \<notin> set xs" using assms(1) by (simp add: cache_rep_def)
  have f: "find_buffer dev block s = Some (case find (\<lambda>b. holds dev block (bufs s b)) (C ?h) of None \<Rightarrow> 0 | Some b \<Rightarrow> b)"
    unfolding find_buffer_def by (rule find_in_chain_find [OF c(1)])
  show thesis
  proof (cases "find (\<lambda>b. holds dev block (bufs s b)) (C ?h)")
    case None
    then have "\<not> holds dev block (bufs s b)" if "b \<in> set xs" for b
      using that c(3) holds_key [OF _ assms(2), of block "bufs s b"] by (auto simp: find_None_iff)
    then show thesis using that f None by simp
  next
    case (Some b)
    then have "b \<in> set xs \<and> holds dev block (bufs s b)" using c(3) by (auto simp: find_Some_iff)
    then show thesis using that [of b] f Some z by auto
  qed
qed

lemma find_buffer_miss:
  assumes "cache_rep s xs" "dev \<noteq> 0" "\<forall>b \<in> set xs. \<not> holds dev block (bufs s b)"
  shows "find_buffer dev block s = Some 0"
proof -
  obtain p where "find_buffer dev block s = Some p"
    "p = 0 \<and> (\<forall>b \<in> set xs. \<not> holds dev block (bufs s b)) \<or> p \<noteq> 0 \<and> p \<in> set xs \<and> holds dev block (bufs s p)"
    using find_buffer_rep [OF assms(1,2)] by blast
  then show ?thesis using assms(3) by auto
qed

text \<open>What the search of the free list finds.\<close>

fun best_free :: "(u32 \<Rightarrow> buffer_head) \<Rightarrow> u32 list \<Rightarrow> u32 \<Rightarrow> u32" where
  "best_free B [] bh = bh"
| "best_free B (x # xs) bh =
     (if b_count (B x) = 0 \<and> (bh = 0 \<or> BADNESS (B x) < BADNESS (B bh))
      then (if BADNESS (B x) = 0 then x else best_free B xs x) else best_free B xs bh)"

definition better :: "(u32 \<Rightarrow> buffer_head) \<Rightarrow> u32 \<Rightarrow> u32 \<Rightarrow> bool" where
  "better B x bh \<longleftrightarrow> b_count (B x) = 0 \<and> (bh = 0 \<or> BADNESS (B x) < BADNESS (B bh))"

lemma free_scan_step:
  "free_scan s z bh =
     (if better (bufs s) z bh \<and> BADNESS (bufs s z) = 0 then Some z
      else if next_free s z \<noteq> free_list s then free_scan s (next_free s z) (if better (bufs s) z bh then z else bh)
      else Some (if better (bufs s) z bh then z else bh))"
  by (subst free_scan.simps, unfold Let_def better_def [symmetric], cases "better (bufs s) z bh"; simp)

lemma best_free_step:
  "best_free B (x # xs) bh = (if better B x bh \<and> BADNESS (B x) = 0 then x else best_free B xs (if better B x bh then x else bh))"
  by (unfold best_free.simps better_def [symmetric], cases "better B x bh"; simp)

lemma free_scan_best:
  assumes "ring_links (next_free s) (prev_free s) (ys @ z # zs)" "hd (ys @ z # zs) = free_list s"
  shows "free_scan s z bh = Some (best_free (bufs s) (z # zs) bh)"
  using assms
proof (induction zs arbitrary: ys z bh)
  case Nil
  have "links (next_free s) (prev_free s) (ys @ z # [free_list s])" using Nil.prems by (simp add: ring_links_def)
  then have "next_free s z = free_list s" using links_append [of _ _ ys z "[free_list s]"] by simp
  then show ?case unfolding free_scan_step [of s z] best_free_step by simp
next
  case (Cons w zs)
  have "links (next_free s) (prev_free s) (ys @ z # w # zs @ [free_list s])" using Cons.prems by (simp add: ring_links_def)
  then have "next_free s z = w" using links_append [of _ _ ys z "w # zs @ [free_list s]"] by simp
  moreover have "w \<noteq> free_list s" using Cons.prems by (cases ys) (auto simp: ring_links_def)
  moreover have "free_scan s w b = Some (best_free (bufs s) (w # zs) b)" for b using Cons.IH [of "ys @ [z]" w b] Cons.prems by simp
  ultimately show ?case unfolding free_scan_step [of s z] best_free_step [of _ z] by simp
qed

lemma free_scan_ring: "cache_rep s xs \<Longrightarrow> free_scan s (free_list s) 0 = Some (best_free (bufs s) xs 0)"
  using free_scan_best [of s "[]" "hd xs" "tl xs" 0] by (cases xs) (auto simp: cache_rep_def ring_links_def simp del: best_free.simps)

lemma best_free_in: "best_free B xs bh = bh \<or> best_free B xs bh \<in> set xs \<and> b_count (B (best_free B xs bh)) = 0"
proof (induction xs arbitrary: bh)
  case (Cons x xs)
  then show ?case using Cons.IH [of x] Cons.IH [of bh]
    by (cases "best_free B xs x = x") (auto split: if_splits)
qed simp

lemma best_free_found:
  "0 \<notin> set xs \<Longrightarrow> bh \<noteq> 0 \<or> (\<exists>x \<in> set xs. b_count (B x) = 0) \<Longrightarrow> best_free B xs bh \<noteq> 0"
  by (induction xs arbitrary: bh) auto

definition ready :: "buffer_head \<Rightarrow> bool" where "ready b \<longleftrightarrow> b_count b = 0 \<and> b_dirt b = 0 \<and> b_lock b = 0"

lemma BADNESS_0: "BADNESS b = 0 \<longleftrightarrow> b_dirt b = 0 \<and> b_lock b = 0"
  by (simp add: BADNESS_def unat_eq_0)

lemma best_free_first:
  "ready (B v) \<Longrightarrow> \<forall>a \<in> set as. \<not> ready (B a) \<Longrightarrow> bh = 0 \<or> BADNESS (B bh) \<noteq> 0 \<Longrightarrow> best_free B (as @ v # bs) bh = v"
proof (induction as arbitrary: bh)
  case Nil
  then have "BADNESS (B v) = 0" "b_count (B v) = 0" by (simp_all add: ready_def BADNESS_0)
  then show ?case using Nil.prems by auto
next
  case (Cons a as)
  then show ?case by (auto simp: ready_def BADNESS_0)
qed

section \<open>Claiming a buffer for another block\<close>

definition claimed :: "i32 \<Rightarrow> u32 \<Rightarrow> buffer_head \<Rightarrow> buffer_head" where
  "claimed dev block b = b\<lparr>b_dev := ucast dev, b_blocknr := block, b_count := 1, b_dirt := 0, b_uptodate := 0\<rparr>"

lemma payload_claimed: "payload (claimed dev block b) = claimed dev block (payload b)"
  by (simp add: payload_def claimed_def)

lemma ucast_dev: "dev < 0x10000 \<Longrightarrow> (ucast (ucast (dev :: i32) :: u16) :: i32) = dev"
  by (simp add: word_unat_eq_iff unat_ucast_u16 unsigned_ucast_eq word_less_nat_alt unsigned_take_bit_eq take_bit_nat_eq_self_iff)

lemma claim_buffer_rep:
  assumes r: "cache_rep s xs" and b: "b \<in> set xs" "xs \<noteq> [b]" and dev: "dev \<noteq> 0" "dev < 0x10000"
    and new: "\<forall>a \<in> set xs. \<not> holds dev block (bufs s a)"
  obtains s' where "claim_buffer b dev block s = Inr s'" "cache_rep s' (remove1 b xs @ [b])"
    "\<And>p. p \<noteq> b \<Longrightarrow> payload (bufs s' p) = payload (bufs s p)"
    "payload (bufs s' b) = claimed dev block (payload (bufs s b))"
proof -
  let ?s0 = "upd_buf b (\<lambda>b. b\<lparr>b_count := 1, b_dirt := 0, b_uptodate := 0\<rparr>) s"
  have "cache_rep ?s0 xs" by (rule cache_rep_upd [OF r]) simp
  then obtain s1 where s1: "remove_from_queues b ?s0 = Inr s1" "cache_rep s1 (remove1 b xs)"
    "\<And>p. payload (bufs s1 p) = payload (bufs ?s0 p)" using remove_from_queues_rep [OF _ b] by blast
  have d: "distinct xs" "0 \<notin> set xs" using r by (simp_all add: cache_rep_def ring_links_def)
  then have nb: "b \<notin> set (remove1 b xs)" "b \<noteq> 0" using b(1) by auto
  let ?s2 = "upd_buf b (\<lambda>b. b\<lparr>b_dev := ucast dev, b_blocknr := block\<rparr>) s1"
  have r2: "cache_rep ?s2 (remove1 b xs)" by (rule cache_rep_upd [OF s1(2)]) (use nb in simp)
  have p1: "payload (bufs s1 a) = payload (bufs s a)" if "a \<noteq> b" for a using s1(3) [of a] that by simp
  have "b_blocknr (bufs ?s2 a) \<noteq> b_blocknr (bufs ?s2 b)"
    if a: "a \<in> set (remove1 b xs)" "b_dev (bufs ?s2 a) = b_dev (bufs ?s2 b)" for a
  proof -
    have ab: "a \<noteq> b" "a \<in> set xs" using a(1) nb set_remove1_subset [of b xs] by auto
    then have "\<not> holds dev block (bufs s1 a)" using new payload_eqD(1,2) [OF p1 [OF ab(1)]] by (simp add: holds_def)
    moreover have "b_dev (bufs s1 a) = ucast dev" using a(2) ab(1) by simp
    ultimately show ?thesis using ab(1) ucast_dev [OF dev(2)] by (simp add: holds_def)
  qed
  from insert_into_queues_rep [OF r2 nb this]
  have i: "cache_rep (insert_into_queues b ?s2) (remove1 b xs @ [b])"
    "payload (bufs (insert_into_queues b ?s2) p) = payload (bufs ?s2 p)" for p by blast+
  have "payload (bufs ?s2 b) = claimed dev block (payload (bufs s b))"
  proof -
    have "payload (bufs ?s2 b) = (payload (bufs s1 b))\<lparr>b_dev := ucast dev, b_blocknr := block\<rparr>" by (simp add: payload_def)
    also have "payload (bufs s1 b) = payload (bufs ?s0 b)" by (rule s1(3))
    finally show ?thesis by (simp add: payload_def claimed_def)
  qed
  then have pb: "payload (bufs (insert_into_queues b ?s2) b) = claimed dev block (payload (bufs s b))" unfolding i(2) .
  have pa: "payload (bufs (insert_into_queues b ?s2) a) = payload (bufs s a)" if "a \<noteq> b" for a
    using p1 [OF that] that unfolding i(2) by simp
  have "claim_buffer b dev block s = Inr (insert_into_queues b ?s2)" by (simp add: claim_buffer_def s1(1))
  then show thesis using i(1) pa pb by (rule that)
qed

section \<open>The specification: a least-recently-used cache\<close>

text \<open>
  The buffers in the order of the free list, each with its contents: a block that is there is
  used once more where it stands; a block that is not takes the first buffer that nobody uses and that
  is neither dirty nor locked, and that buffer goes to the end. The result is \<open>None\<close> where \<open>getblk\<close>
  would have to wait.
\<close>

type_synonym cache = "(u32 \<times> buffer_head) list"

definition use_once :: "u32 \<Rightarrow> cache \<Rightarrow> cache" where
  "use_once a es = map (\<lambda>(x, b). (x, if x = a then b\<lparr>b_count := b_count b + 1\<rparr> else b)) es"

definition lru_get :: "i32 \<Rightarrow> u32 \<Rightarrow> cache \<Rightarrow> (u32 \<times> cache) option" where
  "lru_get dev block es =
     (case find (\<lambda>(a, b). holds dev block b) es of
        Some (a, b) \<Rightarrow> if b_lock b = 0 then Some (a, use_once a es) else None
      | None \<Rightarrow>
          case find (\<lambda>(a, b). ready b) es of
            Some (a, b) \<Rightarrow> Some (a, remove1 (a, b) es @ [(a, claimed dev block b)])
          | None \<Rightarrow> None)"

definition entries :: "'a buffer_state_scheme \<Rightarrow> u32 list \<Rightarrow> cache" where
  "entries s xs = map (\<lambda>a. (a, payload (bufs s a))) xs"

lemma holds_payload [simp]: "holds dev block (payload b) = holds dev block b"
  by (simp add: holds_def)

lemma ready_payload [simp]: "ready (payload b) = ready b"
  by (simp add: ready_def)

lemma find_entries:
  "find (\<lambda>(a, b). P b) (entries s xs) = map_option (\<lambda>a. (a, payload (bufs s a))) (find (\<lambda>a. P (payload (bufs s a))) xs)"
  by (induction xs) (simp_all add: entries_def)

lemma find_first: "find P xs = Some x \<Longrightarrow> \<exists>ys zs. xs = ys @ x # zs \<and> P x \<and> (\<forall>y \<in> set ys. \<not> P y)"
proof (induction xs)
  case (Cons y xs)
  show ?case
  proof (cases "P y")
    case True
    then have "y # xs = [] @ x # xs \<and> P x \<and> (\<forall>y \<in> set []. \<not> P y)" using Cons.prems by simp
    then show ?thesis by blast
  next
    case False
    then obtain ys zs where "xs = ys @ x # zs" "P x" "\<forall>y \<in> set ys. \<not> P y" using Cons by auto
    then have "y # xs = (y # ys) @ x # zs \<and> P x \<and> (\<forall>y \<in> set (y # ys). \<not> P y)" using False by simp
    then show ?thesis by blast
  qed
qed simp

lemma wait_unlocked: "b_lock (bufs s b) = 0 \<Longrightarrow> wait_on_buffer others b s = Some (Inr s)"
  by (simp add: wait_on_buffer.simps)

lemma get_hash_table_miss:
  "find_buffer dev block s = Some 0 \<Longrightarrow> get_hash_table others dev block s = Some (Inr (0, s))"
  by (simp add: get_hash_table.simps)

lemma get_hash_table_hit:
  "find_buffer dev block s = Some b \<Longrightarrow> b \<noteq> 0 \<Longrightarrow> holds dev block (bufs s b) \<Longrightarrow> b_lock (bufs s b) = 0 \<Longrightarrow>
     get_hash_table others dev block s = Some (Inr (b, upd_buf b (\<lambda>b. b\<lparr>b_count := b_count b + 1\<rparr>) s))"
  by (subst get_hash_table.simps) (simp add: wait_unlocked holds_def)

lemma sync_loop_clean: "b_dirt (bufs s b) \<noteq> 1 \<Longrightarrow> sync_loop others b s = Some (Inr (False, s))"
  by (simp add: sync_loop.simps)

lemma getblk_claims:
  assumes "find_buffer dev block s = Some 0" "free_scan s (free_list s) 0 = Some b" "b \<noteq> 0" "ready (bufs s b)"
    "claim_buffer b dev block s = Inr s'"
  shows "getblk others dev block s = Some (Inr (b, s'))"
  using assms by (subst getblk.simps)
    (simp add: get_hash_table_miss search_free_def try_claim_def wait_unlocked sync_loop_clean ready_def)

lemma remove1_entries: "remove1 (a, payload (bufs s a)) (entries s xs) = entries s (remove1 a xs)"
  by (induction xs) (auto simp: entries_def)

section \<open>Waiting\<close>

text \<open>The same invariant without the order: the buffers are those of the set \<open>B\<close>.\<close>

definition cache_ok :: "u32 set \<Rightarrow> 'a buffer_state_scheme \<Rightarrow> bool" where
  "cache_ok B s \<longleftrightarrow> (\<exists>xs. cache_rep s xs \<and> set xs = B)"

definition others_keep :: "u32 set \<Rightarrow> ('a buffer_state_scheme \<Rightarrow> 'a buffer_state_scheme) \<Rightarrow> bool" where
  "others_keep B others \<longleftrightarrow> (\<forall>s. cache_ok B s \<longrightarrow> cache_ok B (others s))"

abbreviation task0_sleeps :: kerror where "task0_sleeps \<equiv> Panic ''task[0] trying to sleep''"

lemma cache_ok_cong:
  assumes "cache_ok B s" "free_list t = free_list s" "hash_table t = hash_table s"
    "\<And>a. a \<in> B \<Longrightarrow> b_next_free (bufs t a) = b_next_free (bufs s a) \<and> b_prev_free (bufs t a) = b_prev_free (bufs s a) \<and>
      b_next_hash (bufs t a) = b_next_hash (bufs s a) \<and> b_prev_hash (bufs t a) = b_prev_hash (bufs s a) \<and>
      b_dev (bufs t a) = b_dev (bufs s a) \<and> b_blocknr (bufs t a) = b_blocknr (bufs s a)"
  shows "cache_ok B t"
proof -
  obtain xs where "cache_rep s xs" "set xs = B" using assms(1) by (auto simp: cache_ok_def)
  moreover have "cache_rep t xs" by (rule cache_rep_cong [OF calculation(1) assms(2)]) (use assms(3,4) calculation(2) in auto)
  ultimately show ?thesis by (auto simp: cache_ok_def)
qed

lemma cache_ok_upd:
  assumes "cache_ok B s" "\<And>r. b_next_free (f r) = b_next_free r \<and> b_prev_free (f r) = b_prev_free r \<and> b_next_hash (f r) = b_next_hash r \<and>
    b_prev_hash (f r) = b_prev_hash r \<and> b_dev (f r) = b_dev r \<and> b_blocknr (f r) = b_blocknr r"
  shows "cache_ok B (upd_buf p f s)"
  by (rule cache_ok_cong [OF assms(1)]) (use assms(2) in auto)

lemma buffers_more:
  assumes "sched_state.more (t :: 'a buffer_state_scheme) = sched_state.more s"
  shows "bufs t = bufs s" "free_list t = free_list s" "hash_table t = hash_table s" "buffer_wait t = buffer_wait s"
  using assms by (cases s; cases t; simp)+

lemma sleep_on_enter_more:
  "sleep_on_enter q (s :: 'a sched_state_scheme) = Inr (tmp, q', s') \<Longrightarrow> sched_state.more s' = sched_state.more s"
  by (auto simp: sleep_on_enter_def split: if_splits)

lemma sleep_on_enter_panics: "sleep_on_enter q s = Inl e \<Longrightarrow> e = task0_sleeps"
  by (auto simp: sleep_on_enter_def split: if_splits)

lemma sleep_on_leave_more: "sched_state.more (sleep_on_leave tmp s) = sched_state.more s"
  by (simp add: sleep_on_leave_def)

lemma cache_ok_more:
  assumes "sched_state.more (t :: 'a buffer_state_scheme) = sched_state.more s" "cache_ok B s"
  shows "cache_ok B t"
  using assms(2) by (rule cache_ok_cong) (simp_all add: buffers_more [OF assms(1)])

lemma sleep_on_buffer_ok:
  assumes "others_keep B others" "cache_ok B s"
  shows "case sleep_on_buffer others b s of Inl e \<Rightarrow> e = task0_sleeps | Inr s' \<Rightarrow> cache_ok B s'"
proof (cases "sleep_on_enter (b_wait (bufs s b)) s")
  case (Inl e)
  then show ?thesis using sleep_on_enter_panics [OF Inl] by (simp add: sleep_on_buffer_def)
next
  case (Inr r)
  obtain tmp q s1 where r: "r = (tmp, q, s1)" by (cases r)
  have "cache_ok B s1" using cache_ok_more [OF sleep_on_enter_more] Inr r assms(2) by blast
  then have "cache_ok B (upd_buf b (\<lambda>b. b\<lparr>b_wait := q\<rparr>) s1)" by (rule cache_ok_upd) simp
  then have "cache_ok B (others (upd_buf b (\<lambda>b. b\<lparr>b_wait := q\<rparr>) s1))" using assms(1) by (simp add: others_keep_def)
  then show ?thesis using cache_ok_more [OF sleep_on_leave_more] by (simp add: sleep_on_buffer_def Inr r)
qed

lemma sleep_on_any_ok:
  assumes "others_keep B others" "cache_ok B s"
  shows "case sleep_on_any others s of Inl e \<Rightarrow> e = task0_sleeps | Inr s' \<Rightarrow> cache_ok B s'"
proof (cases "sleep_on_enter (buffer_wait s) s")
  case (Inl e)
  then show ?thesis using sleep_on_enter_panics [OF Inl] by (simp add: sleep_on_any_def)
next
  case (Inr r)
  obtain tmp q s1 where r: "r = (tmp, q, s1)" by (cases r)
  have "cache_ok B s1" using cache_ok_more [OF sleep_on_enter_more] Inr r assms(2) by blast
  then have "cache_ok B (s1\<lparr>buffer_wait := q\<rparr>)" by (rule cache_ok_cong) simp_all
  then have "cache_ok B (others (s1\<lparr>buffer_wait := q\<rparr>))" using assms(1) by (simp add: others_keep_def)
  then show ?thesis using cache_ok_more [OF sleep_on_leave_more] by (simp add: sleep_on_any_def Inr r)
qed

lemma obind_cases:
  assumes "obind m f = Some r"
  obtains (error) e where "m = Some (Inl e)" "r = Inl e" | (ok) a where "m = Some (Inr a)" "f a = Some r"
proof -
  obtain y where y: "m = Some y" "case_sum (\<lambda>e. Some (Inl e)) f y = Some r" using assms by (auto simp: obind_def bind_eq_Some_conv)
  show thesis
  proof (cases y)
    case (Inl e)
    then show thesis using y error by simp
  next
    case (Inr a)
    then show thesis using y ok by simp
  qed
qed

lemma wait_on_buffer_ok:
  assumes "others_keep B others" "wait_on_buffer others b s = Some r" "cache_ok B s"
  shows "case r of Inl e \<Rightarrow> e = task0_sleeps | Inr s' \<Rightarrow> cache_ok B s' \<and> b_lock (bufs s' b) = 0"
  using assms(2,1,3)
proof (induction others b s r rule: wait_on_buffer.raw_induct [rotated, consumes 1, case_names step])
  case (step w others b s r)
  show ?case
  proof (cases "b_lock (bufs s b) = 0")
    case True
    then show ?thesis using step by auto
  next
    case False
    then have "obind (Some (sleep_on_buffer others b s)) (w others b) = Some r" using step(2) by simp
    then show ?thesis
    proof (cases rule: obind_cases)
      case (error e)
      then show ?thesis using sleep_on_buffer_ok [OF step.prems(1,2), of b] by simp
    next
      case (ok s1)
      then have "cache_ok B s1" using sleep_on_buffer_ok [OF step.prems(1,2), of b] by simp
      then show ?thesis using step(1) ok(2) step.prems(1) by blast
    qed
  qed
qed

lemma find_buffer_ok:
  assumes "cache_ok B s" "dev \<noteq> 0" "find_buffer dev block s = Some p"
  shows "p = 0 \<and> (\<forall>b \<in> B. \<not> holds dev block (bufs s b)) \<or> p \<noteq> 0 \<and> p \<in> B \<and> holds dev block (bufs s p)"
proof -
  obtain xs where xs: "cache_rep s xs" "set xs = B" using assms(1) by (auto simp: cache_ok_def)
  show ?thesis using find_buffer_rep [OF xs(1) assms(2), of block] assms(3) xs(2) by (metis option.inject)
qed

lemma get_hash_table_ok:
  assumes "others_keep B others" "get_hash_table others dev block s = Some r" "cache_ok B s" "dev \<noteq> 0"
  shows "case r of Inl e \<Rightarrow> e = task0_sleeps
    | Inr (p, s') \<Rightarrow> cache_ok B s' \<and> (p = 0 \<or> p \<in> B \<and> holds dev block (bufs s' p))"
  using assms(2,1,3,4)
proof (induction others dev block s r rule: get_hash_table.raw_induct [rotated, consumes 1, case_names step])
  case (step w others dev block s r)
  obtain p where p: "find_buffer dev block s = Some p" using step(2) by (cases "find_buffer dev block s") auto
  note f = find_buffer_ok [OF step.prems(2,3) p]
  show ?case
  proof (cases "p = 0")
    case True
    then have "r = Inr (0, s)" using step(2) by (simp add: p)
    then show ?thesis using step.prems(2) by simp
  next
    case False
    let ?s1 = "upd_buf p (\<lambda>b. b\<lparr>b_count := b_count b + 1\<rparr>) s"
    have ok1: "cache_ok B ?s1" by (rule cache_ok_upd [OF step.prems(2)]) simp
    have "obind (wait_on_buffer others p ?s1) (\<lambda>s1.
        if ucast (b_dev (bufs s1 p)) = dev \<and> b_blocknr (bufs s1 p) = block then Some (Inr (p, s1))
        else w others dev block (upd_buf p (\<lambda>b. b\<lparr>b_count := b_count b - 1\<rparr>) s1)) = Some r"
      using step(2) False by (simp add: p)
    then show ?thesis
    proof (cases rule: obind_cases)
      case (error e)
      then show ?thesis using wait_on_buffer_ok [OF step.prems(1) error(1) ok1] by simp
    next
      case (ok s2)
      have ok2: "cache_ok B s2" using wait_on_buffer_ok [OF step.prems(1) ok(1) ok1] by simp
      show ?thesis
      proof (cases "holds dev block (bufs s2 p)")
        case True
        then have "r = Inr (p, s2)" using ok(2) by (simp add: holds_def)
        then show ?thesis using ok2 True f False by simp
      next
        case nh: False
        have "cache_ok B (upd_buf p (\<lambda>b. b\<lparr>b_count := b_count b - 1\<rparr>) s2)" by (rule cache_ok_upd [OF ok2]) simp
        moreover have "w others dev block (upd_buf p (\<lambda>b. b\<lparr>b_count := b_count b - 1\<rparr>) s2) = Some r"
          using ok(2) nh by (auto simp: holds_def split: if_splits)
        ultimately show ?thesis using step.IH step.prems(1,3) by blast
      qed
    qed
  qed
qed

lemma sync_loop_ok:
  assumes "others_keep B others" "sync_loop others b s = Some r" "cache_ok B s"
  shows "case r of Inl e \<Rightarrow> e = task0_sleeps | Inr (again, s') \<Rightarrow> cache_ok B s'"
  using assms(2,1,3)
proof (induction others b s r rule: sync_loop.raw_induct [rotated, consumes 1, case_names step])
  case (step w others b s r)
  show ?case
  proof (cases "b_dirt (bufs s b) = 1")
    case False
    then show ?thesis using step by auto
  next
    case True
    then have "obind (wait_on_buffer others b s) (\<lambda>s1. if b_count (bufs s1 b) \<noteq> 0 then Some (Inr (True, s1)) else w others b s1) = Some r"
      using step(2) by simp
    then show ?thesis
    proof (cases rule: obind_cases)
      case (error e)
      then show ?thesis using wait_on_buffer_ok [OF step.prems(1) error(1) step.prems(2)] by simp
    next
      case (ok s1)
      have "cache_ok B s1" using wait_on_buffer_ok [OF step.prems(1) ok(1) step.prems(2)] by simp
      then show ?thesis using ok(2) step.IH step.prems(1) by (cases "b_count (bufs s1 b) = 0") auto
    qed
  qed
qed

lemma claim_buffer_ok:
  assumes "cache_ok B s" "b \<in> B" "2 \<le> card B" "dev \<noteq> 0" "dev < 0x10000" "\<forall>a \<in> B. \<not> holds dev block (bufs s a)"
  obtains s' where "claim_buffer b dev block s = Inr s'" "cache_ok B s'" "holds dev block (bufs s' b)"
proof -
  obtain xs where xs: "cache_rep s xs" "set xs = B" using assms(1) by (auto simp: cache_ok_def)
  have "xs \<noteq> [b]" using assms(3) xs(2) by auto
  then obtain s' where s': "claim_buffer b dev block s = Inr s'" "cache_rep s' (remove1 b xs @ [b])"
    "payload (bufs s' b) = claimed dev block (payload (bufs s b))"
    using claim_buffer_rep [OF xs(1) _ _ assms(4,5)] assms(2,6) xs(2) by metis
  have "distinct xs" using xs(1) by (simp add: cache_rep_def ring_links_def)
  then have "set (remove1 b xs @ [b]) = B" using xs(2) assms(2) by auto
  then have "cache_ok B s'" using s'(2) by (auto simp: cache_ok_def)
  moreover have "holds dev block (payload (bufs s' b))" unfolding s'(3) by (simp add: holds_def claimed_def ucast_dev [OF assms(5)])
  ultimately show thesis using that s'(1) by simp
qed

lemma free_scan_ok:
  assumes "cache_ok B s" "free_scan s (free_list s) 0 = Some b"
  shows "b = 0 \<or> b \<in> B"
proof -
  obtain xs where xs: "cache_rep s xs" "set xs = B" using assms(1) by (auto simp: cache_ok_def)
  show ?thesis using best_free_in [of "bufs s" xs 0] free_scan_ring [OF xs(1)] assms(2) xs(2) by auto
qed

section \<open>A small cache\<close>

text \<open>Two buffers that hold no block, with the given dirty flag.\<close>

definition demo_head :: "u8 \<Rightarrow> u32 \<Rightarrow> buffer_head" where
  "demo_head dirt other = \<lparr>b_data = 0, b_blocknr = 0, b_dev = 0, b_uptodate = 0, b_dirt = dirt, b_count = 0, b_lock = 0, b_wait = 0,
     b_prev_hash = 0, b_next_hash = 0, b_prev_free = other, b_next_free = other\<rparr>"

definition demo_cache :: "u8 \<Rightarrow> buffer_state" where
  "demo_cache dirt = \<lparr>tasks_ptr = (\<lambda>_. 0), tstore = (\<lambda>_. task0_init 0 0 0 0), current = 0x10000, jiffies = 0, task0_addr = 0x10000,
     bufs = (\<lambda>_. demo_head 0 0)(0x100 := demo_head dirt 0x200, 0x200 := demo_head dirt 0x100), free_list = 0x100,
     hash_table = (\<lambda>_. 0), buffer_wait = 0, number_of_buffers = 2, messages = []\<rparr>"

lemma demo_cache_rep: "cache_rep (demo_cache dirt) [0x100, 0x200]"
  by (simp add: cache_rep_def ring_links_def no_twins_def demo_cache_def demo_head_def)
    (rule exI [of _ "\<lambda>_. []"], simp add: hash_rep_def)

lemma demo_cache_ok: "cache_ok {0x100, 0x200} (demo_cache dirt)"
  unfolding cache_ok_def by (rule exI [of _ "[0x100, 0x200]"]) (simp add: demo_cache_rep)

lemma demo_cache_empty: "b_dev (bufs (demo_cache dirt) b) = 0" "b_lock (bufs (demo_cache dirt) b) = 0" "b_count (bufs (demo_cache dirt) b) = 0"
  "free_list (demo_cache dirt) = 0x100"
  by (simp_all add: demo_cache_def demo_head_def)

lemma demo_getblk: "\<exists>r. getblk (\<lambda>s. s) 3 7 (demo_cache 0) = Some (Inr r)"
proof -
  let ?s = "demo_cache 0"
  have miss: "\<not> holds 3 7 (bufs ?s b)" for b by (simp add: holds_def demo_cache_empty)
  then have "find_buffer 3 7 ?s = Some 0" by (intro find_buffer_miss [OF demo_cache_rep]) simp_all
  moreover have "free_scan ?s (free_list ?s) 0 = Some 0x100"
    unfolding free_scan_ring [OF demo_cache_rep] by (simp add: demo_cache_def demo_head_def BADNESS_def)
  moreover have "ready (bufs ?s 0x100)" by (simp add: ready_def demo_cache_def demo_head_def)
  moreover obtain s' where "claim_buffer 0x100 3 7 ?s = Inr s'"
    by (rule claim_buffer_ok [OF demo_cache_ok, where b = "0x100" and dev = 3 and block = 7]) (simp_all add: holds_def demo_cache_empty)
  ultimately have "getblk (\<lambda>s. s) 3 7 ?s = Some (Inr (0x100, s'))" by (intro getblk_claims) simp_all
  then show ?thesis by blast
qed

text \<open>A block that is not in the cache takes the first buffer that is ready.\<close>

lemma getblk_takes_first:
  assumes r: "cache_rep s xs" and n: "2 \<le> length xs" and dev: "dev \<noteq> 0" "dev < 0x10000"
    and miss: "\<forall>a \<in> set xs. \<not> holds dev block (bufs s a)" and first: "find (\<lambda>a. ready (bufs s a)) xs = Some a"
  obtains s' where "claim_buffer a dev block s = Inr s'" "getblk others dev block s = Some (Inr (a, s'))"
    "cache_rep s' (remove1 a xs @ [a])" "\<And>p. p \<noteq> a \<Longrightarrow> payload (bufs s' p) = payload (bufs s p)"
    "payload (bufs s' a) = claimed dev block (payload (bufs s a))"
proof -
  obtain as bs where xs: "xs = as @ a # bs" "ready (bufs s a)" "\<forall>x \<in> set as. \<not> ready (bufs s x)"
    using find_first [OF first] by blast
  have scan: "free_scan s (free_list s) 0 = Some a"
    unfolding free_scan_ring [OF r] using best_free_first [of "bufs s" a as 0 bs] xs by simp
  have "xs \<noteq> [a]" "0 \<notin> set xs" using n r by (auto simp: cache_rep_def)
  then have am: "a \<in> set xs" "xs \<noteq> [a]" "a \<noteq> 0" using xs by auto
  obtain s' where s': "claim_buffer a dev block s = Inr s'" "cache_rep s' (remove1 a xs @ [a])"
    "\<And>p. p \<noteq> a \<Longrightarrow> payload (bufs s' p) = payload (bufs s p)" "payload (bufs s' a) = claimed dev block (payload (bufs s a))"
    using claim_buffer_rep [OF r am(1,2) dev miss] by blast
  have "getblk others dev block s = Some (Inr (a, s'))"
    by (rule getblk_claims [OF find_buffer_miss [OF r dev(1) miss] scan am(3) xs(2) s'(1)])
  then show thesis using s' by (intro that)
qed

text \<open>Claiming a buffer touches the heads, the free list and the hash table only.\<close>

definition surroundings :: "'a buffer_state_scheme \<Rightarrow> (string \<times> u32 list) list \<times> u32 \<times> u32 \<times> u32 \<times> 'a" where
  "surroundings s = (messages s, buffer_wait s, current s, task0_addr s, buffer_state.more s)"

lemma surroundings_upd [simp]:
  "surroundings (upd_buf p f s) = surroundings s" "surroundings (s\<lparr>free_list := q\<rparr>) = surroundings s"
  "surroundings (s\<lparr>hash_table := h\<rparr>) = surroundings s"
  by (simp_all add: surroundings_def upd_buf_def)

lemma surroundings_unlink:
  "surroundings (unlink_hash b s) = surroundings s" "unlink_free b s = Inr s' \<Longrightarrow> surroundings s' = surroundings s"
proof -
  show "surroundings (unlink_hash b s) = surroundings s" by (simp add: unlink_hash_def Let_def)
  assume "unlink_free b s = Inr s'"
  then show "surroundings s' = surroundings s" unfolding unlink_free_def Let_def by (auto split: if_split_asm)
qed

lemma surroundings_link: "surroundings (link_free b s) = surroundings s" "surroundings (link_hash b s) = surroundings s"
  by (simp_all add: link_free_def link_hash_def Let_def)

lemma claim_buffer_surroundings: "claim_buffer b dev block s = Inr s' \<Longrightarrow> surroundings s' = surroundings s"
  by (auto simp: claim_buffer_def rbind_eq_Inr remove_from_queues_def insert_into_queues_def surroundings_link surroundings_unlink(1)
    dest!: surroundings_unlink(2))

text \<open>
  C8. When it need not wait, \<open>getblk\<close> is the least-recently-used cache of the specification: it
  returns the buffer the specification names, at once and whatever the other tasks would do, the
  queues stay in order, and the buffers in the order of the free list are what the specification says.
\<close>

theorem getblk_refines_lru:
  assumes r: "cache_rep s xs" and n: "2 \<le> length xs" and dev: "dev \<noteq> 0" "dev < 0x10000"
    and spec: "lru_get dev block (entries s xs) = Some (b, es)"
  shows "\<exists>s'. getblk others dev block s = Some (Inr (b, s')) \<and> cache_rep s' (map fst es) \<and> entries s' (map fst es) = es"
proof -
  have z: "distinct xs" using r by (simp_all add: cache_rep_def ring_links_def)
  obtain p where p: "find_buffer dev block s = Some p"
    "p = 0 \<and> (\<forall>b \<in> set xs. \<not> holds dev block (bufs s b)) \<or> p \<noteq> 0 \<and> p \<in> set xs \<and> holds dev block (bufs s p)"
    using find_buffer_rep [OF r dev(1)] by blast
  show ?thesis
  proof (cases "find (\<lambda>a. holds dev block (bufs s a)) xs")
    case (Some a)
    then have a: "a \<in> set xs" "holds dev block (bufs s a)" by (auto simp: find_Some_iff)
    then have pa: "p = a" "p \<noteq> 0" using p(2) holds_unique [OF r dev(1)] by blast+
    have l: "b = a" "es = use_once a (entries s xs)" "b_lock (bufs s a) = 0"
      using spec Some by (auto simp: lru_get_def find_entries split: if_splits)
    let ?s = "upd_buf a (\<lambda>b. b\<lparr>b_count := b_count b + 1\<rparr>) s"
    have "getblk others dev block s = Some (Inr (b, ?s))"
      using get_hash_table_hit [of dev block s a others] p(1) pa a(2) l(1,3) by (subst getblk.simps) simp
    moreover have "map fst es = xs" by (simp add: l(2) use_once_def entries_def comp_def case_prod_beta)
    moreover have "cache_rep ?s xs" by (rule cache_rep_upd [OF r]) simp
    moreover have "entries ?s xs = es" by (simp add: l(2) use_once_def entries_def payload_def)
    ultimately show ?thesis by auto
  next
    case None
    then have miss: "\<forall>a \<in> set xs. \<not> holds dev block (bufs s a)" by (auto simp: find_None_iff)
    obtain a where a: "find (\<lambda>a. ready (bufs s a)) xs = Some a" "b = a"
      "es = remove1 (a, payload (bufs s a)) (entries s xs) @ [(a, claimed dev block (payload (bufs s a)))]"
      using spec None by (auto simp: lru_get_def find_entries split: option.splits)
    obtain s' where s': "getblk others dev block s = Some (Inr (b, s'))" "cache_rep s' (remove1 a xs @ [a])"
      "\<And>p. p \<noteq> a \<Longrightarrow> payload (bufs s' p) = payload (bufs s p)" "payload (bufs s' a) = claimed dev block (payload (bufs s a))"
      using getblk_takes_first [OF r n dev miss a(1)] unfolding a(2) by blast
    have es: "es = entries s (remove1 a xs) @ [(a, claimed dev block (payload (bufs s a)))]" by (simp add: a(3) remove1_entries)
    moreover have "map fst es = remove1 a xs @ [a]" by (simp add: es entries_def comp_def)
    moreover have "entries s' (remove1 a xs @ [a]) = es" using s'(3,4) z by (auto simp: es entries_def)
    ultimately show ?thesis using s'(1,2) by auto
  qed
qed

theorem getblk_refines_lru_witness:
  "\<exists>s'. getblk (\<lambda>s. s) 3 7 (demo_cache 0) = Some (Inr (0x100, s')) \<and> cache_rep s' [0x200, 0x100] \<and>
    holds 3 7 (bufs s' 0x100)"
proof -
  have "lru_get 3 7 (entries (demo_cache 0) [0x100, 0x200]) =
      Some (0x100, [(0x200, payload (demo_head 0 0x100)), (0x100, claimed 3 7 (payload (demo_head 0 0x200)))])"
    by (simp add: lru_get_def entries_def holds_def ready_def demo_cache_def demo_head_def payload_def)
  from getblk_refines_lru [OF demo_cache_rep _ _ _ this, of "\<lambda>s. s"] obtain s' where
    s': "getblk (\<lambda>s. s) 3 7 (demo_cache 0) = Some (Inr (0x100, s'))" "cache_rep s' [0x200, 0x100]"
    "payload (bufs s' 0x100) = claimed 3 7 (payload (demo_head 0 0x200))" by (auto simp: entries_def)
  have "holds 3 7 (payload (bufs s' 0x100))" unfolding s'(3) by (simp add: holds_def claimed_def)
  then show ?thesis using s'(1,2) by simp
qed

definition got :: "u32 set \<Rightarrow> i32 \<Rightarrow> u32 \<Rightarrow> (u32 \<times> 'a buffer_state_scheme) kresult \<Rightarrow> bool" where
  "got B dev block r \<longleftrightarrow> (case r of Inl e \<Rightarrow> e = task0_sleeps
     | Inr (b, s') \<Rightarrow> cache_ok B s' \<and> (b = 0 \<or> b \<in> B \<and> holds dev block (bufs s' b)))"

lemma got_simps [simp]:
  "got B dev block (Inl e) \<longleftrightarrow> e = task0_sleeps"
  "got B dev block (Inr (b, s)) \<longleftrightarrow> cache_ok B s \<and> (b = 0 \<or> b \<in> B \<and> holds dev block (bufs s b))"
  by (simp_all add: got_def)

lemma try_claim_ok:
  assumes "others_keep B others" "try_claim others dev block b s = Some r" "cache_ok B s" "b \<in> B" "2 \<le> card B" "dev \<noteq> 0" "dev < 0x10000"
  shows "got B dev block r"
  using assms(2) unfolding try_claim_def
proof (cases rule: obind_cases)
  case (error e)
  then show ?thesis using wait_on_buffer_ok [OF assms(1) error(1) assms(3)] by simp
next
  case (ok s1)
  have ok1: "cache_ok B s1" using wait_on_buffer_ok [OF assms(1) ok(1) assms(3)] by simp
  show ?thesis
  proof (cases "b_count (bufs s1 b) = 0")
    case False
    then show ?thesis using ok(2) ok1 by auto
  next
    case True
    then have "obind (sync_loop others b s1) (\<lambda>(again, s2). if again then Some (Inr (0, s2))
         else Option.bind (find_buffer dev block s2) (\<lambda>p. if p \<noteq> 0 then Some (Inr (0, s2))
           else Some (rbind (claim_buffer b dev block s2) (\<lambda>s3. Inr (b, s3))))) = Some r" using ok(2) by simp
    then show ?thesis
    proof (cases rule: obind_cases)
      case (error e)
      then show ?thesis using sync_loop_ok [OF assms(1) error(1) ok1] by simp
    next
      case (ok d)
      obtain ag s2 where d: "d = (ag, s2)" by (cases d)
      have ok2: "cache_ok B s2" using sync_loop_ok [OF assms(1) ok(1) ok1] by (simp add: d)
      show ?thesis
      proof (cases "ag \<or> find_buffer dev block s2 \<noteq> Some 0")
        case True
        then show ?thesis using ok(2) ok2 by (cases "find_buffer dev block s2") (auto simp: d split: if_splits)
      next
        case False
        then have "\<forall>a \<in> B. \<not> holds dev block (bufs s2 a)" using find_buffer_ok [OF ok2 assms(6), of block 0] by simp
        then obtain s3 where "claim_buffer b dev block s2 = Inr s3" "cache_ok B s3" "holds dev block (bufs s3 b)"
          using claim_buffer_ok [OF ok2 assms(4-7)] by blast
        then show ?thesis using ok(2) False assms(4) by (auto simp: d)
      qed
    qed
  qed
qed

lemma search_free_ok:
  assumes "others_keep B others" "search_free others dev block s = Some r" "cache_ok B s" "2 \<le> card B" "dev \<noteq> 0" "dev < 0x10000"
  shows "got B dev block r"
proof -
  obtain b where b: "free_scan s (free_list s) 0 = Some b"
    using assms(2) by (cases "free_scan s (free_list s) 0") (auto simp: search_free_def)
  show ?thesis
  proof (cases "b = 0")
    case True
    then show ?thesis using assms(2) b sleep_on_any_ok [OF assms(1,3)]
      by (cases "sleep_on_any others s") (auto simp: search_free_def)
  next
    case False
    then have "b \<in> B" using free_scan_ok [OF assms(3) b] by simp
    then show ?thesis using assms(2) b False try_claim_ok [OF assms(1) _ assms(3) _ assms(4-6), of block b r]
      by (simp add: search_free_def)
  qed
qed

text \<open>
  C7. Whatever \<open>getblk\<close> has to wait for, and whatever the other tasks do meanwhile that keeps the
  queues in order, the queues are in order when it returns and the buffer it returns holds the block
  asked for. The one way it can fail is that task 0 has to wait.
\<close>

theorem getblk_returns_the_block:
  assumes "others_keep B others" "getblk others dev block s = Some r" "cache_ok B s" "2 \<le> card B" "dev \<noteq> 0" "dev < 0x10000"
  shows "case r of Inl e \<Rightarrow> e = Panic ''task[0] trying to sleep''
    | Inr (b, s') \<Rightarrow> cache_ok B s' \<and> b \<in> B \<and> holds dev block (bufs s' b)"
  using assms(2,1,3-)
proof (induction others dev block s r rule: getblk.raw_induct [rotated, consumes 1, case_names step])
  case (step w others dev block s r)
  show ?case using step(2)
  proof (cases rule: obind_cases)
    case (error e)
    then show ?thesis using get_hash_table_ok [OF step.prems(1) error(1) step.prems(2,4)] by simp
  next
    case (ok a)
    obtain p s1 where a: "a = (p, s1)" by (cases a)
    note h = get_hash_table_ok [OF step.prems(1) ok(1) step.prems(2,4), unfolded a]
    show ?thesis
    proof (cases "p = 0")
      case False
      then have "r = Inr (p, s1)" using ok(2) by (simp add: a)
      then show ?thesis using h False by simp
    next
      case True
      then have search: "obind (search_free others dev block s1) (\<lambda>(bh, s2). if bh = 0 then w others dev block s2 else Some (Inr (bh, s2))) = Some r"
        and ok1: "cache_ok B s1" using ok(2) h by (simp_all add: a)
      from search show ?thesis
      proof (cases rule: obind_cases)
        case (error e)
        then show ?thesis using search_free_ok [OF step.prems(1) error(1) ok1 step.prems(3-5)] by simp
      next
        case (ok c)
        obtain b s2 where c: "c = (b, s2)" by (cases c)
        note g = search_free_ok [OF step.prems(1) ok(1) ok1 step.prems(3-5), unfolded c got_simps]
        show ?thesis
        proof (cases "b = 0")
          case True
          then show ?thesis using step.IH [of others dev block s2 r] step.prems g ok(2) by (simp add: c)
        next
          case False
          then have "r = Inr (b, s2)" using ok(2) by (simp add: c)
          then show ?thesis using g False by simp
        qed
      qed
    qed
  qed
qed

theorem getblk_returns_the_block_witness:
  "\<exists>b s'. getblk (\<lambda>s. s) 3 7 (demo_cache 0) = Some (Inr (b, s')) \<and> cache_ok {0x100, 0x200} s' \<and> holds 3 7 (bufs s' b)"
proof -
  obtain c where r: "getblk (\<lambda>s. s) 3 7 (demo_cache 0) = Some (Inr c)" using demo_getblk by blast
  have "case Inr c :: (u32 \<times> buffer_state) kresult of Inl e \<Rightarrow> e = Panic ''task[0] trying to sleep''
    | Inr (b, s') \<Rightarrow> cache_ok {0x100, 0x200} s' \<and> b \<in> {0x100, 0x200} \<and> holds 3 7 (bufs s' b)"
    by (rule getblk_returns_the_block [OF _ r demo_cache_ok]) (simp_all add: others_keep_def)
  then show ?thesis using r by (cases c) auto
qed

section \<open>A cache with nothing but dirty buffers\<close>

lemma sync_loop_spins:
  assumes "sync_loop others b s = Some r" "b_dirt (bufs s b) = 1" "b_lock (bufs s b) = 0" "b_count (bufs s b) = 0"
  shows False
  using assms
proof (induction others b s r rule: sync_loop.raw_induct [rotated, consumes 1, case_names step])
  case (step w others b s r)
  then show ?case by (simp add: wait_unlocked)
qed

text \<open>
  C34. \<open>getblk\<close> never returns when the block is not in the cache and every buffer that nobody uses is dirty
  and unlocked: \<open>sync_dev\<close> does nothing, and the loop around it never ends, whatever the other tasks
  would do.
\<close>

theorem getblk_spins_on_dirty_buffers:
  assumes r: "cache_rep s xs" and dev: "dev \<noteq> 0" and miss: "\<forall>b \<in> set xs. \<not> holds dev block (bufs s b)"
    and dirty: "\<forall>b \<in> set xs. b_count (bufs s b) = 0 \<longrightarrow> b_dirt (bufs s b) = 1 \<and> b_lock (bufs s b) = 0"
    and unused: "\<exists>b \<in> set xs. b_count (bufs s b) = 0"
  shows "getblk others dev block s = None"
proof -
  have miss: "get_hash_table others dev block s = Some (Inr (0, s))"
    by (rule get_hash_table_miss [OF find_buffer_miss [OF r dev miss]])
  define b where "b = best_free (bufs s) xs 0"
  have b0: "b \<noteq> 0" unfolding b_def using r unused by (intro best_free_found) (auto simp: cache_rep_def)
  then have b: "b \<in> set xs" "b_count (bufs s b) = 0" using best_free_in [of "bufs s" xs 0] by (auto simp: b_def)
  then have d: "b_dirt (bufs s b) = 1" "b_lock (bufs s b) = 0" using dirty by blast+
  have "sync_loop others b s = None" using sync_loop_spins [OF _ d b(2)] by fastforce
  then have "search_free others dev block s = None"
    using b0 b(2) d by (simp add: search_free_def free_scan_ring [OF r] b_def [symmetric] try_claim_def wait_unlocked)
  then show ?thesis by (subst getblk.simps) (simp add: miss)
qed

theorem getblk_spins_on_dirty_buffers_witness: "getblk (\<lambda>s. s) 3 7 (demo_cache 1) = None"
  by (rule getblk_spins_on_dirty_buffers [OF demo_cache_rep]) (simp_all add: holds_def demo_cache_def demo_head_def)

end
