(* ===== verification/Cache_Boot.thy ===== *)
theory Cache_Boot
  imports Cache_Order
begin

text \<open>
  The buffer cache from its start: what \<open>buffer_init\<close> builds between 1 MB and 4 MB, and the first block
  that is read into it.
\<close>

section \<open>The loop of \<open>buffer_init\<close>\<close>

definition head_at :: "nat \<Rightarrow> u32" where "head_at i = of_nat (0x100000 + 36 * i)"
definition data_at :: "nat \<Rightarrow> u32" where "data_at i = of_nat (0x400000 - 1024 * Suc i)"

text \<open>The number of heads and blocks of 36 + 1024 bytes that fit into the 3 MB.\<close>

definition boot_buffers :: nat where "boot_buffers = 2967"

primrec filled :: "'a buffer_state_scheme \<Rightarrow> nat \<Rightarrow> 'a buffer_state_scheme" where
  "filled s 0 = s"
| "filled s (Suc k) =
     (upd_buf (head_at k) (fresh_head (head_at k) (data_at k)) (filled s k))\<lparr>number_of_buffers := number_of_buffers (filled s k) + 1\<rparr>"

lemma unat_head: "i \<le> 3000 \<Longrightarrow> unat (head_at i) = 0x100000 + 36 * i"
  unfolding head_at_def by (rule unat_of_nat_small) simp

lemma unat_data: "i < 3000 \<Longrightarrow> unat (data_at i) = 0x400000 - 1024 * Suc i"
  unfolding data_at_def by (rule unat_of_nat_small) simp

lemma head_inj: "i \<le> 3000 \<Longrightarrow> j \<le> 3000 \<Longrightarrow> head_at i = head_at j \<longleftrightarrow> i = j"
  unfolding word_unat_eq_iff by (simp add: unat_head)

lemma head_Suc: "head_at i + 36 = head_at (Suc i)" "head_at (Suc i) - 36 = head_at i"
  by (simp_all add: head_at_def)

definition end_at :: "nat \<Rightarrow> u32" where "end_at k = of_nat (0x400000 - 1024 * k)"

lemma init_loop_next:
  assumes "k < 3000"
  shows "init_loop (head_at k) (end_at k) t = (if data_at k < head_at (Suc k) then Some (head_at k, t)
    else init_loop (head_at (Suc k)) (end_at (Suc k))
      ((upd_buf (head_at k) (fresh_head (head_at k) (data_at k)) t)\<lparr>number_of_buffers := number_of_buffers t + 1\<rparr>))"
proof -
  have "end_at k - BLOCK_SIZE = data_at k" using assms by (simp add: end_at_def data_at_def BLOCK_SIZE_def of_nat_diff)
  moreover have "end_at (Suc k) = data_at k" by (simp add: end_at_def data_at_def)
  moreover have "number_of_buffers (upd_buf p f t) = number_of_buffers t" for p f by simp
  ultimately show ?thesis by (subst init_loop.simps) (simp add: Let_def sizeof_buffer_head_def head_Suc)
qed

lemma init_loop_steps:
  "k \<le> boot_buffers \<Longrightarrow> init_loop (head_at 0) (end_at 0) s = init_loop (head_at k) (end_at k) (filled s k)"
proof (induction k)
  case (Suc k)
  have k: "k < 2967" using Suc.prems by (simp add: boot_buffers_def)
  have "\<not> data_at k < head_at (Suc k)" using k by (simp add: word_less_nat_alt unat_head unat_data)
  then show ?case using Suc k by (simp add: init_loop_next)
qed simp

lemma init_loop_result: "init_loop buf_start_addr 0x400000 s = Some (head_at boot_buffers, filled s boot_buffers)"
proof -
  have "data_at boot_buffers < head_at (Suc boot_buffers)" by (simp add: word_less_nat_alt unat_head unat_data boot_buffers_def)
  moreover have "buf_start_addr = head_at 0" "0x400000 = end_at 0" by (simp_all add: buf_start_addr_def head_at_def end_at_def)
  moreover have "boot_buffers < 3000" by (simp add: boot_buffers_def)
  ultimately show ?thesis using init_loop_steps [OF order_refl, of s] by (simp add: init_loop_next)
qed

lemma filled_fields:
  "free_list (filled s k) = free_list s" "hash_table (filled s k) = hash_table s" "messages (filled s k) = messages s"
  "number_of_buffers (filled s k) = number_of_buffers s + of_nat k"
  by (induction k) (simp_all add: algebra_simps)

lemma filled_bufs:
  "k \<le> 3000 \<Longrightarrow> i < k \<Longrightarrow> bufs (filled s k) (head_at i) = fresh_head (head_at i) (data_at i) (bufs s (head_at i))"
proof (induction k)
  case (Suc k)
  have "bufs (filled s k) (head_at k) = bufs s (head_at k)"
  proof -
    have "j \<le> k \<Longrightarrow> bufs (filled s j) (head_at k) = bufs s (head_at k)" for j
      using Suc.prems by (induction j) (simp_all add: head_inj)
    then show ?thesis by simp
  qed
  then show ?case using Suc by (cases "i = k") (simp_all add: head_inj)
qed simp

text \<open>The state \<open>buffer_init\<close> leaves.\<close>

definition booted :: "'a buffer_state_scheme \<Rightarrow> 'a buffer_state_scheme" where
  "booted s =
     (let s1 = (filled s boot_buffers)\<lparr>free_list := head_at 0\<rparr>;
          s2 = upd_buf (head_at 0) (\<lambda>b. b\<lparr>b_prev_free := head_at (boot_buffers - 1)\<rparr>) s1;
          s3 = upd_buf (head_at (boot_buffers - 1)) (\<lambda>b. b\<lparr>b_next_free := head_at 0\<rparr>) s2;
          s4 = s3\<lparr>hash_table := \<lambda>i. if i < NR_HASH then 0 else hash_table s3 i\<rparr>
      in print_message ''init %d buffers'' [number_of_buffers s4] s4)"

lemma buffer_init_booted: "buffer_init 0x400000 s = Some (booted s)"
proof -
  have "head_at boot_buffers - sizeof_buffer_head = head_at (boot_buffers - 1)" "buf_start_addr = head_at 0"
    using head_Suc(2) [of "boot_buffers - 1"] by (simp_all add: boot_buffers_def sizeof_buffer_head_def buf_start_addr_def head_at_def)
  then show ?thesis using init_loop_result [of s] by (simp add: buffer_init_def booted_def Let_def cong: if_cong)
qed

lemma booted_fields:
  "free_list (booted s) = head_at 0" "h < NR_HASH \<Longrightarrow> hash_table (booted s) h = 0"
  "number_of_buffers (booted s) = number_of_buffers s + of_nat boot_buffers"
  by (simp_all add: booted_def Let_def print_message_def filled_fields)

lemma booted_bufs:
  assumes i: "i < boot_buffers"
  shows "bufs (booted s) (head_at i) = (fresh_head (head_at i) (data_at i) (bufs s (head_at i)))
     \<lparr>b_prev_free := if i = 0 then head_at (boot_buffers - 1) else head_at (i - 1),
      b_next_free := if i = boot_buffers - 1 then head_at 0 else head_at (Suc i)\<rparr>"
proof -
  have f: "bufs (filled s boot_buffers) (head_at i) = fresh_head (head_at i) (data_at i) (bufs s (head_at i))"
    using i by (intro filled_bufs) (simp_all add: boot_buffers_def)
  have p: "head_at i - 36 = head_at (i - 1)" if "i \<noteq> 0" using head_Suc(2) [of "i - 1"] that by simp
  have n: "head_at i = head_at 0 \<longleftrightarrow> i = 0" "head_at i = head_at (boot_buffers - 1) \<longleftrightarrow> i = boot_buffers - 1" "boot_buffers - 1 \<noteq> 0"
    "head_at 0 \<noteq> head_at (boot_buffers - 1)" using i by (auto simp: head_inj boot_buffers_def)
  show ?thesis using f n p by (auto simp: booted_def Let_def print_message_def fresh_head_def sizeof_buffer_head_def head_Suc)
qed

section \<open>The cache at boot\<close>

lemma links_map:
  "(\<And>i. i < n \<Longrightarrow> nx (f i) = f (Suc i) \<and> pv (f (Suc i)) = f i) \<Longrightarrow> links nx pv (map f [0..<Suc n])"
proof (induction n)
  case (Suc n)
  have "links nx pv (map f [0..<Suc n])" using Suc by simp
  moreover have "links nx pv [f n, f (Suc n)]" using Suc.prems [of n] by simp
  ultimately have "links nx pv (map f [0..<n] @ f n # [f (Suc n)])" using links_append [of nx pv "map f [0..<n]" "f n" "[f (Suc n)]"] by simp
  then show ?case by simp
qed simp

lemma ring_links_map:
  assumes "0 < n" "inj_on f {..<n}" "\<And>i. i < n \<Longrightarrow> nx (f i) = f (Suc i mod n) \<and> pv (f (Suc i mod n)) = f i"
  shows "ring_links nx pv (map f [0..<n])"
proof -
  have "links nx pv (map (\<lambda>i. f (i mod n)) [0..<Suc n])" using assms(3) by (intro links_map) simp
  moreover have "map (\<lambda>i. f (i mod n)) [0..<n] = map f [0..<n]" by simp
  moreover have "hd (map f [0..<n]) = f 0" using assms(1) by (simp add: hd_map)
  ultimately have "links nx pv (map f [0..<n] @ [hd (map f [0..<n])])" by simp
  moreover have "distinct (map f [0..<n])" using assms(2) by (simp add: distinct_map atLeast0LessThan)
  ultimately show ?thesis using assms(1) by (simp add: ring_links_def)
qed

definition boot_list :: "u32 list" where "boot_list = map head_at [0..<boot_buffers]"

lemma boot_list_facts: "hd boot_list = head_at 0" "0 \<notin> set boot_list" "length boot_list = boot_buffers" "head_at 0 \<in> set boot_list"
proof -
  have "0 < boot_buffers" by (simp add: boot_buffers_def)
  then show "hd boot_list = head_at 0" "head_at 0 \<in> set boot_list" by (simp_all add: boot_list_def hd_map)
  show "length boot_list = boot_buffers" by (simp add: boot_list_def)
  have "head_at i \<noteq> 0" if "i < boot_buffers" for i using that unat_head [of i] by (auto simp: boot_buffers_def)
  then show "0 \<notin> set boot_list" by (auto simp: boot_list_def)
qed

lemma booted_member:
  assumes "b \<in> set boot_list"
  shows "ready (bufs (booted s) b)" "b_dev (bufs (booted s) b) = 0" "next_hash (booted s) b = 0" "prev_hash (booted s) b = 0"
proof -
  obtain i where "i < boot_buffers" "b = head_at i" using assms by (auto simp: boot_list_def)
  then show "ready (bufs (booted s) b)" "b_dev (bufs (booted s) b) = 0" "next_hash (booted s) b = 0" "prev_hash (booted s) b = 0"
    by (simp_all add: booted_bufs fresh_head_def ready_def)
qed

lemma booted_rep: "cache_rep (booted s) boot_list"
proof -
  have N: "0 < boot_buffers" "boot_buffers \<le> 3000" by (simp_all add: boot_buffers_def)
  have "ring_links (next_free (booted s)) (prev_free (booted s)) boot_list" unfolding boot_list_def
  proof (rule ring_links_map [OF N(1)])
    show "inj_on head_at {..<boot_buffers}" using N by (auto simp: inj_on_def head_inj)
    fix i assume i: "i < boot_buffers"
    have m: "Suc i mod boot_buffers = (if i = boot_buffers - 1 then 0 else Suc i)" using i by auto
    have "Suc i mod boot_buffers < boot_buffers" using N(1) by (rule mod_less_divisor)
    then show "next_free (booted s) (head_at i) = head_at (Suc i mod boot_buffers) \<and>
        prev_free (booted s) (head_at (Suc i mod boot_buffers)) = head_at i" using i by (auto simp: booted_bufs m)
  qed
  moreover have "hash_rep (booted s) boot_list (\<lambda>_. [])" by (simp add: hash_rep_def booted_fields booted_member)
  moreover have "no_twins (booted s) boot_list" by (simp add: no_twins_def booted_member)
  ultimately show ?thesis using boot_list_facts by (auto simp: cache_rep_def booted_fields)
qed

text \<open>
  C21. At boot \<open>buffer_init\<close> ends, with 2967 buffers in a ring in the order of their heads, all
  ready and no block in the hash table. The blocks lie one below the other under 4 MB and end above the
  last head: no block overlaps another or a head.
\<close>

theorem boot_builds_cache:
  "\<exists>s'. buffer_init 0x400000 s = Some s' \<and> cache_rep s' (map (\<lambda>i. of_nat (0x100000 + 36 * i)) [0..<2967]) \<and>
    number_of_buffers s' = number_of_buffers s + 2967 \<and>
    list_all (\<lambda>b. ready (bufs s' b) \<and> b_dev (bufs s' b) = 0) (map (\<lambda>i. of_nat (0x100000 + 36 * i)) [0..<2967]) \<and>
    map (\<lambda>i. unat (b_data (bufs s' (of_nat (0x100000 + 36 * i))))) [0..<2967] = map (\<lambda>i. 0x400000 - 1024 * Suc i) [0..<2967] \<and>
    0x100000 + 36 * 2967 \<le> (0x400000 - 1024 * Suc 2966 :: nat)"
proof -
  have l: "boot_list = map (\<lambda>i. of_nat (0x100000 + 36 * i)) [0..<2967]"
    unfolding boot_list_def boot_buffers_def by (rule map_cong [OF refl]) (simp only: head_at_def)
  have "b_data (bufs (booted s) (of_nat (0x100000 + 36 * i))) = data_at i" if "i \<in> set [0..<2967]" for i
    unfolding head_at_def [symmetric] using that by (simp add: booted_bufs boot_buffers_def fresh_head_def)
  then have "map (\<lambda>i. unat (b_data (bufs (booted s) (of_nat (0x100000 + 36 * i))))) [0..<2967] =
      map (\<lambda>i. 0x400000 - 1024 * Suc i) [0..<2967]"
    by (intro map_cong refl) (simp add: unat_data del: upt_rec_numeral of_nat_add)
  moreover have "list_all (\<lambda>b. ready (bufs (booted s) b) \<and> b_dev (bufs (booted s) b) = 0) boot_list"
    by (auto simp: list_all_iff booted_member)
  moreover have "number_of_buffers (booted s) = number_of_buffers s + 2967" by (simp add: booted_fields boot_buffers_def)
  ultimately show ?thesis using buffer_init_booted [of s] booted_rep [of s] unfolding l by (intro exI [of _ "booted s"]) simp
qed

section \<open>The first block\<close>

lemma remove_keeps_null_heads:
  assumes "cache_rep s xs" "b \<in> set xs" "xs \<noteq> [b]" "\<And>h. h < NR_HASH \<Longrightarrow> hash_table s h = 0" "remove_from_queues b s = Inr s'" "h < NR_HASH"
  shows "hash_table s' h = 0"
proof -
  have z: "0 \<notin> set xs" using assms(1) by (simp add: cache_rep_def)
  obtain C where C: "hash_rep s xs C" using assms(1) by (auto simp: cache_rep_def)
  note nb = hash_neighbours [OF C assms(2) z]
  have b0: "b \<noteq> 0" using assms(2) z by blast
  have "hash_table (unlink_hash b s) h = 0" using assms(4,6) b0 unlink_hash_head [OF C assms(2) z assms(6)] by simp
  moreover have "hash_table s' = hash_table (unlink_hash b s)"
    using assms(5) by (auto simp: remove_from_queues_def unlink_free_def Let_def split: if_splits)
  ultimately show ?thesis by simp
qed

text \<open>Until it enters the hash chain the claimed buffer leaves whatever lies at address 0 alone.\<close>

lemma remove_keeps_null:
  assumes "cache_rep s xs" "b \<in> set xs" "xs \<noteq> [b]" "next_hash s b = 0" "prev_hash s b = 0" "remove_from_queues b s = Inr s'"
  shows "bufs s' 0 = bufs s 0"
proof -
  have "bufs (unlink_hash b s) = bufs s" using assms(4,5) by (simp add: unlink_hash_def Let_def)
  moreover have "next_free s b \<noteq> 0" "prev_free s b \<noteq> 0" "prev_free s b \<noteq> b"
    using assms(1) ring_unlink(3-6) [of "next_free s" "prev_free s" xs b] assms(2,3) unfolding cache_rep_def by metis+
  ultimately show ?thesis using assms(6) by (auto simp: remove_from_queues_def unlink_free_def Let_def split: if_splits)
qed

lemma link_free_keeps_null:
  assumes "cache_rep s xs" "b \<notin> set xs" "b \<noteq> 0"
  shows "bufs (link_free b s) 0 = bufs s 0"
proof -
  have x: "ring_links (next_free s) (prev_free s) xs" "hd xs = free_list s" "0 \<notin> set xs" using assms(1) by (simp_all add: cache_rep_def)
  then have "xs \<noteq> []" by (simp add: ring_links_def)
  then have "free_list s \<in> set xs" "prev_free s (free_list s) \<in> set xs" using ring_last [OF x(1)] by (simp_all flip: x(2))
  then have "free_list s \<noteq> 0" "prev_free s (free_list s) \<noteq> 0" "free_list s \<noteq> b" "prev_free s (free_list s) \<noteq> b"
    using x(3) assms(2) by metis+
  then show ?thesis using assms(3) by (simp add: link_free_def Let_def)
qed

text \<open>
  The first block read after boot gets the buffer at 1 MB; the last thing that is done with it is to enter it into the
  hash chain, which is empty as all the others.
\<close>

lemma first_block_claimed:
  assumes "buffer_init 0x400000 s = Some s1" "dev \<noteq> 0" "dev < 0x10000"
  obtains t where "getblk others dev block s1 = Some (Inr (0x100000, link_hash 0x100000 t))"
    "cache_rep (link_hash 0x100000 t) (tl boot_list @ [0x100000])"
    "bufs t 0 = bufs s1 0" "b_dev (bufs t 0x100000) \<noteq> 0" "\<And>h. h < NR_HASH \<Longrightarrow> hash_table t h = 0"
proof -
  let ?b = "head_at 0"
  have s1: "s1 = booted s" using assms(1) buffer_init_booted [of s] by simp
  note r = booted_rep [of s, folded s1] and m = booted_member [of _ s, folded s1] and l = boot_list_facts
  have n: "\<not> holds dev block (bufs s1 a)" if "a \<in> set boot_list" for a using m(2) [OF that] assms(2) by (auto simp: holds_def)
  then have miss: "find_buffer dev block s1 = Some 0"
    by (intro find_buffer_miss [OF r assms(2)]) blast
  have "boot_list \<noteq> []" using l(4) by auto
  then have bl: "boot_list = ?b # tl boot_list" using l(1) by (metis list.collapse)
  have scan: "free_scan s1 (free_list s1) 0 = Some ?b"
    using free_scan_ring [OF r] best_free_first [of "bufs s1" ?b "[]" 0 "tl boot_list"] m(1) [OF l(4)] bl by simp
  have ne: "boot_list \<noteq> [?b]"
  proof
    assume "boot_list = [?b]"
    then have "length boot_list = 1" by (rule ssubst) simp
    then show False using l(3) by (simp add: boot_buffers_def)
  qed
  have b0: "?b \<noteq> 0" "?b = 0x100000" by (simp_all add: head_at_def)
  obtain s2 where s2: "claim_buffer ?b dev block s1 = Inr s2" "cache_rep s2 (remove1 ?b boot_list @ [?b])"
    using claim_buffer_rep [OF r l(4) ne assms(2,3)] n by blast
  let ?t = "upd_buf ?b (\<lambda>b. b\<lparr>b_count := 1, b_dirt := 0, b_uptodate := 0\<rparr>) s1"
  obtain t1 where t1: "remove_from_queues ?b ?t = Inr t1"
    "s2 = insert_into_queues ?b (upd_buf ?b (\<lambda>b. b\<lparr>b_dev := ucast dev, b_blocknr := block\<rparr>) t1)"
    using s2(1) by (auto simp: claim_buffer_def rbind_eq_Inr)
  let ?u = "upd_buf ?b (\<lambda>b. b\<lparr>b_dev := ucast dev, b_blocknr := block\<rparr>) t1"
  have rt: "cache_rep ?t boot_list" by (rule cache_rep_upd [OF r]) simp
  obtain t1' where "remove_from_queues ?b ?t = Inr t1'" "cache_rep t1' (remove1 ?b boot_list)"
    by (rule remove_from_queues_rep [OF rt l(4) ne])
  then have r1: "cache_rep t1 (remove1 ?b boot_list)" using t1(1) by simp
  have nb: "?b \<notin> set (remove1 ?b boot_list)" using r by (simp add: cache_rep_def ring_links_def)
  have ru: "cache_rep ?u (remove1 ?b boot_list)" by (rule cache_rep_upd [OF r1]) (use nb in blast)
  have null: "hash_table t1 h = 0" if "h < NR_HASH" for h
    by (rule remove_keeps_null_heads [OF rt l(4) ne _ t1(1) that]) (simp add: s1 booted_fields)
  show thesis
  proof (rule that [of "link_free ?b ?u", folded b0(2)])
    show "getblk others dev block s1 = Some (Inr (?b, link_hash ?b (link_free ?b ?u)))"
      using getblk_claims [OF miss scan b0(1) m(1) [OF l(4)] s2(1)] by (simp add: t1(2) insert_into_queues_def)
    have "remove1 ?b boot_list = tl boot_list" by (subst bl) simp
    then show "cache_rep (link_hash ?b (link_free ?b ?u)) (tl boot_list @ [?b])" using s2(2) by (simp add: t1(2) insert_into_queues_def)
    have "next_hash ?t ?b = 0" "prev_hash ?t ?b = 0"
      using booted_bufs [of 0 s] by (simp_all add: s1 fresh_head_def boot_buffers_def)
    then have "bufs t1 0 = bufs ?t 0" by (rule remove_keeps_null [OF rt l(4) ne _ _ t1(1)])
    then show "bufs (link_free ?b ?u) 0 = bufs s1 0" using link_free_keeps_null [OF ru nb b0(1)] b0(1) by simp
    have "b_dev (bufs (link_free ?b ?u) ?b) = ucast dev" by (simp add: link_free_def Let_def)
    moreover have "(ucast dev :: u16) \<noteq> 0" using ucast_dev [OF assms(3)] assms(2) by (metis ucast_0)
    ultimately show "b_dev (bufs (link_free ?b ?u) ?b) \<noteq> 0" by simp
    have "hash_table (link_free ?b ?u) = hash_table t1" by (simp add: link_free_def Let_def)
    then show "hash_table (link_free ?b ?u) h = 0" if "h < NR_HASH" for h using null [OF that] by simp
  qed
qed

end
