(* ===== verification/Phys_Memory.thy ===== *)
theory Phys_Memory
  imports Segments
begin

text \<open>
  The physical page allocator and the page tables of mm/memory.c, with the memory set-up of
  \<open>main()\<close>. Physical memory is addressed by double words, the unit of every page-table access:
  it is kept as page frames of 1024 double words, so that an address splits into its frame
  (bits 31..12) and its double-word index (bits 11..2). The kernel identity-maps the 16 MB it
  uses (head.s), so its pointers are physical addresses.
\<close>

section \<open>State\<close>

type_synonym phys_mem = "u32 \<Rightarrow> u32 \<Rightarrow> u32"

definition frame_of :: "u32 \<Rightarrow> u32" where "frame_of a = drop_bit 12 a"
definition dword_of :: "u32 \<Rightarrow> u32" where "dword_of a = drop_bit 2 a AND 0x3FF"

definition rd32 :: "phys_mem \<Rightarrow> u32 \<Rightarrow> u32" where
  "rd32 m a = m (frame_of a) (dword_of a)"

definition wr32 :: "phys_mem \<Rightarrow> u32 \<Rightarrow> u32 \<Rightarrow> phys_mem" where
  "wr32 m a v = m(frame_of a := (m (frame_of a))(dword_of a := v))"

text \<open>Filling one page with zeroes byte by byte, and \<open>copy_page\<close> (\<open>rep movsl\<close> of 1024 double words).\<close>

definition zero_page :: "phys_mem \<Rightarrow> u32 \<Rightarrow> phys_mem" where
  "zero_page m p = m(frame_of p := (\<lambda>_. 0))"

definition copy_page :: "phys_mem \<Rightarrow> u32 \<Rightarrow> u32 \<Rightarrow> phys_mem" where
  "copy_page m from to = m(frame_of to := m (frame_of from))"

record mm_state =
  mem_map :: "nat \<Rightarrow> u8"
  mem_end_addr :: u32
  pmem :: phys_mem

definition LOW_MEM :: u32 where "LOW_MEM = 0x100000"
definition EXT_MEM_SIZE_LIMIT :: u32 where "EXT_MEM_SIZE_LIMIT = 15 * 1024 * 1024"
definition PAGING_PAGES :: nat where "PAGING_PAGES = 3840"
definition NOT_EXIST :: u8 where "NOT_EXIST = 100"
definition MAP_INDEX :: "u32 \<Rightarrow> nat" where "MAP_INDEX addr = unat ((addr - LOW_MEM) div 4096)"

definition ENOMEM :: i32 where "ENOMEM = 12"

section \<open>The page allocator\<close>

definition page_addr :: "nat \<Rightarrow> u32" where "page_addr i = 0x1000 * of_nat i + LOW_MEM"

definition get_free_page :: "mm_state \<Rightarrow> u32 \<times> mm_state" where
  "get_free_page s =
     (let i = scan_up (\<lambda>i. mem_map s i = 0) 0 PAGING_PAGES
      in if i = PAGING_PAGES then (0, s)
         else (page_addr i,
               s\<lparr>mem_map := (mem_map s)(i := mem_map s i + 1), pmem := zero_page (pmem s) (page_addr i)\<rparr>))"

definition free_page :: "u32 \<Rightarrow> mm_state \<Rightarrow> mm_state kresult" where
  "free_page addr s =
     (if addr < LOW_MEM then Inl (Panic ''free addr < 1MB'')
      else if addr \<ge> LOW_MEM + EXT_MEM_SIZE_LIMIT then Inl (Panic ''free addr > 16MB'')
      else if mem_map s (MAP_INDEX addr) \<ge> 1
      then Inr (s\<lparr>mem_map := (mem_map s)(MAP_INDEX addr := mem_map s (MAP_INDEX addr) - 1)\<rparr>)
      else Inl (Panic ''free addr bad map''))"

text \<open>\<open>mem_init\<close> also installs the page-fault gate, number 14, at the address \<open>page_fault\<close> of its handler.\<close>

definition mem_init :: "u32 \<Rightarrow> u32 \<Rightarrow> u32 \<Rightarrow> mm_state \<Rightarrow> desc_table \<Rightarrow> mm_state \<times> desc_table" where
  "mem_init start_mem_addr end_mem_addr page_fault s idt =
     (s\<lparr>mem_end_addr := end_mem_addr,
        mem_map := (\<lambda>i. if i < PAGING_PAGES
                        then (if i \<ge> MAP_INDEX start_mem_addr \<and> i < MAP_INDEX end_mem_addr then 0 else NOT_EXIST)
                        else mem_map s i)\<rparr>,
      set_gate idt 14 TRAP_GATE 8 page_fault 0)"

text \<open>
  \<open>main()\<close> reads the size of the extended memory in KB as a 16-bit number, stops below 12 MB, and
  passes the (still KB) number to \<open>mem_init\<close> as the end address. \<open>None\<close> is the endless loop.
\<close>

definition main_memory_limits :: "u16 \<Rightarrow> (u32 \<times> u32) option" where
  "main_memory_limits ext_mem_k =
     (let main_mem_end = (ucast ext_mem_k :: u32)
      in if main_mem_end < 12 * 1024 then None
         else Some (4 * 1024 * 1024,
                    if main_mem_end \<ge> 16 * 1024 * 1024 then 16 * 1024 * 1024 else main_mem_end))"

section \<open>Page tables\<close>

abbreviation page_base :: "u32 \<Rightarrow> u32" where "page_base e \<equiv> e AND 0xFFFFF000"
abbreviation is_present :: "u32 \<Rightarrow> bool" where "is_present e \<equiv> e AND 1 = 1"

definition init_task1_paging :: "mm_state \<Rightarrow> mm_state kresult" where
  "init_task1_paging s =
     (case get_free_page s of (page, s1) \<Rightarrow>
        if page = 0 then Inl (Panic ''init task1 failed'')
        else Inr (s1\<lparr>pmem := wr32
               (fold (\<lambda>i m. wr32 m (page + 4 * of_nat i) ((of_nat i * 0x1000) OR 7)) [0 ..< 256] (pmem s1))
               (16 * 4) (page OR 7)\<rparr>))"

definition free_pt_entry :: "u32 \<Rightarrow> nat \<Rightarrow> mm_state \<Rightarrow> mm_state kresult" where
  "free_pt_entry tab j s =
     (let e = rd32 (pmem s) (tab + 4 * of_nat j)
      in rbind (if is_present e then free_page (page_base e) s else Inr s)
           (\<lambda>s1. Inr (s1\<lparr>pmem := wr32 (pmem s1) (tab + 4 * of_nat j) 0\<rparr>)))"

definition free_dir_entry :: "u32 \<Rightarrow> nat \<Rightarrow> mm_state \<Rightarrow> mm_state kresult" where
  "free_dir_entry dir i s =
     (let d = dir + 4 * of_nat i; e = rd32 (pmem s) d
      in if e AND 1 = 0 then Inr s
         else rbind (for_each (free_pt_entry (page_base e)) [0 ..< 1024] s)
                (\<lambda>s1. rbind (free_page (page_base (rd32 (pmem s1) d)) s1)
                   (\<lambda>s2. Inr (s2\<lparr>pmem := wr32 (pmem s2) d 0\<rparr>))))"

text \<open>The number of directory entries that \<open>size\<close> bytes span, and the directory slot of an address.\<close>

definition nr_of_dir_ent :: "u32 \<Rightarrow> nat" where
  "nr_of_dir_ent sz = unat (drop_bit 22 (sz + 0x3FFFFF))"

definition dir_addr :: "u32 \<Rightarrow> u32" where "dir_addr a = drop_bit 22 a * 4"

definition free_page_tables :: "u32 \<Rightarrow> u32 \<Rightarrow> mm_state \<Rightarrow> mm_state kresult" where
  "free_page_tables from sz s =
     (if from AND 0x3FFFFF \<noteq> 0 then Inl (Panic ''free: page dir alignment error'')
      else if from = 0 then Inl (Panic ''free addr = 0'')
      else for_each (free_dir_entry (dir_addr from)) [0 ..< nr_of_dir_ent sz] s)"

text \<open>One page-table entry of \<open>copy_page_tables\<close>: \<open>Some (-ENOMEM)\<close> is the early return.\<close>

definition copy_pt_entry :: "u32 \<Rightarrow> u32 \<Rightarrow> nat \<Rightarrow> mm_state \<Rightarrow> (i32 option \<times> mm_state) kresult" where
  "copy_pt_entry from_tab to_tab j s =
     (let e = rd32 (pmem s) (from_tab + 4 * of_nat j)
      in if is_present e
         then (case get_free_page s of (to_page, s1) \<Rightarrow>
                 if to_page = 0 then Inr (Some (- ENOMEM), s1)
                 else let m = copy_page (pmem s1) (page_base e) to_page
                      in Inr (None, s1\<lparr>pmem := wr32 m (to_tab + 4 * of_nat j) (to_page OR 7)\<rparr>))
         else Inr (None, s))"

definition copy_dir_entry :: "u32 \<Rightarrow> u32 \<Rightarrow> nat \<Rightarrow> mm_state \<Rightarrow> (i32 option \<times> mm_state) kresult" where
  "copy_dir_entry from_dir to_dir i s =
     (let td = rd32 (pmem s) (to_dir + 4 * of_nat i);
          fd = rd32 (pmem s) (from_dir + 4 * of_nat i)
      in if td AND 1 \<noteq> 0 then Inl (Panic ''destination page dir is present'')
         else if fd AND 1 = 0 then Inl (Panic ''source page dir is not present'')
         else (case get_free_page s of (to_tab, s1) \<Rightarrow>
                 if to_tab = 0 then Inr (Some (- ENOMEM), s1)
                 else for_ret (copy_pt_entry (page_base fd) to_tab) [0 ..< 1024]
                        (s1\<lparr>pmem := wr32 (pmem s1) (to_dir + 4 * of_nat i) (to_tab OR 7)\<rparr>)))"

definition copy_page_tables :: "u32 \<Rightarrow> u32 \<Rightarrow> u32 \<Rightarrow> mm_state \<Rightarrow> (i32 \<times> mm_state) kresult" where
  "copy_page_tables from to sz s =
     (if from AND 0x3FFFFF \<noteq> 0 \<or> to AND 0x3FFFFF \<noteq> 0
      then Inl (Panic ''copy: page dir alignment error'')
      else rbind (for_ret (copy_dir_entry (dir_addr from) (dir_addr to)) [0 ..< nr_of_dir_ent sz] s)
             (\<lambda>(r, s1). Inr (case r of Some v \<Rightarrow> v | None \<Rightarrow> 0, s1)))"

text \<open>The page-fault handlers print and spin.\<close>

definition do_no_page :: "'a kresult" where "do_no_page = Inl (Spin ''do_no_page'')"
definition do_wp_page :: "'a kresult" where "do_wp_page = Inl (Spin ''do_wp_page'')"

section \<open>Addresses, frames and the memory\<close>

definition page_aligned :: "u32 \<Rightarrow> bool" where "page_aligned p \<longleftrightarrow> p AND 0xFFF = 0"

definition page_frame :: "nat \<Rightarrow> u32" where "page_frame i = of_nat (i + 256)"

lemma rd_wr [simp]: "rd32 (wr32 m a v) a = v"
  by (simp add: rd32_def wr32_def)

lemma rd_wr_other: "frame_of a \<noteq> frame_of b \<or> dword_of a \<noteq> dword_of b \<Longrightarrow> rd32 (wr32 m a v) b = rd32 m b"
  by (auto simp: rd32_def wr32_def)

lemma frames_of_writes:
  "f \<noteq> frame_of a \<Longrightarrow> wr32 m a v f = m f"
  "f \<noteq> frame_of p \<Longrightarrow> zero_page m p f = m f"
  "f \<noteq> frame_of p \<Longrightarrow> copy_page m q p f = m f"
  "copy_page m q p (frame_of p) = m (frame_of q)"
  "zero_page m p (frame_of p) = (\<lambda>_. 0)"
  by (simp_all add: wr32_def zero_page_def copy_page_def)

lemma small_bits:
  assumes "j < 1024"
  shows "(of_nat j :: u32) AND mask 10 = of_nat j"
proof -
  have "take_bit 10 (of_nat j :: u32) = of_nat (take_bit 10 j)"
    by (simp add: of_nat_take_bit)
  also have "take_bit 10 j = j"
    using assms by (simp add: take_bit_nat_eq_self_iff)
  finally show ?thesis by (simp add: take_bit_eq_mask)
qed

lemma dword_address:
  assumes "page_aligned p" "j < 1024"
  shows "frame_of (p + 4 * of_nat j) = frame_of p" "dword_of (p + 4 * of_nat j) = of_nat j"
proof -
  define w :: u32 where "w = of_nat j"
  have w: "w = w AND mask 10" using small_bits [OF assms(2)] by (simp add: w_def)
  have al: "p AND mask 12 = 0" using assms(1) by (simp add: page_aligned_def kbits)
  have "p AND push_bit 2 (w AND mask 10) = 0"
    using al by (simp add: word32_eq_bits bit_simps)
  then have sum: "p + 4 * w = p OR push_bit 2 (w AND mask 10)"
    using w by (simp add: disjunctive_add_eq_or push_bit_eq_mult ac_simps)
  have "frame_of (p + 4 * w) = frame_of p"
    unfolding sum frame_of_def by (simp add: word32_eq_bits bit_simps)
  moreover have "dword_of (p + 4 * w) = w AND mask 10"
    unfolding sum dword_of_def using al
    by (simp add: word32_eq_bits bit_simps kbits flip: numeral_2_eq_2 numeral_3_eq_3)
  ultimately show "frame_of (p + 4 * of_nat j) = frame_of p" "dword_of (p + 4 * of_nat j) = of_nat j"
    using w by (simp_all add: w_def)
qed

lemma dword_index_inj: "j < 1024 \<Longrightarrow> k < 1024 \<Longrightarrow> (of_nat j :: u32) = of_nat k \<longleftrightarrow> j = k"
  by (simp add: word_of_nat_eq_iff take_bit_nat_eq_self)

lemma page_base_aligned [simp]: "page_aligned (page_base e)"
  by (simp add: page_aligned_def word32_eq_bits bit_simps kbits)

lemma frame_page_base [simp]: "frame_of (page_base e) = frame_of e"
  by (simp add: frame_of_def word32_eq_bits bit_simps kbits bit_beyond_u32)

lemma page_addr_eq: "page_addr i = push_bit 12 (page_frame i)"
  by (simp add: page_addr_def page_frame_def LOW_MEM_def push_bit_eq_mult algebra_simps)

lemma page_frame_inj: "i < PAGING_PAGES \<Longrightarrow> j < PAGING_PAGES \<Longrightarrow> page_frame i = page_frame j \<longleftrightarrow> i = j"
  by (simp add: page_frame_def PAGING_PAGES_def word_of_nat_eq_iff take_bit_nat_eq_self)

lemma page_frame_unat: "i < PAGING_PAGES \<Longrightarrow> unat (page_frame i) = i + 256"
  unfolding page_frame_def by (rule unat_of_nat_small) (simp add: PAGING_PAGES_def)

lemma page_frame_nonzero [simp]: "i < PAGING_PAGES \<Longrightarrow> page_frame i \<noteq> 0"
  using page_frame_unat [of i] by fastforce

lemma page_addr_unat:
  assumes "i < PAGING_PAGES"
  shows "unat (page_addr i) = 4096 * (i + 256)"
proof -
  have "page_addr i = of_nat (4096 * (i + 256))"
    by (simp add: page_addr_def LOW_MEM_def algebra_simps)
  then show ?thesis
    using assms unat_of_nat_small [of "4096 * (i + 256)"] by (simp only: PAGING_PAGES_def) simp
qed

lemma page_frame_bits:
  assumes "i < PAGING_PAGES"
  shows "page_frame i AND mask 12 = page_frame i"
proof -
  have "take_bit 12 (page_frame i) = of_nat (take_bit 12 (i + 256))"
    by (simp add: page_frame_def of_nat_take_bit)
  also have "take_bit 12 (i + 256) = i + 256"
    using assms by (simp add: take_bit_nat_eq_self_iff PAGING_PAGES_def)
  finally show ?thesis by (simp add: take_bit_eq_mask page_frame_def)
qed

lemma page_addr_facts:
  assumes "i < PAGING_PAGES"
  shows "page_aligned (page_addr i)" "frame_of (page_addr i) = page_frame i"
    "page_base (page_addr i OR 7) = page_addr i" "is_present (page_addr i OR 7)"
    "page_addr i \<noteq> 0" "MAP_INDEX (page_addr i) = i"
proof -
  obtain w where w: "page_frame i = w AND mask 12" using page_frame_bits [OF assms] by metis
  show "page_aligned (page_addr i)" "page_base (page_addr i OR 7) = page_addr i"
    "is_present (page_addr i OR 7)" "frame_of (page_addr i) = page_frame i"
    unfolding page_addr_eq w
    by (simp_all add: page_aligned_def frame_of_def word32_eq_bits bit_simps kbits)
  show "page_addr i \<noteq> 0" using page_addr_unat [OF assms] by fastforce
  have "page_addr i - LOW_MEM = 4096 * of_nat i" by (simp add: page_addr_def)
  moreover have "unat (4096 * of_nat i :: u32) = 4096 * i"
    using assms unat_of_nat_small [of "4096 * i"] by (simp add: PAGING_PAGES_def)
  ultimately show "MAP_INDEX (page_addr i) = i"
    by (simp add: MAP_INDEX_def unat_div)
qed

lemma page_addr_range:
  assumes "i < PAGING_PAGES"
  shows "\<not> page_addr i < LOW_MEM" "\<not> page_addr i \<ge> LOW_MEM + EXT_MEM_SIZE_LIMIT"
  using assms page_addr_unat [OF assms]
  by (simp_all add: word_less_nat_alt word_le_nat_alt LOW_MEM_def EXT_MEM_SIZE_LIMIT_def PAGING_PAGES_def)

section \<open>The allocator's contract\<close>

lemma get_free_page_cases:
  obtains (full) "get_free_page s = (0, s)" "\<And>i. i < PAGING_PAGES \<Longrightarrow> mem_map s i \<noteq> 0"
  | (page) i where "i < PAGING_PAGES" "mem_map s i = 0" "\<And>k. k < i \<Longrightarrow> mem_map s k \<noteq> 0"
    "get_free_page s = (page_addr i,
       s\<lparr>mem_map := (mem_map s)(i := 1), pmem := zero_page (pmem s) (page_addr i)\<rparr>)"
proof (cases "scan_up (\<lambda>i. mem_map s i = 0) 0 PAGING_PAGES = PAGING_PAGES")
  case True
  then have "\<And>i. i < PAGING_PAGES \<Longrightarrow> mem_map s i \<noteq> 0"
    by (simp add: scan_up_eq_n_iff)
  with True show ?thesis by (intro full) (simp_all add: get_free_page_def)
next
  case False
  define i where "i = scan_up (\<lambda>i. mem_map s i = 0) 0 PAGING_PAGES"
  have lt: "i < PAGING_PAGES" using False scan_up_le [of 0 PAGING_PAGES "\<lambda>i. mem_map s i = 0"]
    by (simp add: i_def)
  then have zero: "mem_map s i = 0" unfolding i_def by (rule scan_up_hit)
  have before: "\<And>k. k < i \<Longrightarrow> mem_map s k \<noteq> 0"
    unfolding i_def by (rule scan_up_before [of 0 _ "\<lambda>i. mem_map s i = 0"]) simp_all
  have "get_free_page s = (let i = i in if i = PAGING_PAGES then (0, s)
         else (page_addr i, s\<lparr>mem_map := (mem_map s)(i := mem_map s i + 1),
                              pmem := zero_page (pmem s) (page_addr i)\<rparr>))"
    by (simp only: get_free_page_def i_def)
  with lt zero have "get_free_page s = (page_addr i,
       s\<lparr>mem_map := (mem_map s)(i := 1), pmem := zero_page (pmem s) (page_addr i)\<rparr>)"
    by simp
  with lt zero before show ?thesis by (rule page)
qed

lemma word8_ge_1: "1 \<le> (w :: u8) \<longleftrightarrow> w \<noteq> 0"
  by (metis linorder_not_less word_less_1)

lemma free_page_of_page:
  "i < PAGING_PAGES \<Longrightarrow> free_page (page_addr i) s =
     (if mem_map s i \<noteq> 0 then Inr (s\<lparr>mem_map := (mem_map s)(i := mem_map s i - 1)\<rparr>)
      else Inl (Panic ''free addr bad map''))"
  by (simp add: free_page_def page_addr_range page_addr_facts word8_ge_1 del: linorder_not_less linorder_not_le)

definition page_pool :: "u32 set" where "page_pool = page_addr ` {..< PAGING_PAGES}"

definition page_uses :: "mm_state \<Rightarrow> u32 \<Rightarrow> u8" where
  "page_uses s p = (if p \<in> page_pool then mem_map s (MAP_INDEX p) else 0)"

lemma page_addr_inj: "i < PAGING_PAGES \<Longrightarrow> j < PAGING_PAGES \<Longrightarrow> page_addr i = page_addr j \<longleftrightarrow> i = j"
  by (metis page_addr_facts(6))

lemma page_addr_in_pool: "i < PAGING_PAGES \<Longrightarrow> page_addr i \<in> page_pool"
  by (simp add: page_pool_def)

lemma page_uses_upd:
  "i < PAGING_PAGES \<Longrightarrow> mem_map s' = (mem_map s)(i := v) \<Longrightarrow> page_uses s' = (page_uses s)(page_addr i := v)"
  by (rule ext) (auto simp: page_uses_def page_pool_def page_addr_facts page_addr_inj)

text \<open>
  What a client of a page allocator relies on, whatever the representation: a page handed out was
  unused and is then used once, nothing else changes; the allocator says no only when every page of
  the pool is in use; a page in use can be given back.
\<close>

fun alloc_many :: "('s \<Rightarrow> 'p \<times> 's) \<Rightarrow> 'p \<Rightarrow> nat \<Rightarrow> 's \<Rightarrow> 'p list \<times> 's" where
  "alloc_many alloc null 0 s = ([], s)"
| "alloc_many alloc null (Suc n) s =
     (case alloc s of (p, s1) \<Rightarrow>
        if p = null then ([], s1)
        else (case alloc_many alloc null n s1 of (ps, s2) \<Rightarrow> (p # ps, s2)))"

locale page_allocator =
  fixes alloc :: "'s \<Rightarrow> 'p \<times> 's" and null :: "'p" and release :: "'p \<Rightarrow> 's \<Rightarrow> kerror + 's"
    and pool :: "'p set" and refs :: "'s \<Rightarrow> 'p \<Rightarrow> u8"
  assumes alloc_null: "alloc s = (null, s') \<Longrightarrow> s' = s \<and> (\<forall>p \<in> pool. refs s p \<noteq> 0)"
    and alloc_page: "alloc s = (p, s') \<Longrightarrow> p \<noteq> null \<Longrightarrow> p \<in> pool \<and> refs s p = 0 \<and> refs s' = (refs s)(p := 1)"
    and release_page: "p \<in> pool \<Longrightarrow> refs s p \<noteq> 0 \<Longrightarrow>
      \<exists>s'. release p s = Inr s' \<and> refs s' = (refs s)(p := refs s p - 1)"
begin

lemma alloc_many_refs:
  "alloc_many alloc null n s = (ps, s') \<Longrightarrow>
     distinct ps \<and> set ps \<subseteq> pool \<and> (\<forall>p \<in> set ps. refs s p = 0) \<and>
     refs s' = (\<lambda>p. if p \<in> set ps then 1 else refs s p)"
proof (induction n arbitrary: s s' ps)
  case 0
  then show ?case by auto
next
  case (Suc n)
  obtain p s1 where a: "alloc s = (p, s1)" by (cases "alloc s")
  show ?case
  proof (cases "p = null")
    case True
    with a Suc.prems have "ps = []" "s' = s1" by simp_all
    moreover have "s1 = s" using alloc_null a True by blast
    ultimately show ?thesis by simp
  next
    case False
    obtain qs s2 where m: "alloc_many alloc null n s1 = (qs, s2)" by (cases "alloc_many alloc null n s1")
    from False a m Suc.prems have eqs: "ps = p # qs" "s' = s2" by simp_all
    from alloc_page [OF a False] have p: "p \<in> pool" "refs s p = 0" "refs s1 = (refs s)(p := 1)" by auto
    from Suc.IH [OF m] have IH: "distinct qs" "set qs \<subseteq> pool" "\<forall>q \<in> set qs. refs s1 q = 0"
      "refs s2 = (\<lambda>q. if q \<in> set qs then 1 else refs s1 q)" by auto
    from IH(3) p(3) have fresh: "p \<notin> set qs" by force
    with IH(3) p(3) have "\<forall>q \<in> set qs. refs s q = 0" by (metis fun_upd_other)
    with IH p fresh eqs show ?thesis by auto
  qed
qed

lemma release_all:
  "distinct ps \<Longrightarrow> set ps \<subseteq> pool \<Longrightarrow> (\<forall>p \<in> set ps. refs s p \<noteq> 0) \<Longrightarrow>
     \<exists>s'. for_each release ps s = Inr s' \<and> refs s' = (\<lambda>p. if p \<in> set ps then refs s p - 1 else refs s p)"
proof (induction ps arbitrary: s)
  case Nil
  then show ?case by auto
next
  case (Cons p ps)
  obtain s1 where s1: "release p s = Inr s1" "refs s1 = (refs s)(p := refs s p - 1)"
    using release_page [of p s] Cons.prems by auto
  have nz: "\<forall>q \<in> set ps. refs s1 q \<noteq> 0" using s1(2) Cons.prems by auto
  then obtain s2 where s2: "for_each release ps s1 = Inr s2"
    "refs s2 = (\<lambda>q. if q \<in> set ps then refs s1 q - 1 else refs s1 q)"
    using Cons.IH [of s1] Cons.prems by auto
  have "refs s2 = (\<lambda>q. if q \<in> set (p # ps) then refs s q - 1 else refs s q)"
    using s1(2) s2(2) Cons.prems(1) by (auto simp: fun_eq_iff)
  with s1(1) s2(1) show ?case by auto
qed

lemma alloc_many_release_all:
  assumes "alloc_many alloc null n s = (ps, s')"
  shows "distinct ps \<and> (\<exists>s''. for_each release ps s' = Inr s'' \<and> refs s'' = refs s)"
proof -
  note r = alloc_many_refs [OF assms]
  then obtain s'' where "for_each release ps s' = Inr s''"
    "refs s'' = (\<lambda>p. if p \<in> set ps then refs s' p - 1 else refs s' p)"
    using release_all [of ps s'] by auto
  moreover have "\<dots> = refs s" using r by (auto simp: fun_eq_iff)
  ultimately show ?thesis using r by auto
qed

end

interpretation pages: page_allocator get_free_page 0 free_page page_pool page_uses
proof unfold_locales
  fix s s' assume "get_free_page s = (0, s')"
  then show "s' = s \<and> (\<forall>p \<in> page_pool. page_uses s p \<noteq> 0)"
    by (cases s rule: get_free_page_cases) (auto simp: page_uses_def page_pool_def page_addr_facts)
next
  fix s p s' assume "get_free_page s = (p, s')" "p \<noteq> 0"
  then show "p \<in> page_pool \<and> page_uses s p = 0 \<and> page_uses s' = (page_uses s)(p := 1)"
    by (cases s rule: get_free_page_cases)
      (auto simp: page_addr_in_pool page_uses_def page_addr_facts intro: page_uses_upd)
next
  fix p s assume "p \<in> page_pool" "page_uses s p \<noteq> 0"
  then obtain i where i: "i < PAGING_PAGES" "p = page_addr i" "mem_map s i \<noteq> 0"
    by (auto simp: page_pool_def page_uses_def page_addr_facts split: if_splits)
  then have "free_page p s = Inr (s\<lparr>mem_map := (mem_map s)(i := mem_map s i - 1)\<rparr>)"
    by (simp add: free_page_of_page)
  moreover have "page_uses s p = mem_map s i" using i by (simp add: page_uses_def page_addr_in_pool page_addr_facts)
  ultimately show "\<exists>s'. free_page p s = Inr s' \<and> page_uses s' = (page_uses s)(p := page_uses s p - 1)"
    using i by (auto intro: page_uses_upd)
qed

section \<open>Properties of the allocator\<close>

text \<open>
  C28. \<open>get_free_page\<close> returns 0 and changes nothing exactly when every page of the map is in use;
  otherwise it returns the lowest unused page, marks it used once, fills it with zeroes, and changes
  no other page of the map and no other frame of the memory.
\<close>

theorem get_free_page_spec:
  assumes "get_free_page s = (p, s')"
  shows "if p = 0 then s' = s \<and> (\<forall>i < PAGING_PAGES. mem_map s i \<noteq> 0)
    else \<exists>i < PAGING_PAGES. p = page_addr i \<and> mem_map s i = 0 \<and> (\<forall>k < i. mem_map s k \<noteq> 0)
      \<and> mem_map s' = (mem_map s)(i := 1) \<and> pmem s' = (pmem s)(frame_of p := (\<lambda>_. 0))"
proof (cases s rule: get_free_page_cases)
  case full
  with assms show ?thesis by simp
next
  case (page i)
  with assms show ?thesis by (auto simp: page_addr_facts zero_page_def)
qed

theorem get_free_page_spec_witness:
  "mem_map (snd (get_free_page \<lparr>mem_map = (\<lambda>i. if i = 0 then 1 else 0), mem_end_addr = 0, pmem = (\<lambda>_ _. 7)\<rparr>)) 1 = 1"
proof -
  define s where "s = \<lparr>mem_map = (\<lambda>i. if i = 0 then (1 :: u8) else 0), mem_end_addr = 0, pmem = (\<lambda>_ _. 7)\<rparr>"
  have scan: "scan_up (\<lambda>i. mem_map s i = 0) 0 PAGING_PAGES = 1"
    by (rule scan_up_eqI) (simp_all add: s_def PAGING_PAGES_def)
  have "get_free_page s = (0x101000, snd (get_free_page s))"
    by (simp add: get_free_page_def Let_def scan) (simp add: PAGING_PAGES_def page_addr_def LOW_MEM_def)
  from get_free_page_spec [OF this] obtain i where
    i: "mem_map s i = 0" "\<forall>k < i. mem_map s k \<noteq> 0" "mem_map (snd (get_free_page s)) = (mem_map s)(i := 1)"
    by auto
  from i(1,2) have "i = 1" by (cases "i = 0"; cases "i = 1") (auto simp: s_def dest: spec [of _ 1])
  with i(3) show ?thesis by (simp add: s_def)
qed

text \<open>
  C29. Pages handed out by any number of successive calls of \<open>get_free_page\<close> are pairwise different,
  and giving them all back with \<open>free_page\<close> succeeds and restores the use count of every page.
\<close>

theorem pages_exclusive_and_returned:
  assumes "alloc_many get_free_page 0 n s = (ps, s')"
  shows "distinct ps \<and> (\<exists>s''. for_each free_page ps s' = Inr s'' \<and> page_uses s'' = page_uses s)"
  by (rule pages.alloc_many_release_all [OF assms])

theorem pages_exclusive_and_returned_witness:
  "\<exists>ps s'. alloc_many get_free_page 0 2 \<lparr>mem_map = (\<lambda>_. 0), mem_end_addr = 0, pmem = (\<lambda>_ _. 0)\<rparr> = (ps, s') \<and> distinct ps"
proof -
  obtain ps s' where a: "alloc_many get_free_page 0 2 \<lparr>mem_map = (\<lambda>_. 0), mem_end_addr = 0, pmem = (\<lambda>_ _. 0)\<rparr> = (ps, s')"
    by fastforce
  from pages_exclusive_and_returned [OF a] a show ?thesis by blast
qed

lemma free_page_repeatedly:
  assumes "i < PAGING_PAGES"
  shows "n \<le> unat (mem_map s i) \<Longrightarrow> \<exists>s'. for_each free_page (replicate n (page_addr i)) s = Inr s' \<and>
     mem_map s' = (mem_map s)(i := mem_map s i - of_nat n)"
proof (induction n arbitrary: s)
  case 0
  then show ?case by simp
next
  case (Suc n)
  then have nz: "mem_map s i \<noteq> 0" by auto
  define s1 where "s1 = s\<lparr>mem_map := (mem_map s)(i := mem_map s i - 1)\<rparr>"
  have "unat (mem_map s i - 1) = unat (mem_map s i) - 1" using nz by (simp add: unat_minus_one)
  then have "n \<le> unat (mem_map s1 i)" using Suc.prems by (simp add: s1_def)
  from Suc.IH [OF this] nz show ?case
    by (auto simp: free_page_of_page [OF assms] s1_def algebra_simps fun_eq_iff)
qed

text \<open>
  \<open>free_page\<close> accepts a page that does not exist: the marker \<open>NOT_EXIST\<close> is an ordinary use count,
  so a hundred frees of such a page succeed and leave it free for \<open>get_free_page\<close> to hand out.
\<close>

lemma nonexistent_page_becomes_free:
  assumes "i < PAGING_PAGES" "mem_map s i = NOT_EXIST"
  shows "\<exists>s'. for_each free_page (replicate 100 (page_addr i)) s = Inr s' \<and> mem_map s' = (mem_map s)(i := 0)"
  using free_page_repeatedly [OF assms(1), of 100 s] assms(2) by (simp add: NOT_EXIST_def)

lemma nonexistent_page_becomes_free_witness:
  "\<exists>s'. for_each free_page (replicate 100 (page_addr 0)) \<lparr>mem_map = (\<lambda>_. NOT_EXIST), mem_end_addr = 0, pmem = (\<lambda>_ _. 0)\<rparr> = Inr s'"
  using nonexistent_page_becomes_free [of 0 "\<lparr>mem_map = (\<lambda>_. NOT_EXIST), mem_end_addr = 0, pmem = (\<lambda>_ _. 0)\<rparr>"]
  by (auto simp: PAGING_PAGES_def)

lemma map_index_small:
  assumes "unat e < 65536"
  shows "MAP_INDEX e \<ge> PAGING_PAGES"
proof -
  have lt: "e < LOW_MEM" using assms by (simp add: word_less_nat_alt LOW_MEM_def)
  have "unat (e - LOW_MEM) = unat e + 2 ^ 32 - unat LOW_MEM"
    using lt by (simp add: unat_sub_if_size word_le_nat_alt word_less_nat_alt size_word_def)
  then have "unat (e - LOW_MEM) \<ge> 2 ^ 32 - 0x100000" by (simp add: LOW_MEM_def)
  then show ?thesis by (simp add: MAP_INDEX_def PAGING_PAGES_def unat_div)
qed

text \<open>
  Whatever the size of the memory, \<open>main()\<close> marks every page from 4 MB up to 16 MB as free:
  it passes \<open>mem_init\<close> a number of KB where an address is wanted, and the index computed from it wraps
  round to a value past the end of the map. A machine with 13 MB has pages 3072 to 3839 handed out
  although no memory is behind them.
\<close>

lemma boot_frees_pages_beyond_memory:
  assumes "main_memory_limits ext_mem_k = Some (buf_end, mem_end)" "i < PAGING_PAGES"
  shows "mem_map (fst (mem_init buf_end mem_end h s idt)) i = (if i < 768 then NOT_EXIST else 0)"
proof -
  have small: "unat (ucast ext_mem_k :: u32) < 65536"
    using unsigned_less [of ext_mem_k, where ?'a = nat] by (simp add: unsigned_ucast_eq le_less_trans [OF take_bit_nat_less_eq_self])
  then have "\<not> (16777216 :: u32) \<le> ucast ext_mem_k" by (simp add: word_le_nat_alt)
  with assms(1) have eqs: "buf_end = 0x400000" "mem_end = ucast ext_mem_k"
    by (auto simp: main_memory_limits_def Let_def split: if_splits)
  have "i < MAP_INDEX mem_end" using map_index_small [of mem_end] small assms(2) eqs by simp
  moreover have "MAP_INDEX buf_end = 768" by (simp add: eqs MAP_INDEX_def LOW_MEM_def unat_div)
  ultimately show ?thesis using assms(2) by (simp add: mem_init_def)
qed

end
