(* ===== verification/Address_Space.thy ===== *)
theory Address_Space
  imports Phys_Memory
begin

text \<open>
  What \<open>copy_page_tables\<close> and \<open>free_page_tables\<close> of mm/memory.c do to address spaces: the copy gives
  the new range its own pages with the same contents, and freeing the range (after the copy or after
  a copy that ran out of memory) gives back exactly the pages it took. The proofs follow the two
  nested loops with one invariant each.
\<close>

section \<open>Pages taken from the map\<close>

text \<open>\<open>s'\<close> is \<open>s\<close> with the pages of \<open>L\<close>, unused before, taken once.\<close>

definition alloc_ext :: "nat list \<Rightarrow> mm_state \<Rightarrow> mm_state \<Rightarrow> bool" where
  "alloc_ext L s s' \<longleftrightarrow> distinct L \<and> (\<forall>i \<in> set L. i < PAGING_PAGES \<and> mem_map s i = 0)
     \<and> mem_map s' = (\<lambda>i. if i \<in> set L then 1 else mem_map s i)"

lemma alloc_ext_Nil: "mem_map s' = mem_map s \<Longrightarrow> alloc_ext [] s s'"
  by (simp add: alloc_ext_def)

lemma alloc_ext_trans: "alloc_ext L s s1 \<Longrightarrow> alloc_ext M s1 s2 \<Longrightarrow> alloc_ext (L @ M) s s2"
  unfolding alloc_ext_def by (auto simp: fun_eq_iff split: if_splits)

lemma alloc_ext_one:
  "i < PAGING_PAGES \<Longrightarrow> mem_map s i = 0 \<Longrightarrow> mem_map s' = (mem_map s)(i := 1) \<Longrightarrow> alloc_ext [i] s s'"
  by (auto simp: alloc_ext_def fun_eq_iff)

lemma alloc_ext_swap: "alloc_ext (L @ M) s s' \<Longrightarrow> alloc_ext (M @ L) s s'"
  by (auto simp: alloc_ext_def fun_eq_iff)

text \<open>A frame the allocator cannot hand out in state \<open>s\<close>: the directory, low memory, pages in use.\<close>

definition kept_frame :: "mm_state \<Rightarrow> u32 \<Rightarrow> bool" where
  "kept_frame s f \<longleftrightarrow> (\<forall>i < PAGING_PAGES. mem_map s i = 0 \<longrightarrow> f \<noteq> page_frame i)"

lemma kept_frame_not_new: "kept_frame s f \<Longrightarrow> alloc_ext L s s' \<Longrightarrow> f \<notin> page_frame ` set L"
  by (auto simp: kept_frame_def alloc_ext_def)

lemma kept_frame_ext: "kept_frame s f \<Longrightarrow> alloc_ext L s s' \<Longrightarrow> kept_frame s' f"
  by (auto simp: kept_frame_def alloc_ext_def split: if_splits)

lemma kept_frame_0 [simp]: "kept_frame s 0"
  by (metis kept_frame_def page_frame_nonzero)

lemma kept_page: "i < PAGING_PAGES \<Longrightarrow> mem_map s i \<noteq> 0 \<Longrightarrow> kept_frame s (page_frame i)"
  by (auto simp: kept_frame_def page_frame_inj)

section \<open>Entries and tables\<close>

lemma rd_table: "page_aligned tab \<Longrightarrow> j < 1024 \<Longrightarrow> rd32 m (tab + 4 * of_nat j) = m (frame_of tab) (of_nat j)"
  by (simp add: rd32_def dword_address)

lemma wr_table: "page_aligned tab \<Longrightarrow> j < 1024 \<Longrightarrow>
  wr32 m (tab + 4 * of_nat j) v = m(frame_of tab := (m (frame_of tab))(of_nat j := v))"
  by (simp add: wr32_def dword_address)

text \<open>The directory is frame 0; the slot of an address is its top ten bits.\<close>

definition dir_slot :: "u32 \<Rightarrow> nat" where "dir_slot a = unat (drop_bit 22 a)"

lemma dir_slot_address: "dir_addr a + 4 * of_nat i = 4 * of_nat (dir_slot a + i)"
  by (simp add: dir_addr_def dir_slot_def)

lemma dir_access:
  assumes "dir_slot a + i < 1024"
  shows "rd32 m (dir_addr a + 4 * of_nat i) = m 0 (of_nat (dir_slot a + i))"
    "wr32 m (dir_addr a + 4 * of_nat i) v = m(0 := (m 0)(of_nat (dir_slot a + i) := v))"
proof -
  have "page_aligned 0" "frame_of 0 = 0" by (simp_all add: page_aligned_def frame_of_def)
  with rd_table [of 0 "dir_slot a + i" m] wr_table [of 0 "dir_slot a + i" m v] assms
  show "rd32 m (dir_addr a + 4 * of_nat i) = m 0 (of_nat (dir_slot a + i))"
    "wr32 m (dir_addr a + 4 * of_nat i) v = m(0 := (m 0)(of_nat (dir_slot a + i) := v))"
    unfolding dir_slot_address by simp_all
qed

text \<open>The pages the first \<open>n\<close> entries of a table map, and those a directory slot and a range hold.\<close>

definition table_refs :: "phys_mem \<Rightarrow> u32 \<Rightarrow> nat \<Rightarrow> u32 list" where
  "table_refs m f n = map page_base (filter (\<lambda>e. is_present e) (map (\<lambda>j. m f (of_nat j)) [0 ..< n]))"

definition slot_refs :: "phys_mem \<Rightarrow> nat \<Rightarrow> u32 list" where
  "slot_refs m d = (let e = m 0 (of_nat d) in
     if is_present e then table_refs m (frame_of e) 1024 @ [page_base e] else [])"

definition range_refs :: "phys_mem \<Rightarrow> nat \<Rightarrow> nat \<Rightarrow> u32 list" where
  "range_refs m d n = concat (map (\<lambda>i. slot_refs m (d + i)) [0 ..< n])"

lemma table_refs_Suc: "table_refs m f (Suc n) =
  table_refs m f n @ (if is_present (m f (of_nat n)) then [page_base (m f (of_nat n))] else [])"
  by (simp add: table_refs_def)

lemma table_refs_cong: "(\<And>j. j < n \<Longrightarrow> m f (of_nat j) = m' f (of_nat j)) \<Longrightarrow> table_refs m f n = table_refs m' f n"
  unfolding table_refs_def by (rule arg_cong [where f = "\<lambda>xs. map page_base (filter (\<lambda>e. is_present e) xs)"]) simp

lemma table_refs_zero_tail:
  assumes "\<And>j. k \<le> j \<Longrightarrow> j < n \<Longrightarrow> m f (of_nat j) = 0" "k \<le> n"
  shows "table_refs m f n = table_refs m f k"
  using assms(2,1)
proof (induction n rule: dec_induct)
  case base
  then show ?case by simp
next
  case (step n)
  then show ?case by (simp add: table_refs_Suc)
qed

lemma slot_refs_cong:
  "m 0 (of_nat d) = m' 0 (of_nat d) \<Longrightarrow> m (frame_of (m 0 (of_nat d))) = m' (frame_of (m 0 (of_nat d))) \<Longrightarrow>
     slot_refs m d = slot_refs m' d"
  by (simp add: slot_refs_def Let_def cong: table_refs_cong)

lemma range_refs_Suc: "range_refs m d (Suc n) = range_refs m d n @ slot_refs m (d + n)"
  by (simp add: range_refs_def)

lemma range_refs_tail:
  assumes "\<And>i. k \<le> i \<Longrightarrow> i < n \<Longrightarrow> m 0 (of_nat (d + i)) AND 1 = 0" "k \<le> n"
  shows "range_refs m d n = range_refs m d k"
  using assms(2,1)
proof (induction n rule: dec_induct)
  case base
  then show ?case by simp
next
  case (step n)
  then show ?case by (simp add: range_refs_Suc slot_refs_def)
qed

lemma range_refs_cong:
  assumes "\<And>i. i < n \<Longrightarrow> m 0 (of_nat (d + i)) = m' 0 (of_nat (d + i))"
    "\<And>i. i < n \<Longrightarrow> is_present (m 0 (of_nat (d + i))) \<Longrightarrow> m (frame_of (m 0 (of_nat (d + i)))) = m' (frame_of (m 0 (of_nat (d + i))))"
  shows "range_refs m d n = range_refs m' d n"
  using assms
proof (induction n)
  case 0
  then show ?case by (simp add: range_refs_def)
next
  case (Suc n)
  have "slot_refs m (d + n) = slot_refs m' (d + n)"
    using Suc.prems(1) [of n] Suc.prems(2) [of n]
    by (simp add: slot_refs_def Let_def table_refs_def)
  with Suc show ?case by (simp add: range_refs_Suc)
qed

lemma not_present: "e AND 1 = 0 \<longleftrightarrow> \<not> is_present (e :: u32)"
  by (simp add: and_one_eq)

section \<open>Copying one table\<close>

text \<open>
  The entry \<open>e'\<close> of the new table is right for the entry \<open>e\<close> of the old one: an absent entry stays
  absent, a present one maps one of the pages of \<open>A\<close>, holding the contents of the old page.
\<close>

definition entry_copied :: "nat set \<Rightarrow> phys_mem \<Rightarrow> phys_mem \<Rightarrow> u32 \<Rightarrow> u32 \<Rightarrow> bool" where
  "entry_copied A m m' e e' \<longleftrightarrow>
     (if is_present e
      then \<exists>p \<in> A. p < PAGING_PAGES \<and> e' = page_addr p OR 7 \<and> m' (page_frame p) = m (frame_of e)
      else e' = 0)"

lemma entry_copied_mono:
  "entry_copied A m m' e e' \<Longrightarrow> A \<subseteq> B \<Longrightarrow> (\<And>p. p \<in> A \<Longrightarrow> m'' (page_frame p) = m' (page_frame p)) \<Longrightarrow>
     entry_copied B m m'' e e'"
  unfolding entry_copied_def by (auto split: if_splits)

text \<open>After \<open>k\<close> entries: \<open>fd\<close> is the source table's directory entry, \<open>t\<close> the new table's page.\<close>

definition table_copy_inv :: "mm_state \<Rightarrow> u32 \<Rightarrow> nat \<Rightarrow> nat \<Rightarrow> nat list \<Rightarrow> mm_state \<Rightarrow> bool" where
  "table_copy_inv s fd t k ps s' \<longleftrightarrow>
     alloc_ext ps s s' \<and>
     (\<forall>f. f \<noteq> page_frame t \<longrightarrow> f \<notin> page_frame ` set ps \<longrightarrow> pmem s' f = pmem s f) \<and>
     (\<forall>j. k \<le> j \<longrightarrow> j < 1024 \<longrightarrow> pmem s' (page_frame t) (of_nat j) = 0) \<and>
     table_refs (pmem s') (page_frame t) k = map page_addr ps \<and>
     (\<forall>j < k. entry_copied (set ps) (pmem s) (pmem s') (pmem s (frame_of fd) (of_nat j))
                (pmem s' (page_frame t) (of_nat j)))"

text \<open>What the copy needs of the source table: it and its pages cannot be handed out meanwhile.\<close>

definition table_kept :: "mm_state \<Rightarrow> u32 \<Rightarrow> bool" where
  "table_kept s fd \<longleftrightarrow> kept_frame s (frame_of fd) \<and>
     (\<forall>j < 1024. is_present (pmem s (frame_of fd) (of_nat j)) \<longrightarrow>
        kept_frame s (frame_of (pmem s (frame_of fd) (of_nat j))))"

definition table_apart :: "mm_state \<Rightarrow> u32 \<Rightarrow> nat \<Rightarrow> bool" where
  "table_apart s fd t \<longleftrightarrow> frame_of fd \<noteq> page_frame t \<and>
     (\<forall>j < 1024. is_present (pmem s (frame_of fd) (of_nat j)) \<longrightarrow>
        frame_of (pmem s (frame_of fd) (of_nat j)) \<noteq> page_frame t)"

text \<open>The state after a copied page \<open>i\<close> has been entered as entry \<open>k\<close>.\<close>

lemma page_copied_inv:
  assumes inv: "table_copy_inv s fd t k ps s1" and k: "k < 1024" and t: "t < PAGING_PAGES" "mem_map s t \<noteq> 0"
    and i: "i < PAGING_PAGES" "i \<notin> set ps" "i \<noteq> t" and ext: "alloc_ext (ps @ [i]) s s2"
    and e: "e = pmem s (frame_of fd) (of_nat k)" "is_present e"
    and mem: "pmem s2 = (pmem s1)(page_frame i := pmem s (frame_of e),
      page_frame t := (pmem s1 (page_frame t))(of_nat k := page_addr i OR 7))"
  shows "table_copy_inv s fd t (Suc k) (ps @ [i]) s2"
proof -
  note inv' = inv [unfolded table_copy_inv_def]
  let ?T = "page_frame t"
  have pages: "\<forall>p \<in> set ps. p < PAGING_PAGES \<and> p \<noteq> t" using inv' t by (auto simp: alloc_ext_def)
  have ti: "page_frame i \<noteq> ?T" using i t by (simp add: page_frame_inj)
  have old: "pmem s2 (page_frame p) = pmem s1 (page_frame p)" if "p \<in> set ps" for p
    using that pages i t by (auto simp: mem page_frame_inj)
  have ent: "pmem s2 ?T (of_nat j) = (if j = k then page_addr i OR 7 else pmem s1 ?T (of_nat j))" if "j < 1024" for j
    using that k by (auto simp: mem dword_index_inj)
  have "table_refs (pmem s2) ?T k = table_refs (pmem s1) ?T k" by (rule table_refs_cong) (use ent k in auto)
  then have refs: "table_refs (pmem s2) ?T (Suc k) = map page_addr (ps @ [i])"
    using inv' ent [OF k] i(1) by (simp add: table_refs_Suc page_addr_facts)
  have new: "entry_copied (set (ps @ [i])) (pmem s) (pmem s2) e (pmem s2 ?T (of_nat k))"
    using e(2) ent [OF k] i(1) ti by (auto simp: entry_copied_def mem intro!: bexI [of _ i])
  have prev: "entry_copied (set (ps @ [i])) (pmem s) (pmem s2) (pmem s (frame_of fd) (of_nat j)) (pmem s2 ?T (of_nat j))"
    if "j < k" for j
  proof -
    have "entry_copied (set ps) (pmem s) (pmem s1) (pmem s (frame_of fd) (of_nat j)) (pmem s1 ?T (of_nat j))"
      using inv' that by blast
    then have "entry_copied (set (ps @ [i])) (pmem s) (pmem s2) (pmem s (frame_of fd) (of_nat j)) (pmem s1 ?T (of_nat j))"
      by (rule entry_copied_mono) (simp_all add: old subset_insertI)
    with ent [of j] that k show ?thesis by simp
  qed
  show ?thesis unfolding table_copy_inv_def
  proof (intro conjI ext refs)
    show "\<forall>f. f \<noteq> ?T \<longrightarrow> f \<notin> page_frame ` set (ps @ [i]) \<longrightarrow> pmem s2 f = pmem s f" using inv' by (auto simp: mem)
    show "\<forall>j. Suc k \<le> j \<longrightarrow> j < 1024 \<longrightarrow> pmem s2 ?T (of_nat j) = 0" using inv' ent by auto
    show "\<forall>j < Suc k. entry_copied (set (ps @ [i])) (pmem s) (pmem s2) (pmem s (frame_of fd) (of_nat j)) (pmem s2 ?T (of_nat j))"
      using new prev e(1) by (auto simp: less_Suc_eq)
  qed
qed

lemma copy_pt_entry_step:
  assumes inv: "table_copy_inv s fd t k ps s1" and k: "k < 1024"
    and t: "t < PAGING_PAGES" "mem_map s t \<noteq> 0"
    and kept: "table_kept s fd" and apart: "table_apart s fd t"
    and step: "copy_pt_entry (page_base fd) (page_addr t) k s1 = Inr (r, s2)"
  shows "case r of None \<Rightarrow> \<exists>ps'. table_copy_inv s fd t (Suc k) ps' s2
    | Some v \<Rightarrow> v = - ENOMEM \<and> s2 = s1 \<and> (\<forall>i < PAGING_PAGES. mem_map s1 i \<noteq> 0)"
proof -
  note inv' = inv [unfolded table_copy_inv_def]
  let ?T = "page_frame t" and ?e = "pmem s (frame_of fd) (of_nat k)"
  have ext: "alloc_ext ps s s1" using inv' by blast
  have src: "pmem s1 (frame_of fd) (of_nat k) = ?e"
    using inv' apart kept_frame_not_new [OF _ ext] kept by (auto simp: table_apart_def table_kept_def)
  then have e: "rd32 (pmem s1) (page_base fd + 4 * of_nat k) = ?e"
    using k by (simp add: rd_table)
  show ?thesis
  proof (cases "is_present ?e")
    case False
    then have "?e AND 1 \<noteq> 1" .
    with step e have rs: "r = None" "s2 = s1" by (auto simp: copy_pt_entry_def Let_def)
    have z: "pmem s1 ?T (of_nat k) = 0" using inv' k by blast
    have "table_copy_inv s fd t (Suc k) ps s1"
      unfolding table_copy_inv_def using inv' z False
      by (auto simp: table_refs_Suc entry_copied_def less_Suc_eq)
    with rs show ?thesis by auto
  next
    case True
    show ?thesis
    proof (cases s1 rule: get_free_page_cases)
      case full
      with step e True show ?thesis by (auto simp: copy_pt_entry_def Let_def)
    next
      case (page i)
      let ?m = "wr32 (copy_page (zero_page (pmem s1) (page_addr i)) (page_base ?e) (page_addr i))
                  (page_addr t + 4 * of_nat k) (page_addr i OR 7)"
      have nz: "page_addr i \<noteq> 0" using page by (simp add: page_addr_facts)
      have r: "r = None" "s2 = s1\<lparr>mem_map := (mem_map s1)(i := 1), pmem := ?m\<rparr>"
        using step e True page nz by (auto simp: copy_pt_entry_def Let_def)
      have i: "i \<notin> set ps" "i \<noteq> t" "mem_map s i = 0"
        using page(2) ext t by (auto simp: alloc_ext_def split: if_splits)
      have fi: "frame_of ?e \<noteq> page_frame i"
        using kept True k i page(1) by (auto simp: table_kept_def kept_frame_def)
      have se: "pmem s1 (frame_of ?e) = pmem s (frame_of ?e)"
        using inv' apart kept True k kept_frame_not_new [OF _ ext]
        by (auto simp: table_apart_def table_kept_def)
      have ti: "page_frame i \<noteq> ?T" using page(1) t i by (simp add: page_frame_inj)
      have mem: "pmem s2 = (pmem s1)(page_frame i := pmem s (frame_of ?e),
                   ?T := (pmem s1 ?T)(of_nat k := page_addr i OR 7))"
        using r(2) se fi ti t page(1) k
        by (auto simp: wr_table page_addr_facts copy_page_def zero_page_def fun_eq_iff)
      have "alloc_ext [i] s1 s2" using r(2) page by (intro alloc_ext_one) simp_all
      with ext have ext2: "alloc_ext (ps @ [i]) s s2" by (rule alloc_ext_trans)
      have "table_copy_inv s fd t (Suc k) (ps @ [i]) s2" by (rule page_copied_inv [OF inv k t page(1) i(1,2) ext2 refl True mem])
      with r(1) show ?thesis by auto
    qed
  qed
qed

text \<open>The whole table: all 1024 entries, or fewer when memory ran out.\<close>

lemma copy_table_inv:
  assumes loop: "for_ret (copy_pt_entry (page_base fd) (page_addr t)) [0 ..< 1024] s = Inr (r, s')"
    and t: "t < PAGING_PAGES" "mem_map s t \<noteq> 0"
    and zero: "\<forall>j < 1024. pmem s (page_frame t) (of_nat j) = 0"
    and kept: "table_kept s fd" and apart: "table_apart s fd t"
  shows "\<exists>ps k. table_copy_inv s fd t k ps s' \<and> k \<le> 1024 \<and> (r = None \<longrightarrow> k = 1024) \<and>
    (r \<noteq> None \<longrightarrow> r = Some (- ENOMEM) \<and> (\<forall>i < PAGING_PAGES. mem_map s' i \<noteq> 0))"
proof -
  let ?P = "\<lambda>k s1. \<exists>ps. table_copy_inv s fd t k ps s1"
  let ?Q = "\<lambda>v s1. v = - ENOMEM \<and> (\<exists>k ps. k \<le> 1024 \<and> table_copy_inv s fd t k ps s1) \<and>
              (\<forall>i < PAGING_PAGES. mem_map s1 i \<noteq> 0)"
  have start: "?P 0 s"
    using zero by (auto intro!: exI [of _ "[]"] simp: table_copy_inv_def alloc_ext_Nil table_refs_def)
  have "case r of None \<Rightarrow> ?P 1024 s' | Some v \<Rightarrow> ?Q v s'"
  proof (rule for_ret_upt_inv [where P = ?P and Q = ?Q, OF loop start])
    fix k s1 s2 assume "k < 1024" "?P k s1" "copy_pt_entry (page_base fd) (page_addr t) k s1 = Inr (None, s2)"
    then show "?P (Suc k) s2" using copy_pt_entry_step [OF _ _ t kept apart] by fastforce
  next
    fix k s1 v s2 assume a: "k < 1024" "?P k s1"
      "copy_pt_entry (page_base fd) (page_addr t) k s1 = Inr (Some v, s2)"
    then obtain ps where inv: "table_copy_inv s fd t k ps s1" by blast
    from copy_pt_entry_step [OF inv a(1) t kept apart a(3)]
    have "v = - ENOMEM" "s2 = s1" "\<forall>i < PAGING_PAGES. mem_map s1 i \<noteq> 0" by simp_all
    then show "?Q v s2" using inv a(1) less_imp_le by blast
  qed
  then show ?thesis by (cases r) auto
qed

declare of_nat_add [simp del]

section \<open>Copying a range of the directory\<close>

text \<open>
  After \<open>i\<close> directory entries the pages taken are those the new slots hold, in the order of
  \<open>range_refs\<close>; only the new pages and the new slots of the directory have changed.
\<close>

definition dir_acct :: "mm_state \<Rightarrow> nat \<Rightarrow> nat \<Rightarrow> nat list \<Rightarrow> mm_state \<Rightarrow> bool" where
  "dir_acct s tb i L s' \<longleftrightarrow>
     alloc_ext L s s' \<and>
     (\<forall>f. f \<noteq> 0 \<longrightarrow> f \<notin> page_frame ` set L \<longrightarrow> pmem s' f = pmem s f) \<and>
     (\<forall>d < 1024. (\<forall>k < i. d \<noteq> tb + k) \<longrightarrow> pmem s' 0 (of_nat d) = pmem s 0 (of_nat d)) \<and>
     range_refs (pmem s') tb i = map page_addr L"

text \<open>Slot \<open>dst\<close> is a copy of slot \<open>src\<close>: a table of its own, and each entry right for the source's.\<close>

definition slot_copied :: "nat set \<Rightarrow> phys_mem \<Rightarrow> nat \<Rightarrow> nat \<Rightarrow> bool" where
  "slot_copied A m src dst \<longleftrightarrow>
     is_present (m 0 (of_nat src)) \<and>
     (\<exists>t \<in> A. t < PAGING_PAGES \<and> m 0 (of_nat dst) = page_addr t OR 7 \<and>
        (\<forall>j < 1024. entry_copied A m m (m (frame_of (m 0 (of_nat src))) (of_nat j)) (m (page_frame t) (of_nat j))))"

text \<open>
  What a copy needs: both ranges lie in the directory and do not meet, the target range is empty, no
  source table is the directory itself, and neither the source tables nor their pages can be handed
  out meanwhile. The page at address 0 (which holds the directory, and which task 1 maps) may occur
  only in the last 4 MB of the range, because the directory changes when the later slots are filled.
\<close>

definition copy_ready :: "mm_state \<Rightarrow> nat \<Rightarrow> nat \<Rightarrow> nat \<Rightarrow> bool" where
  "copy_ready s sf tb n \<longleftrightarrow>
     sf + n \<le> 1024 \<and> tb + n \<le> 1024 \<and> (\<forall>i < n. \<forall>k < n. sf + i \<noteq> tb + k) \<and>
     (\<forall>i < n. \<not> is_present (pmem s 0 (of_nat (tb + i)))) \<and>
     (\<forall>i < n. is_present (pmem s 0 (of_nat (sf + i))) \<longrightarrow>
        frame_of (pmem s 0 (of_nat (sf + i))) \<noteq> 0 \<and> table_kept s (pmem s 0 (of_nat (sf + i))) \<and>
        (\<forall>j < 1024. is_present (pmem s (frame_of (pmem s 0 (of_nat (sf + i)))) (of_nat j)) \<longrightarrow>
           frame_of (pmem s (frame_of (pmem s 0 (of_nat (sf + i)))) (of_nat j)) \<noteq> 0 \<or> Suc i = n))"

lemma range_refs_table:
  assumes "range_refs m d n = map page_addr L" "\<forall>p \<in> set L. p < PAGING_PAGES"
    "i < n" "is_present (m 0 (of_nat (d + i)))"
  shows "frame_of (m 0 (of_nat (d + i))) \<in> page_frame ` set L"
proof -
  have "page_base (m 0 (of_nat (d + i))) \<in> set (slot_refs m (d + i))"
    using assms(4) by (simp add: slot_refs_def Let_def)
  then have "page_base (m 0 (of_nat (d + i))) \<in> set (range_refs m d n)"
    using assms(3) by (auto simp: range_refs_def)
  then obtain p where p: "p \<in> set L" "page_base (m 0 (of_nat (d + i))) = page_addr p"
    using assms(1) by auto
  then have "frame_of (m 0 (of_nat (d + i))) = page_frame p"
    using assms(2) by (metis frame_page_base page_addr_facts(2))
  with p show ?thesis by blast
qed

text \<open>The state in which the new table \<open>t\<close> has been taken, cleared and entered in its slot.\<close>

definition table_entered :: "mm_state \<Rightarrow> nat \<Rightarrow> nat \<Rightarrow> mm_state" where
  "table_entered s1 t d = s1\<lparr>mem_map := (mem_map s1)(t := 1),
     pmem := (pmem s1)(page_frame t := (\<lambda>_. 0), 0 := (pmem s1 0)(of_nat d := page_addr t OR 7))\<rparr>"

lemma copy_dir_entry_cases:
  assumes step: "copy_dir_entry (dir_addr from) (dir_addr to) i s1 = Inr (r, s2)"
    and rng: "dir_slot from + i < 1024" "dir_slot to + i < 1024"
  shows "is_present (pmem s1 0 (of_nat (dir_slot from + i))) \<and>
    ((r = Some (- ENOMEM) \<and> s2 = s1 \<and> (\<forall>k < PAGING_PAGES. mem_map s1 k \<noteq> 0)) \<or>
     (\<exists>t < PAGING_PAGES. mem_map s1 t = 0 \<and>
        for_ret (copy_pt_entry (page_base (pmem s1 0 (of_nat (dir_slot from + i)))) (page_addr t)) [0 ..< 1024]
          (table_entered s1 t (dir_slot to + i)) = Inr (r, s2)))"
proof (cases s1 rule: get_free_page_cases)
  case full
  with step rng show ?thesis
    by (auto simp: copy_dir_entry_def Let_def dir_access not_present split: if_splits)
next
  case (page t)
  then have "page_addr t \<noteq> 0" "page_frame t \<noteq> 0" by (simp_all add: page_addr_facts)
  then show ?thesis
    using step rng page
    by (auto simp: copy_dir_entry_def Let_def dir_access not_present table_entered_def zero_page_def
        page_addr_facts split: if_splits)
qed

lemma frame_of_entry: "t < PAGING_PAGES \<Longrightarrow> frame_of (page_addr t OR 7) = page_frame t"
  by (metis frame_page_base page_addr_facts(2,3))

lemma dir_acct_kept:
  assumes "dir_acct s tb i L s1" "f \<noteq> 0" "kept_frame s f"
  shows "pmem s1 f = pmem s f"
  using assms kept_frame_not_new by (metis dir_acct_def)

lemma table_entered_acct:
  assumes acct: "dir_acct s tb i L s1" and t: "t < PAGING_PAGES" "mem_map s1 t = 0"
  shows "alloc_ext (L @ [t]) s (table_entered s1 t (tb + i))" "t \<notin> set L" "mem_map s t = 0"
proof -
  have ext: "alloc_ext L s s1" using acct by (simp add: dir_acct_def)
  moreover have "alloc_ext [t] s1 (table_entered s1 t (tb + i))"
    using t by (intro alloc_ext_one) (simp_all add: table_entered_def)
  ultimately show "alloc_ext (L @ [t]) s (table_entered s1 t (tb + i))" by (rule alloc_ext_trans)
  show "t \<notin> set L" "mem_map s t = 0" using ext t by (auto simp: alloc_ext_def split: if_splits)
qed

text \<open>The source table is still what it was when the new table has been entered.\<close>

lemma source_still_kept:
  assumes acct: "dir_acct s tb i L s1" and t: "t < PAGING_PAGES" "mem_map s1 t = 0"
    and fd: "frame_of fd \<noteq> 0" "table_kept s fd"
  shows "table_kept (table_entered s1 t (tb + i)) fd" "table_apart (table_entered s1 t (tb + i)) fd t"
    "pmem (table_entered s1 t (tb + i)) (frame_of fd) = pmem s (frame_of fd)"
proof -
  let ?A = "table_entered s1 t (tb + i)"
  note a = table_entered_acct [OF acct t]
  have apart: "f \<noteq> page_frame t" if "kept_frame s f" for f
    using that a(3) t(1) by (auto simp: kept_frame_def)
  have k: "kept_frame s (frame_of fd)" using fd(2) by (simp add: table_kept_def)
  show same: "pmem ?A (frame_of fd) = pmem s (frame_of fd)"
    using dir_acct_kept [OF acct fd(1) k] apart [OF k] fd(1) by (simp add: table_entered_def)
  show "table_kept ?A fd"
    using fd(2) kept_frame_ext [OF _ a(1)] by (auto simp: table_kept_def same)
  show "table_apart ?A fd t"
    using fd(2) apart by (auto simp: table_apart_def table_kept_def same)
qed

lemma copy_dir_entry_acct:
  assumes acct: "dir_acct s tb i L s1" and t: "t < PAGING_PAGES" "mem_map s1 t = 0"
    and rng: "tb + i < 1024"
    and inv: "table_copy_inv (table_entered s1 t (tb + i)) fd t k ps s2" and k: "k \<le> 1024"
  shows "dir_acct s tb (Suc i) (L @ ps @ [t]) s2"
    "\<forall>p \<in> set L. pmem s2 (page_frame p) = pmem s1 (page_frame p)"
    "\<forall>d < 1024. d \<noteq> tb + i \<longrightarrow> pmem s2 0 (of_nat d) = pmem s1 0 (of_nat d)"
    "pmem s2 0 (of_nat (tb + i)) = page_addr t OR 7"
    "\<forall>f. f \<noteq> 0 \<longrightarrow> kept_frame s f \<longrightarrow> pmem s2 f = pmem s f"
proof -
  let ?A = "table_entered s1 t (tb + i)"
  note a = table_entered_acct [OF acct t] and acct' = acct [unfolded dir_acct_def]
  note inv' = inv [unfolded table_copy_inv_def]
  have "alloc_ext ((L @ [t]) @ ps) s s2" using alloc_ext_trans [OF a(1)] inv' by blast
  then have ext: "alloc_ext (L @ ps @ [t]) s s2" by (auto simp: alloc_ext_def fun_eq_iff)
  have pool: "\<forall>p \<in> set (L @ ps @ [t]). p < PAGING_PAGES" using ext by (auto simp: alloc_ext_def)
  have zero_new: "(0 :: u32) \<notin> page_frame ` set (L @ ps @ [t])"
    using pool by (metis imageE page_frame_nonzero)
  have out: "pmem s2 f = pmem ?A f" if "f \<noteq> page_frame t" "f \<notin> page_frame ` set ps" for f
    using inv' that by blast
  have zero: "pmem s2 0 = pmem ?A 0" using zero_new by (intro out) auto
  show slots: "\<forall>d < 1024. d \<noteq> tb + i \<longrightarrow> pmem s2 0 (of_nat d) = pmem s1 0 (of_nat d)"
    and slot: "pmem s2 0 (of_nat (tb + i)) = page_addr t OR 7"
    using rng by (auto simp: zero table_entered_def dword_index_inj)
  show old: "\<forall>p \<in> set L. pmem s2 (page_frame p) = pmem s1 (page_frame p)"
  proof
    fix p assume p: "p \<in> set L"
    then have "page_frame p \<noteq> page_frame t" "page_frame p \<notin> page_frame ` set ps"
      using ext pool by (auto simp: alloc_ext_def page_frame_inj)
    then show "pmem s2 (page_frame p) = pmem s1 (page_frame p)"
      using out [of "page_frame p"] p pool by (simp add: table_entered_def)
  qed
  have frames: "\<forall>f. f \<noteq> 0 \<longrightarrow> f \<notin> page_frame ` set (L @ ps @ [t]) \<longrightarrow> pmem s2 f = pmem s f"
    using out acct' by (simp add: table_entered_def image_Un)
  then show "\<forall>f. f \<noteq> 0 \<longrightarrow> kept_frame s f \<longrightarrow> pmem s2 f = pmem s f"
    using kept_frame_not_new [OF _ ext] by blast
  have "range_refs (pmem s1) tb i = range_refs (pmem s2) tb i"
  proof (rule range_refs_cong)
    fix j assume j: "j < i"
    then show same: "pmem s1 0 (of_nat (tb + j)) = pmem s2 0 (of_nat (tb + j))"
      using slots rng by simp
    assume "is_present (pmem s1 0 (of_nat (tb + j)))"
    then have "frame_of (pmem s1 0 (of_nat (tb + j))) \<in> page_frame ` set L"
      using acct' pool j by (intro range_refs_table [where n = i]) auto
    then show "pmem s1 (frame_of (pmem s1 0 (of_nat (tb + j)))) = pmem s2 (frame_of (pmem s1 0 (of_nat (tb + j))))"
      using old by auto
  qed
  moreover have "slot_refs (pmem s2) (tb + i) = map page_addr (ps @ [t])"
  proof -
    have "table_refs (pmem s2) (page_frame t) 1024 = table_refs (pmem s2) (page_frame t) k"
      using inv' k by (intro table_refs_zero_tail) auto
    moreover have "frame_of (page_addr t OR 7) = page_frame t" using t(1) by (rule frame_of_entry)
    ultimately show ?thesis
      using inv' t(1) by (simp add: slot_refs_def slot Let_def page_addr_facts)
  qed
  ultimately have refs: "range_refs (pmem s2) tb (Suc i) = map page_addr (L @ ps @ [t])"
    using acct' by (simp add: range_refs_Suc)
  show "dir_acct s tb (Suc i) (L @ ps @ [t]) s2"
    unfolding dir_acct_def using ext frames refs slots acct' by (auto simp: less_Suc_eq)
qed


lemma entry_copied_source:
  "(is_present e \<Longrightarrow> m2 (frame_of e) = m1 (frame_of e)) \<Longrightarrow> entry_copied A m1 m' e e' \<Longrightarrow>
     entry_copied A m2 m' e e'"
  by (auto simp: entry_copied_def)

definition copy_inv :: "mm_state \<Rightarrow> nat \<Rightarrow> nat \<Rightarrow> nat \<Rightarrow> nat list \<Rightarrow> mm_state \<Rightarrow> bool" where
  "copy_inv s sf tb i L s1 \<longleftrightarrow> dir_acct s tb i L s1 \<and>
     (\<forall>k < i. slot_copied (set L) (pmem s1) (sf + k) (tb + k))"

text \<open>What \<open>copy_ready\<close> says of the source's slot \<open>k\<close>, once the slot is known to be present.\<close>

lemma copy_ready_source:
  assumes "copy_ready s sf tb n" "k < n" "is_present (pmem s 0 (of_nat (sf + k)))"
  shows "frame_of (pmem s 0 (of_nat (sf + k))) \<noteq> 0" "table_kept s (pmem s 0 (of_nat (sf + k)))"
    "\<And>j. j < 1024 \<Longrightarrow> is_present (pmem s (frame_of (pmem s 0 (of_nat (sf + k)))) (of_nat j)) \<Longrightarrow> Suc k \<noteq> n \<Longrightarrow>
       frame_of (pmem s (frame_of (pmem s 0 (of_nat (sf + k)))) (of_nat j)) \<noteq> 0"
  using assms unfolding copy_ready_def by (simp_all del: of_nat_add, blast)

lemma copy_ready_slots:
  assumes "copy_ready s sf tb n" "i \<le> n" "k < n" "dir_acct s tb i L s1"
  shows "pmem s1 0 (of_nat (sf + k)) = pmem s 0 (of_nat (sf + k))"
  using assms unfolding copy_ready_def dir_acct_def by simp

lemma slot_copied_kept:
  assumes ready: "copy_ready s sf tb n" and i: "Suc i \<le> n" and k: "k < i"
    and acct: "dir_acct s tb i L s1" "dir_acct s tb (Suc i) L' s2"
    and old: "set L \<subseteq> set L'" "\<forall>p \<in> set L. pmem s2 (page_frame p) = pmem s1 (page_frame p)"
    and slots: "\<forall>d < 1024. d \<noteq> tb + i \<longrightarrow> pmem s2 0 (of_nat d) = pmem s1 0 (of_nat d)"
    and copied: "slot_copied (set L) (pmem s1) (sf + k) (tb + k)"
  shows "slot_copied (set L') (pmem s2) (sf + k) (tb + k)"
proof -
  let ?fd = "pmem s 0 (of_nat (sf + k))"
  have fd: "pmem s1 0 (of_nat (sf + k)) = ?fd" "pmem s2 0 (of_nat (sf + k)) = ?fd"
    using copy_ready_slots [OF ready _ _ acct(1)] copy_ready_slots [OF ready _ _ acct(2)] i k by simp_all
  from copied obtain t where t: "t \<in> set L" "t < PAGING_PAGES" "is_present ?fd"
    "pmem s1 0 (of_nat (tb + k)) = page_addr t OR 7"
    "\<And>j. j < 1024 \<Longrightarrow> entry_copied (set L) (pmem s1) (pmem s1) (pmem s1 (frame_of ?fd) (of_nat j))
              (pmem s1 (page_frame t) (of_nat j))"
    by (auto simp: slot_copied_def fd)
  note src = copy_ready_source [OF ready _ t(3)]
  have kf: "kept_frame s (frame_of ?fd)" using src(2) i k by (simp add: table_kept_def)
  have same: "pmem s1 (frame_of ?fd) = pmem s (frame_of ?fd)" "pmem s2 (frame_of ?fd) = pmem s (frame_of ?fd)"
    using dir_acct_kept [OF acct(1) _ kf] dir_acct_kept [OF acct(2) _ kf] src(1) i k by simp_all
  have tb: "pmem s2 0 (of_nat (tb + k)) = page_addr t OR 7"
    using slots t(4) ready i k by (simp add: copy_ready_def)
  have "entry_copied (set L') (pmem s2) (pmem s2) (pmem s (frame_of ?fd) (of_nat j))
          (pmem s2 (page_frame t) (of_nat j))" if j: "j < 1024" for j
  proof (rule entry_copied_source [where ?m1.0 = "pmem s1"])
    show "entry_copied (set L') (pmem s1) (pmem s2) (pmem s (frame_of ?fd) (of_nat j)) (pmem s2 (page_frame t) (of_nat j))"
    proof -
      have "entry_copied (set L) (pmem s1) (pmem s1) (pmem s (frame_of ?fd) (of_nat j)) (pmem s1 (page_frame t) (of_nat j))"
        using t(5) [OF j] unfolding same(1) .
      then have "entry_copied (set L') (pmem s1) (pmem s2) (pmem s (frame_of ?fd) (of_nat j)) (pmem s1 (page_frame t) (of_nat j))"
        by (rule entry_copied_mono) (use old in auto)
      then show ?thesis using old(2) t(1) by simp
    qed
    assume e: "is_present (pmem s (frame_of ?fd) (of_nat j))"
    have "frame_of (pmem s (frame_of ?fd) (of_nat j)) \<noteq> 0" using src(3) [OF _ j e] i k by simp
    moreover have "kept_frame s (frame_of (pmem s (frame_of ?fd) (of_nat j)))"
      using src(2) e j i k by (simp add: table_kept_def)
    ultimately show "pmem s2 (frame_of (pmem s (frame_of ?fd) (of_nat j))) = pmem s1 (frame_of (pmem s (frame_of ?fd) (of_nat j)))"
      using dir_acct_kept [OF acct(1)] dir_acct_kept [OF acct(2)] by simp
  qed
  then show ?thesis
    unfolding slot_copied_def fd using t(1-3) old(1) tb same(2) by auto
qed

lemma slot_copied_new:
  assumes ready: "copy_ready s sf tb n" and i: "i < n"
    and acct: "dir_acct s tb i L s1" "dir_acct s tb (Suc i) (L @ ps @ [t]) s2"
    and t: "t < PAGING_PAGES" "mem_map s1 t = 0"
    and fd: "is_present (pmem s 0 (of_nat (sf + i)))"
    and inv: "table_copy_inv (table_entered s1 t (tb + i)) (pmem s 0 (of_nat (sf + i))) t 1024 ps s2"
    and slot: "pmem s2 0 (of_nat (tb + i)) = page_addr t OR 7"
  shows "slot_copied (set (L @ ps @ [t])) (pmem s2) (sf + i) (tb + i)"
proof -
  let ?fd = "pmem s 0 (of_nat (sf + i))" and ?A = "table_entered s1 t (tb + i)"
  note src = copy_ready_source [OF ready i fd] and inv' = inv [unfolded table_copy_inv_def]
  note kept = source_still_kept [OF acct(1) t src(1,2)]
  have fd2: "pmem s2 0 (of_nat (sf + i)) = ?fd"
    using copy_ready_slots [OF ready _ i acct(2)] i by simp
  have tab: "pmem s2 (frame_of ?fd) = pmem ?A (frame_of ?fd)"
    using dir_acct_kept [OF acct(2) src(1)] src(2) kept(3) by (simp add: table_kept_def)
  have "entry_copied (set (L @ ps @ [t])) (pmem s2) (pmem s2) (pmem s2 (frame_of ?fd) (of_nat j))
          (pmem s2 (page_frame t) (of_nat j))" if j: "j < 1024" for j
  proof (rule entry_copied_source [where ?m1.0 = "pmem ?A"])
    have "entry_copied (set ps) (pmem ?A) (pmem s2) (pmem ?A (frame_of ?fd) (of_nat j)) (pmem s2 (page_frame t) (of_nat j))"
      using inv' j by blast
    then show "entry_copied (set (L @ ps @ [t])) (pmem ?A) (pmem s2) (pmem s2 (frame_of ?fd) (of_nat j)) (pmem s2 (page_frame t) (of_nat j))"
      unfolding tab by (rule entry_copied_mono) auto
    assume "is_present (pmem s2 (frame_of ?fd) (of_nat j))"
    then have "kept_frame ?A (frame_of (pmem ?A (frame_of ?fd) (of_nat j)))"
      "frame_of (pmem ?A (frame_of ?fd) (of_nat j)) \<noteq> page_frame t"
      using kept(1,2) j by (simp_all add: tab table_kept_def table_apart_def)
    then show "pmem s2 (frame_of (pmem s2 (frame_of ?fd) (of_nat j))) = pmem ?A (frame_of (pmem s2 (frame_of ?fd) (of_nat j)))"
      using inv' kept_frame_not_new unfolding tab by blast
  qed
  then show ?thesis
    unfolding slot_copied_def fd2 using t(1) fd slot by auto
qed


lemma copy_dir_entry_step:
  assumes ready: "copy_ready s (dir_slot from) (dir_slot to) n" and i: "i < n"
    and inv: "copy_inv s (dir_slot from) (dir_slot to) i L s1"
    and step: "copy_dir_entry (dir_addr from) (dir_addr to) i s1 = Inr (r, s2)"
  shows "case r of None \<Rightarrow> \<exists>L'. copy_inv s (dir_slot from) (dir_slot to) (Suc i) L' s2
    | Some v \<Rightarrow> v = - ENOMEM \<and> (\<forall>q < PAGING_PAGES. mem_map s2 q \<noteq> 0) \<and>
        (\<exists>L' k. k \<le> n \<and> dir_acct s (dir_slot to) k L' s2)"
proof -
  let ?sf = "dir_slot from" and ?tb = "dir_slot to"
  let ?fd = "pmem s 0 (of_nat (?sf + i))"
  have rng: "?sf + i < 1024" "?tb + i < 1024" using ready i by (simp_all add: copy_ready_def)
  have acct: "dir_acct s ?tb i L s1" using inv by (simp add: copy_inv_def)
  have fd1: "pmem s1 0 (of_nat (?sf + i)) = ?fd"
    using copy_ready_slots [OF ready _ i acct] i by simp
  from copy_dir_entry_cases [OF step rng] have fd: "is_present ?fd"
    and alt: "(r = Some (- ENOMEM) \<and> s2 = s1 \<and> (\<forall>k < PAGING_PAGES. mem_map s1 k \<noteq> 0)) \<or>
     (\<exists>t < PAGING_PAGES. mem_map s1 t = 0 \<and>
        for_ret (copy_pt_entry (page_base ?fd) (page_addr t)) [0 ..< 1024] (table_entered s1 t (?tb + i)) = Inr (r, s2))"
    by (auto simp: fd1)
  from alt show ?thesis
  proof
    assume "r = Some (- ENOMEM) \<and> s2 = s1 \<and> (\<forall>k < PAGING_PAGES. mem_map s1 k \<noteq> 0)"
    then show ?thesis using acct i less_imp_le by fastforce
  next
    assume "\<exists>t < PAGING_PAGES. mem_map s1 t = 0 \<and>
        for_ret (copy_pt_entry (page_base ?fd) (page_addr t)) [0 ..< 1024] (table_entered s1 t (?tb + i)) = Inr (r, s2)"
    then obtain t where t: "t < PAGING_PAGES" "mem_map s1 t = 0"
      and loop: "for_ret (copy_pt_entry (page_base ?fd) (page_addr t)) [0 ..< 1024] (table_entered s1 t (?tb + i)) = Inr (r, s2)"
      by blast
    note src = copy_ready_source [OF ready i fd]
    note kept = source_still_kept [OF acct t src(1,2)]
    have used: "mem_map (table_entered s1 t (?tb + i)) t \<noteq> 0"
      and zero: "\<forall>j < 1024. pmem (table_entered s1 t (?tb + i)) (page_frame t) (of_nat j) = 0"
      using t by (simp_all add: table_entered_def)
    from copy_table_inv [OF loop t(1) used zero kept(1,2)] obtain ps k
      where ps: "table_copy_inv (table_entered s1 t (?tb + i)) ?fd t k ps s2" "k \<le> 1024" "r = None \<longrightarrow> k = 1024"
        "r \<noteq> None \<longrightarrow> r = Some (- ENOMEM) \<and> (\<forall>i < PAGING_PAGES. mem_map s2 i \<noteq> 0)" by blast
    note acct2 = copy_dir_entry_acct [OF acct t rng(2) ps(1,2)]
    show ?thesis
    proof (cases r)
      case (Some v)
      then show ?thesis using ps(4) acct2(1) i Suc_leI by fastforce
    next
      case None
      with ps have inv1024: "table_copy_inv (table_entered s1 t (?tb + i)) ?fd t 1024 ps s2" by simp
      have "slot_copied (set (L @ ps @ [t])) (pmem s2) (?sf + k) (?tb + k)" if "k < Suc i" for k
      proof (cases "k = i")
        case True
        then show ?thesis using slot_copied_new [OF ready i acct acct2(1) t fd inv1024 acct2(4)] by simp
      next
        case False
        with that have "k < i" by simp
        then show ?thesis
          using slot_copied_kept [OF ready _ _ acct acct2(1) _ acct2(2,3), of k] inv i
          by (auto simp: copy_inv_def)
      qed
      then have "copy_inv s ?sf ?tb (Suc i) (L @ ps @ [t]) s2"
        unfolding copy_inv_def using acct2(1) by blast
      with None show ?thesis by auto
    qed
  qed
qed

text \<open>The whole of \<open>copy_page_tables\<close>.\<close>

lemma copy_page_tables_inv:
  assumes run: "copy_page_tables from to sz s = Inr (r, s')"
    and ready: "copy_ready s (dir_slot from) (dir_slot to) (nr_of_dir_ent sz)"
  shows "\<exists>L k. k \<le> nr_of_dir_ent sz \<and> dir_acct s (dir_slot to) k L s' \<and>
     (r = 0 \<longrightarrow> copy_inv s (dir_slot from) (dir_slot to) (nr_of_dir_ent sz) L s') \<and>
     (r \<noteq> 0 \<longrightarrow> r = - ENOMEM \<and> (\<forall>i < PAGING_PAGES. mem_map s' i \<noteq> 0))"
proof -
  let ?n = "nr_of_dir_ent sz" and ?sf = "dir_slot from" and ?tb = "dir_slot to"
  let ?P = "\<lambda>k s1. \<exists>L. copy_inv s ?sf ?tb k L s1"
  let ?Q = "\<lambda>v s1. v = - ENOMEM \<and> (\<forall>q < PAGING_PAGES. mem_map s1 q \<noteq> 0) \<and>
              (\<exists>L k. k \<le> ?n \<and> dir_acct s ?tb k L s1)"
  from run obtain r1 where loop: "for_ret (copy_dir_entry (dir_addr from) (dir_addr to)) [0 ..< ?n] s = Inr (r1, s')"
    and r: "r = (case r1 of Some v \<Rightarrow> v | None \<Rightarrow> 0)"
    by (auto simp: copy_page_tables_def rbind_eq_Inr split: if_splits)
  have start: "?P 0 s"
    by (auto intro!: exI [of _ "[]"] simp: copy_inv_def dir_acct_def alloc_ext_Nil range_refs_def)
  have "case r1 of None \<Rightarrow> ?P ?n s' | Some v \<Rightarrow> ?Q v s'"
  proof (rule for_ret_upt_inv [where P = ?P and Q = ?Q, OF loop start])
    fix k s1 s2 assume "k < ?n" "?P k s1" "copy_dir_entry (dir_addr from) (dir_addr to) k s1 = Inr (None, s2)"
    then show "?P (Suc k) s2" using copy_dir_entry_step [OF ready] by fastforce
  next
    fix k s1 v s2
    assume "k < ?n" "?P k s1" "copy_dir_entry (dir_addr from) (dir_addr to) k s1 = Inr (Some v, s2)"
    then show "?Q v s2" using copy_dir_entry_step [OF ready] by fastforce
  qed
  then show ?thesis using r by (cases r1) (auto simp: copy_inv_def ENOMEM_def)
qed

section \<open>Freeing a range of the directory\<close>

text \<open>The use counts when each page of \<open>A\<close> has been given back once.\<close>

definition given_back :: "u32 set \<Rightarrow> mm_state \<Rightarrow> nat \<Rightarrow> u8" where
  "given_back A s i = (if i < PAGING_PAGES \<and> page_addr i \<in> A then mem_map s i - 1 else mem_map s i)"

definition in_use :: "mm_state \<Rightarrow> u32 \<Rightarrow> bool" where
  "in_use s a \<longleftrightarrow> (\<exists>p < PAGING_PAGES. a = page_addr p \<and> mem_map s p \<noteq> 0)"

lemma given_back_empty [simp]: "given_back {} s = mem_map s"
  by (simp add: given_back_def fun_eq_iff)

text \<open>One more page goes back.\<close>

lemma free_page_given_back:
  assumes "mem_map s1 = given_back A s" "in_use s a" "a \<notin> A"
  shows "\<exists>s2. free_page a s1 = Inr s2 \<and> mem_map s2 = given_back (insert a A) s \<and> pmem s2 = pmem s1"
proof -
  from assms(2) obtain p where p: "p < PAGING_PAGES" "a = page_addr p" "mem_map s p \<noteq> 0"
    by (auto simp: in_use_def)
  then have "mem_map s1 p = mem_map s p" using assms by (simp add: given_back_def)
  with p have "free_page a s1 = Inr (s1\<lparr>mem_map := (mem_map s1)(p := mem_map s p - 1)\<rparr>)"
    by (simp add: free_page_of_page)
  moreover have "(mem_map s1)(p := mem_map s p - 1) = given_back (insert a A) s"
    using p assms(1) by (auto simp: fun_eq_iff given_back_def page_addr_inj)
  ultimately show ?thesis by auto
qed

lemma table_refs_split:
  assumes "j < n" "is_present (m f (of_nat j))"
  shows "page_base (m f (of_nat j)) \<in> set (table_refs m f n)"
    "distinct (table_refs m f n) \<Longrightarrow> page_base (m f (of_nat j)) \<notin> set (table_refs m f j)"
proof -
  obtain rest where "table_refs m f n = table_refs m f (Suc j) @ rest"
    using upt_add_eq_append [of 0 "Suc j" "n - Suc j"] assms(1) by (simp add: table_refs_def)
  then show "page_base (m f (of_nat j)) \<in> set (table_refs m f n)"
    "distinct (table_refs m f n) \<Longrightarrow> page_base (m f (of_nat j)) \<notin> set (table_refs m f j)"
    using assms(2) by (auto simp: table_refs_Suc)
qed

lemma free_table:
  fixes s1 :: mm_state
  assumes dist: "distinct (table_refs (pmem s) (frame_of e) 1024)"
    and use: "\<forall>a \<in> set (table_refs (pmem s) (frame_of e) 1024). in_use s a \<and> a \<notin> A"
    and start: "mem_map s1 = given_back A s" "pmem s1 (frame_of e) = pmem s (frame_of e)"
  shows "\<exists>s2. for_each (free_pt_entry (page_base e)) [0 ..< 1024] s1 = Inr s2 \<and>
     mem_map s2 = given_back (set (table_refs (pmem s) (frame_of e) 1024) \<union> A) s \<and>
     (\<forall>f. f \<noteq> frame_of e \<longrightarrow> pmem s2 f = pmem s1 f)"
proof -
  let ?T = "frame_of e" and ?m = "pmem s"
  let ?P = "\<lambda>k (s2 :: mm_state). mem_map s2 = given_back (set (table_refs ?m ?T k) \<union> A) s \<and>
     (\<forall>f. f \<noteq> ?T \<longrightarrow> pmem s2 f = pmem s1 f) \<and>
     (\<forall>j. k \<le> j \<longrightarrow> j < 1024 \<longrightarrow> pmem s2 ?T (of_nat j) = ?m ?T (of_nat j))"
  have "\<exists>s2. for_each (free_pt_entry (page_base e)) [0 ..< 1024] s1 = Inr s2 \<and> ?P 1024 s2"
  proof (rule for_each_upt_ok [where P = ?P])
    show "?P 0 s1" using start by (simp add: table_refs_def)
  next
    fix k s2 assume k: "k < 1024" and P: "?P k s2"
    let ?e = "?m ?T (of_nat k)"
    have e: "rd32 (pmem s2) (page_base e + 4 * of_nat k) = ?e" using P k by (simp add: rd_table)
    have wr: "wr32 m (page_base e + 4 * of_nat k) 0 = m(?T := (m ?T)(of_nat k := 0))" for m
      using k by (simp add: wr_table)
    show "\<exists>s3. free_pt_entry (page_base e) k s2 = Inr s3 \<and> ?P (Suc k) s3"
    proof (cases "is_present ?e")
      case False
      then show ?thesis using P e k
        by (auto simp: free_pt_entry_def Let_def wr table_refs_Suc dword_index_inj)
    next
      case True
      note split = table_refs_split [where m = ?m and f = ?T, OF k True]
      have "in_use s (page_base ?e)" "page_base ?e \<notin> set (table_refs ?m ?T k) \<union> A"
        using use split dist by auto
      from free_page_given_back [OF conjunct1 [OF P] this] obtain s3 where
        s3: "free_page (page_base ?e) s2 = Inr s3" "pmem s3 = pmem s2"
          "mem_map s3 = given_back (insert (page_base ?e) (set (table_refs ?m ?T k) \<union> A)) s" by blast
      then show ?thesis using P e k True
        by (auto simp: free_pt_entry_def Let_def wr table_refs_Suc dword_index_inj)
    qed
  qed
  then show ?thesis by blast
qed


lemma page_aligned_base: "page_aligned p \<Longrightarrow> page_base p = p"
  by (simp add: page_aligned_def word32_eq_bits bit_simps kbits)

lemma range_refs_split:
  assumes "k < n"
  shows "set (slot_refs m (d + k)) \<subseteq> set (range_refs m d n)"
    "distinct (range_refs m d n) \<Longrightarrow> distinct (slot_refs m (d + k)) \<and>
       set (slot_refs m (d + k)) \<inter> set (range_refs m d k) = {}"
proof -
  obtain rest where "range_refs m d n = range_refs m d (Suc k) @ rest"
    using upt_add_eq_append [of 0 "Suc k" "n - Suc k"] assms by (simp add: range_refs_def)
  then show "set (slot_refs m (d + k)) \<subseteq> set (range_refs m d n)"
    "distinct (range_refs m d n) \<Longrightarrow> distinct (slot_refs m (d + k)) \<and>
       set (slot_refs m (d + k)) \<inter> set (range_refs m d k) = {}"
    by (auto simp: range_refs_Suc)
qed

lemma range_refs_sub: "k \<le> n \<Longrightarrow> set (range_refs m d k) \<subseteq> set (range_refs m d n)"
  by (force simp: range_refs_def)

lemma page_base_of_page: "p < PAGING_PAGES \<Longrightarrow> page_base (page_addr p) = page_addr p"
  by (metis page_addr_facts(1) page_aligned_base)

lemma in_use_frame: "in_use s a \<Longrightarrow> frame_of a \<noteq> 0 \<and> page_base a = a"
  by (metis in_use_def page_addr_facts(2) page_frame_nonzero page_base_of_page)

lemma in_use_frame_inj: "in_use s a \<Longrightarrow> in_use s b \<Longrightarrow> frame_of a = frame_of b \<Longrightarrow> a = b"
  by (metis in_use_def page_addr_facts(2) page_frame_inj)

text \<open>A present slot: the entries of its table are freed, then the table's page.\<close>

lemma slot_freed:
  assumes e: "e = pmem s 0 (of_nat d)" "is_present e" and dist: "distinct (slot_refs (pmem s) d)"
    and use: "\<forall>x \<in> set (slot_refs (pmem s) d). in_use s x \<and> x \<notin> R" and useR: "\<forall>x \<in> R. in_use s x"
    and s1: "mem_map s1 = given_back R s" "\<forall>f. f \<noteq> 0 \<longrightarrow> f \<notin> frame_of ` R \<longrightarrow> pmem s1 f = pmem s f"
  shows "\<exists>s2 s3. for_each (free_pt_entry (page_base e)) [0 ..< 1024] s1 = Inr s2 \<and> free_page (page_base e) s2 = Inr s3 \<and>
     pmem s3 = pmem s2 \<and> (\<forall>f. f \<noteq> frame_of e \<longrightarrow> pmem s2 f = pmem s1 f) \<and> frame_of e \<noteq> 0 \<and>
     frame_of e \<in> frame_of ` set (slot_refs (pmem s) d) \<and> mem_map s3 = given_back (set (slot_refs (pmem s) d) \<union> R) s"
proof -
  let ?m = "pmem s" and ?T = "frame_of e"
  have refs: "slot_refs ?m d = table_refs ?m ?T 1024 @ [page_base e]" using e by (simp add: slot_refs_def Let_def)
  have useT: "in_use s (page_base e)" "page_base e \<notin> R" using use refs by auto
  have fr: "frame_of (page_base e) = ?T" by simp
  have T0: "?T \<noteq> 0" using in_use_frame [OF useT(1)] by simp
  have "?T \<notin> frame_of ` R" using in_use_frame_inj [OF useT(1)] useR useT(2) by force
  then have tab: "pmem s1 ?T = ?m ?T" using s1(2) T0 by blast
  have d: "distinct (table_refs ?m ?T 1024)" "page_base e \<notin> set (table_refs ?m ?T 1024)" using dist refs by auto
  have "\<forall>x \<in> set (table_refs ?m ?T 1024). in_use s x \<and> x \<notin> R" using use refs by auto
  from free_table [OF d(1) this s1(1) tab] obtain s2 where
    s2: "for_each (free_pt_entry (page_base e)) [0 ..< 1024] s1 = Inr s2"
      "mem_map s2 = given_back (set (table_refs ?m ?T 1024) \<union> R) s" "\<forall>f. f \<noteq> ?T \<longrightarrow> pmem s2 f = pmem s1 f" by blast
  have "page_base e \<notin> set (table_refs ?m ?T 1024) \<union> R" using d useT(2) by auto
  from free_page_given_back [OF s2(2) useT(1) this] obtain s3 where
    s3: "free_page (page_base e) s2 = Inr s3" "pmem s3 = pmem s2"
      "mem_map s3 = given_back (insert (page_base e) (set (table_refs ?m ?T 1024) \<union> R)) s" by blast
  have "insert (page_base e) (set (table_refs ?m ?T 1024) \<union> R) = set (slot_refs ?m d) \<union> R" by (simp add: refs)
  moreover have "?T \<in> frame_of ` set (slot_refs ?m d)" using fr by (intro image_eqI [of _ _ "page_base e"]) (simp_all add: refs)
  ultimately show ?thesis using s2(1,3) s3 T0 by metis
qed

text \<open>After the first \<open>k\<close> slots of the range.\<close>

definition range_freed :: "mm_state \<Rightarrow> nat \<Rightarrow> nat \<Rightarrow> nat \<Rightarrow> mm_state \<Rightarrow> bool" where
  "range_freed s d n k s2 \<longleftrightarrow> mem_map s2 = given_back (set (range_refs (pmem s) d k)) s \<and>
     (\<forall>i < k. \<not> is_present (pmem s2 0 (of_nat (d + i)))) \<and>
     (\<forall>i. k \<le> i \<longrightarrow> i < n \<longrightarrow> pmem s2 0 (of_nat (d + i)) = pmem s 0 (of_nat (d + i))) \<and>
     (\<forall>f. f \<noteq> 0 \<longrightarrow> f \<notin> frame_of ` set (range_refs (pmem s) d k) \<longrightarrow> pmem s2 f = pmem s f)"

lemma free_dir_entry_step:
  assumes rng: "dir_slot a + n \<le> 1024" and k: "k < n"
    and dist: "distinct (range_refs (pmem s) (dir_slot a) n)" and use: "\<forall>x \<in> set (range_refs (pmem s) (dir_slot a) n). in_use s x"
    and inv: "range_freed s (dir_slot a) n k s1"
  shows "\<exists>s2. free_dir_entry (dir_addr a) k s1 = Inr s2 \<and> range_freed s (dir_slot a) n (Suc k) s2"
proof -
  let ?d = "dir_slot a" and ?m = "pmem s"
  let ?R = "set (range_refs ?m ?d k)" and ?e = "?m 0 (of_nat (?d + k))"
  note P = inv [unfolded range_freed_def] and split = range_refs_split [OF k, of ?m ?d]
  from P have P1: "mem_map s1 = given_back ?R s" and P2: "\<forall>f. f \<noteq> 0 \<longrightarrow> f \<notin> frame_of ` ?R \<longrightarrow> pmem s1 f = ?m f" by blast+
  have dk: "?d + k < 1024" using rng k by simp
  have e: "rd32 (pmem s1) (dir_addr a + 4 * of_nat k) = ?e" using P k dk by (simp add: dir_access)
  show ?thesis
  proof (cases "is_present ?e")
    case False
    then have "slot_refs ?m (?d + k) = []" by (simp add: slot_refs_def)
    with False P e k show ?thesis
      by (auto simp: range_freed_def free_dir_entry_def Let_def not_present range_refs_Suc less_Suc_eq)
  next
    case True
    have useR: "\<forall>x \<in> ?R. in_use s x" using use range_refs_sub [of k n ?m ?d] k by auto
    have useS: "\<forall>x \<in> set (slot_refs ?m (?d + k)). in_use s x \<and> x \<notin> ?R" using use split(1) split(2) [OF dist] by auto
    obtain s2 s3 where s2: "for_each (free_pt_entry (page_base ?e)) [0 ..< 1024] s1 = Inr s2" "\<forall>f. f \<noteq> frame_of ?e \<longrightarrow> pmem s2 f = pmem s1 f"
      and s3: "free_page (page_base ?e) s2 = Inr s3" "pmem s3 = pmem s2" "mem_map s3 = given_back (set (slot_refs ?m (?d + k)) \<union> ?R) s"
      and T: "frame_of ?e \<noteq> 0" "frame_of ?e \<in> frame_of ` set (slot_refs ?m (?d + k))"
      using slot_freed [OF refl True conjunct1 [OF split(2) [OF dist]] useS useR P1 P2] by blast
    have e2: "rd32 (pmem s2) (dir_addr a + 4 * of_nat k) = ?e" using s2(2) T(1) P k dk by (simp add: dir_access)
    let ?s4 = "s3\<lparr>pmem := (pmem s3)(0 := (pmem s3 0)(of_nat (?d + k) := 0))\<rparr>"
    have run: "free_dir_entry (dir_addr a) k s1 = Inr ?s4"
      using e e2 True s2(1) s3(1,2) dk by (simp add: free_dir_entry_def Let_def not_present dir_access)
    have slots: "of_nat (?d + i) = (of_nat (?d + k) :: u32) \<longleftrightarrow> i = k" if "i < n" for i
      using that k rng dword_index_inj [of "?d + i" "?d + k"] by simp
    have "range_freed s ?d n (Suc k) ?s4" unfolding range_freed_def
    proof (intro conjI)
      show "mem_map ?s4 = given_back (set (range_refs ?m ?d (Suc k))) s" using s3(3) by (simp add: range_refs_Suc Un_commute)
      show "\<forall>i < Suc k. \<not> is_present (pmem ?s4 0 (of_nat (?d + i)))" using P s2(2) s3(2) T(1) k slots by (auto simp: less_Suc_eq)
      show "\<forall>i. Suc k \<le> i \<longrightarrow> i < n \<longrightarrow> pmem ?s4 0 (of_nat (?d + i)) = ?m 0 (of_nat (?d + i))"
        using P s2(2) s3(2) T(1) slots by auto
      show "\<forall>f. f \<noteq> 0 \<longrightarrow> f \<notin> frame_of ` set (range_refs ?m ?d (Suc k)) \<longrightarrow> pmem ?s4 f = ?m f"
      proof (intro allI impI)
        fix f assume "f \<noteq> 0" and f: "f \<notin> frame_of ` set (range_refs ?m ?d (Suc k))"
        then have "f \<notin> frame_of ` ?R" "f \<noteq> frame_of ?e" using T(2) unfolding range_refs_Suc set_append image_Un by blast+
        then show "pmem ?s4 f = ?m f" using P2 s2(2) s3(2) \<open>f \<noteq> 0\<close> by simp
      qed
    qed
    with run show ?thesis by blast
  qed
qed

text \<open>
  Freeing the range gives back each page its slots and tables hold, once, empties the slots, and
  touches no other frame.
\<close>

lemma free_range:
  assumes rng: "dir_slot a + n \<le> 1024"
    and dist: "distinct (range_refs (pmem s) (dir_slot a) n)"
    and use: "\<forall>x \<in> set (range_refs (pmem s) (dir_slot a) n). in_use s x"
  shows "\<exists>s2. for_each (free_dir_entry (dir_addr a)) [0 ..< n] s = Inr s2 \<and>
     mem_map s2 = given_back (set (range_refs (pmem s) (dir_slot a) n)) s \<and>
     (\<forall>i < n. \<not> is_present (pmem s2 0 (of_nat (dir_slot a + i)))) \<and>
     (\<forall>f. f \<noteq> 0 \<longrightarrow> f \<notin> frame_of ` set (range_refs (pmem s) (dir_slot a) n) \<longrightarrow> pmem s2 f = pmem s f)"
proof -
  have "\<exists>s2. for_each (free_dir_entry (dir_addr a)) [0 ..< n] s = Inr s2 \<and> range_freed s (dir_slot a) n n s2"
  proof (rule for_each_upt_ok [where P = "range_freed s (dir_slot a) n"])
    show "range_freed s (dir_slot a) n 0 s" by (simp add: range_freed_def range_refs_def)
  qed (rule free_dir_entry_step [OF rng _ dist use])
  then show ?thesis unfolding range_freed_def by blast
qed

section \<open>Virtual addresses\<close>

text \<open>
  The page-table walk of the processor for a 4 KB page, and the double word a virtual address holds
  (\<open>None\<close> where the walk finds an absent entry).
\<close>

definition pte_of :: "phys_mem \<Rightarrow> u32 \<Rightarrow> u32 option" where
  "pte_of m va =
     (let de = rd32 m (dir_addr va)
      in if is_present de
         then (let e = rd32 m (page_base de + 4 * (drop_bit 12 va AND 0x3FF)) in if is_present e then Some e else None)
         else None)"

definition vread :: "phys_mem \<Rightarrow> u32 \<Rightarrow> u32 option" where
  "vread m va = map_option (\<lambda>e. rd32 m (page_base e + (va AND 0xFFC))) (pte_of m va)"

lemma unat_take_bit_u32: "unat (take_bit n (w :: u32)) = unat w mod 2 ^ n"
proof -
  have "unat (take_bit n w) = take_bit n (unat w)" by (rule unsigned_take_bit_eq)
  then show ?thesis by (simp only: take_bit_eq_mod)
qed

lemma aligned_4M_slot:
  fixes a v :: u32
  assumes al: "a AND 0x3FFFFF = 0" and rng: "dir_slot a + dir_slot v < 1024"
  shows "dir_addr (a + v) = dir_addr a + 4 * of_nat (dir_slot v)"
proof -
  have "take_bit 22 a = 0" using al by (simp add: take_bit_eq_mask kbits)
  then have "unat a mod 2 ^ 22 = 0"
    by (metis unsigned_0 unat_take_bit_u32)
  then have a: "unat a = 2 ^ 22 * dir_slot a"
    by (simp add: dir_slot_def unat_drop_bit_u32) (metis mult_div_mod_eq add.right_neutral)
  have v: "unat v = 2 ^ 22 * dir_slot v + unat v mod 2 ^ 22"
    by (simp add: dir_slot_def unat_drop_bit_u32)
  have "unat v mod 2 ^ 22 < 2 ^ 22" by simp
  then have "unat a + unat v < 2 ^ 22 * (dir_slot a + dir_slot v + 1)" using a v by (simp only: distrib_left)
  also have "\<dots> \<le> 2 ^ 22 * 1024" using rng by (intro mult_le_mono2) simp
  finally have lt: "unat a + unat v < 2 ^ 32" by simp
  then have "unat (a + v) = unat a + unat v" by (simp add: unat_plus_if')
  moreover have "(unat a + unat v) div 2 ^ 22 = dir_slot a + dir_slot v"
  proof -
    have "(2 ^ 22 * d + unat v) div 2 ^ 22 = d + unat v div 2 ^ 22" for d :: nat by simp
    then show ?thesis unfolding a by (simp only: dir_slot_def [of v] unat_drop_bit_u32)
  qed
  ultimately have "unat (drop_bit 22 (a + v)) = dir_slot a + dir_slot v" by (simp only: unat_drop_bit_u32)
  then have "drop_bit 22 (a + v) = of_nat (dir_slot a + dir_slot v)" 
  proof -
    have "of_nat (unat w) = w" for w :: u32 by simp
    then show ?thesis using \<open>unat (drop_bit 22 (a + v)) = dir_slot a + dir_slot v\<close> by metis
  qed
  then show ?thesis unfolding dir_slot_address by (simp add: dir_addr_def mult.commute)
qed

lemma aligned_4M_low:
  fixes a v :: u32
  assumes "a AND 0x3FFFFF = 0"
  shows "drop_bit 12 (a + v) AND 0x3FF = drop_bit 12 v AND 0x3FF" "(a + v) AND 0xFFC = v AND 0xFFC"
proof -
  have "take_bit 22 a = 0" using assms by (simp add: take_bit_eq_mask kbits)
  then have "unat a mod 2 ^ 22 = 0" by (metis unsigned_0 unat_take_bit_u32)
  moreover have "unat (a + v) mod 2 ^ 22 = (unat a + unat v) mod 2 ^ 22"
    by (simp add: unat_word_ariths mod_mod_cancel)
  ultimately have "unat (a + v) mod 2 ^ 22 = unat v mod 2 ^ 22" by (simp add: mod_add_left_eq [symmetric])
  then have "unat (take_bit 22 (a + v)) = unat (take_bit 22 v)"
    unfolding unat_take_bit_u32 .
  then have low: "take_bit 22 (a + v) = take_bit 22 v" by (simp only: word_unat_eq_iff)
  have "drop_bit 12 w AND 0x3FF = drop_bit 12 (take_bit 22 w)" "w AND 0xFFC = take_bit 22 w AND 0xFFC" for w :: u32
    by (simp_all add: word32_eq_bits bit_simps kbits)
  then show "drop_bit 12 (a + v) AND 0x3FF = drop_bit 12 v AND 0x3FF" "(a + v) AND 0xFFC = v AND 0xFFC"
    using low by metis+
qed

lemma table_index: "\<exists>j < 1024. drop_bit 12 v AND 0x3FF = (of_nat j :: u32)"
proof -
  have "drop_bit 12 v AND 0x3FF = take_bit 10 (drop_bit 12 v)" by (simp add: take_bit_eq_mask kbits)
  moreover have "unat (take_bit 10 (drop_bit 12 v) :: u32) < 1024"
    unfolding unat_take_bit_u32 by simp
  moreover have "(take_bit 10 (drop_bit 12 v) :: u32) = of_nat (unat (take_bit 10 (drop_bit 12 v) :: u32))" by simp
  ultimately show ?thesis by metis
qed

lemma rd_in_page: "rd32 m (page_base e + (v AND 0xFFC)) = m (frame_of e) (drop_bit 2 (v AND 0xFFC))"
proof -
  have "page_base e AND (v AND 0xFFC) = 0" by (simp add: word32_eq_bits bit_simps kbits)
  then have "page_base e + (v AND 0xFFC) = page_base e OR (v AND 0xFFC)" by (simp add: disjunctive_add_eq_or)
  moreover have "frame_of (page_base e OR (v AND 0xFFC)) = frame_of e"
    by (simp add: frame_of_def word32_eq_bits bit_simps kbits bit_beyond_u32)
  moreover have "dword_of (page_base e OR (v AND 0xFFC)) = drop_bit 2 (v AND 0xFFC)"
    by (simp add: dword_of_def word32_eq_bits bit_simps kbits bit_beyond_u32)
  ultimately show ?thesis by (simp add: rd32_def)
qed

text \<open>The walk at an offset \<open>v\<close> from a 4 MB aligned address, in slots and table entries.\<close>

lemma pte_at:
  assumes al: "a AND 0x3FFFFF = 0" and rng: "dir_slot a + dir_slot v < 1024"
  obtains j where "j < 1024" "drop_bit 12 v AND 0x3FF = of_nat j"
    "\<And>m. pte_of m (a + v) =
       (let de = m 0 (of_nat (dir_slot a + dir_slot v))
        in if is_present de
           then (let e = m (frame_of de) (of_nat j) in if is_present e then Some e else None) else None)"
proof -
  obtain j where j: "j < 1024" "drop_bit 12 v AND 0x3FF = of_nat j" using table_index by blast
  moreover have "pte_of m (a + v) =
       (let de = m 0 (of_nat (dir_slot a + dir_slot v))
        in if is_present de
           then (let e = m (frame_of de) (of_nat j) in if is_present e then Some e else None) else None)" for m
    unfolding pte_of_def aligned_4M_slot [OF al rng] dir_access(1) [OF rng] aligned_4M_low(1) [OF al] j(2)
    by (simp add: Let_def rd_table j(1))
  ultimately show ?thesis using that by blast
qed


section \<open>Properties of fork's and exit's address spaces\<close>

lemma copied_walk:
  assumes copied: "slot_copied A m (dir_slot from + dir_slot v) (dir_slot to + dir_slot v)"
    and al: "from AND 0x3FFFFF = 0" "to AND 0x3FFFFF = 0"
    and rng: "dir_slot from + dir_slot v < 1024" "dir_slot to + dir_slot v < 1024"
  shows "case pte_of m (from + v) of
      None \<Rightarrow> pte_of m (to + v) = None
    | Some e \<Rightarrow> \<exists>p \<in> A. p < PAGING_PAGES \<and> pte_of m (to + v) = Some (page_addr p OR 7) \<and> m (page_frame p) = m (frame_of e)"
proof -
  let ?fd = "m 0 (of_nat (dir_slot from + dir_slot v))"
  obtain j where j: "j < 1024" "drop_bit 12 v AND 0x3FF = of_nat j"
    and pf: "\<And>m. pte_of m (from + v) = (let de = m 0 (of_nat (dir_slot from + dir_slot v)) in if is_present de
           then (let e = m (frame_of de) (of_nat j) in if is_present e then Some e else None) else None)"
    by (rule pte_at [OF al(1) rng(1)]) blast
  obtain j' where j': "drop_bit 12 v AND 0x3FF = of_nat j'" "j' < 1024"
    and pt: "\<And>m. pte_of m (to + v) = (let de = m 0 (of_nat (dir_slot to + dir_slot v)) in if is_present de
           then (let e = m (frame_of de) (of_nat j') in if is_present e then Some e else None) else None)"
    by (rule pte_at [OF al(2) rng(2)]) blast
  have [simp]: "j' = j" using j j' by (simp add: dword_index_inj)
  from copied obtain t where t: "t \<in> A" "t < PAGING_PAGES" "is_present ?fd"
    "m 0 (of_nat (dir_slot to + dir_slot v)) = page_addr t OR 7"
    "entry_copied A m m (m (frame_of ?fd) (of_nat j)) (m (page_frame t) (of_nat j))"
    using j(1) by (auto simp: slot_copied_def)
  then show ?thesis
    by (auto simp: pf pt Let_def frame_of_entry entry_copied_def page_addr_facts split: if_splits)
qed

lemma slot_refs_length: "length (slot_refs m d) \<le> 1025"
proof -
  have "length (table_refs m f 1024) \<le> 1024" for f
    unfolding table_refs_def by (rule order_trans [OF _ length_filter_le [THEN order_trans]]) auto
  then show ?thesis by (simp add: slot_refs_def Let_def)
qed

lemma range_refs_length: "length (range_refs m d n) \<le> 1025 * n"
proof (induction n)
  case (Suc n)
  then show ?case using slot_refs_length [of m "d + n"] by (simp add: range_refs_Suc)
qed (simp add: range_refs_def)

lemma copy_dir_entry_returns:
  assumes ready: "copy_ready s (dir_slot from) (dir_slot to) n" and i: "i < n"
    and src: "is_present (pmem s 0 (of_nat (dir_slot from + i)))"
    and acct: "dir_acct s (dir_slot to) i L s1"
  shows "\<exists>r s2. copy_dir_entry (dir_addr from) (dir_addr to) i s1 = Inr (r, s2)"
proof -
  have rng: "dir_slot from + i < 1024" "dir_slot to + i < 1024" using ready i by (auto simp: copy_ready_def)
  have fd: "pmem s1 0 (of_nat (dir_slot from + i)) = pmem s 0 (of_nat (dir_slot from + i))"
    using copy_ready_slots [OF ready _ i acct] i by simp
  have td: "pmem s1 0 (of_nat (dir_slot to + i)) = pmem s 0 (of_nat (dir_slot to + i))"
    using acct rng by (simp add: dir_acct_def)
  have absent: "\<not> is_present (pmem s 0 (of_nat (dir_slot to + i)))" using ready i by (simp add: copy_ready_def)
  have "\<exists>x. copy_pt_entry a b j s2 = Inr x" for a b j s2
    by (auto simp: copy_pt_entry_def Let_def split: prod.splits)
  then have "\<exists>x. for_ret (copy_pt_entry a b) xs s2 = Inr x" for a b xs s2
    by (rule for_ret_Inr)
  then have loop: "\<exists>r s3. for_ret (copy_pt_entry a b) xs s2 = Inr (r, s3)" for a b xs s2
    by (metis surj_pair)
  show ?thesis
    using src absent fd td loop
    by (auto simp: copy_dir_entry_def Let_def dir_access [OF rng(1)] dir_access [OF rng(2)] not_present
        split: prod.splits)
qed

lemma copy_page_tables_returns_0:
  assumes al: "from AND 0x3FFFFF = 0" "to AND 0x3FFFFF = 0"
    and ready: "copy_ready s (dir_slot from) (dir_slot to) (nr_of_dir_ent sz)"
    and src: "\<forall>i < nr_of_dir_ent sz. is_present (pmem s 0 (of_nat (dir_slot from + i)))"
    and room: "card {i. i < PAGING_PAGES \<and> mem_map s i = 0} > 1025 * nr_of_dir_ent sz"
  shows "\<exists>s'. copy_page_tables from to sz s = Inr (0, s')"
proof -
  let ?n = "nr_of_dir_ent sz" and ?sf = "dir_slot from" and ?tb = "dir_slot to"
  let ?P = "\<lambda>k s1. \<exists>L. copy_inv s ?sf ?tb k L s1"
  have "\<exists>r s'. for_ret (copy_dir_entry (dir_addr from) (dir_addr to)) [0 ..< ?n] s = Inr (r, s') \<and> (r = None \<longrightarrow> ?P ?n s')"
  proof (rule for_ret_upt_total)
    show "?P 0 s"
      by (auto intro!: exI [of _ "[]"] simp: copy_inv_def dir_acct_def alloc_ext_Nil range_refs_def)
  next
    fix k s1 assume k: "k < ?n" and "?P k s1"
    then obtain L where L: "copy_inv s ?sf ?tb k L s1" by blast
    obtain r s2 where run: "copy_dir_entry (dir_addr from) (dir_addr to) k s1 = Inr (r, s2)"
      using copy_dir_entry_returns [OF ready k _ L [unfolded copy_inv_def, THEN conjunct1]] src k by blast
    with copy_dir_entry_step [OF ready k L run]
    show "\<exists>r s2. copy_dir_entry (dir_addr from) (dir_addr to) k s1 = Inr (r, s2) \<and> (r = None \<longrightarrow> ?P (Suc k) s2)"
      by (cases r) auto
  qed
  then obtain v s' where run: "copy_page_tables from to sz s = Inr (v, s')"
    using al by (auto simp: copy_page_tables_def)
  from copy_page_tables_inv [OF run ready] obtain L k where
    L: "k \<le> ?n" "dir_acct s ?tb k L s'" "v \<noteq> 0 \<longrightarrow> (\<forall>i < PAGING_PAGES. mem_map s' i \<noteq> 0)" by blast
  have "v = 0"
  proof (rule ccontr)
    assume "v \<noteq> 0"
    then have "{i. i < PAGING_PAGES \<and> mem_map s i = 0} \<subseteq> set L"
      using L(2,3) by (auto simp: dir_acct_def alloc_ext_def split: if_splits)
    then have "card {i. i < PAGING_PAGES \<and> mem_map s i = 0} \<le> length L"
      by (meson card_length card_mono finite_set le_trans)
    also have "length L = length (range_refs (pmem s') ?tb k)" using L(2) by (simp add: dir_acct_def)
    also have "\<dots> \<le> 1025 * ?n" using range_refs_length [of "pmem s'" ?tb k] L(1) by simp
    finally show False using room by simp
  qed
  with run show ?thesis by blast
qed

text \<open>
  A machine with every page free, one task whose first 4 MB slot (16) has one page, at frame 3 of low
  memory under a table at frame 2: the copy to slot 32 meets every hypothesis.
\<close>

definition one_page_task :: mm_state where
  "one_page_task = \<lparr>mem_map = (\<lambda>_. 0), mem_end_addr = 0,
     pmem = (\<lambda>_ _. 0)(0 := (\<lambda>_. 0)(16 := 0x2007), 2 := (\<lambda>_. 0)(0 := 0x3007), 3 := (\<lambda>_. 0x42))\<rparr>"

lemma low_frame_kept: "f < 256 \<Longrightarrow> kept_frame s f"
  by (auto simp: kept_frame_def page_frame_unat word_less_nat_alt)

lemma one_page_task_ready:
  "copy_ready one_page_task (dir_slot 0x4000000) (dir_slot 0x8000000) (nr_of_dir_ent 0x1000)"
proof -
  have "is_present (pmem one_page_task 2 (of_nat j)) \<Longrightarrow> pmem one_page_task 2 (of_nat j) = 0x3007" for j
    by (auto simp: one_page_task_def split: if_splits)
  then show ?thesis
    by (auto simp: copy_ready_def dir_slot_def nr_of_dir_ent_def table_kept_def frame_of_def low_frame_kept)
      (auto simp: one_page_task_def frame_of_def low_frame_kept)
qed

lemma one_page_task_free: "card {i. i < PAGING_PAGES \<and> mem_map one_page_task i = 0} = PAGING_PAGES"
  by (simp add: one_page_task_def)

lemma one_page_task_source:
  "\<forall>i < nr_of_dir_ent 0x1000. is_present (pmem one_page_task 0 (of_nat (dir_slot 0x4000000 + i)))"
  by (simp add: nr_of_dir_ent_def dir_slot_def one_page_task_def)

lemma one_page_copy: "\<exists>s'. copy_page_tables 0x4000000 0x8000000 0x1000 one_page_task = Inr (0, s')"
  by (rule copy_page_tables_returns_0 [OF _ _ one_page_task_ready one_page_task_source])
    (simp_all only: one_page_task_free, simp_all add: nr_of_dir_ent_def PAGING_PAGES_def)

lemma copied_range_same_contents:
  assumes run: "copy_page_tables from to sz s = Inr (0, s')"
    and ready: "copy_ready s (dir_slot from) (dir_slot to) (nr_of_dir_ent sz)"
    and off: "dir_slot v < nr_of_dir_ent sz"
  shows "vread (pmem s') (to + v) = vread (pmem s') (from + v)
    \<and> (\<forall>e. pte_of (pmem s') (to + v) = Some e \<longrightarrow>
          (\<exists>p < PAGING_PAGES. e = page_addr p OR 7 \<and> mem_map s p = 0 \<and> mem_map s' p = 1))"
proof -
  have al: "from AND 0x3FFFFF = 0" "to AND 0x3FFFFF = 0"
    using run by (auto simp: copy_page_tables_def split: if_splits)
  have rng: "dir_slot from + dir_slot v < 1024" "dir_slot to + dir_slot v < 1024"
    using ready off by (auto simp: copy_ready_def)
  from copy_page_tables_inv [OF run ready] obtain L
    where "copy_inv s (dir_slot from) (dir_slot to) (nr_of_dir_ent sz) L s'" by auto
  then have L: "alloc_ext L s s'" "slot_copied (set L) (pmem s') (dir_slot from + dir_slot v) (dir_slot to + dir_slot v)"
    using off by (auto simp: copy_inv_def dir_acct_def)
  from copied_walk [OF L(2) al rng] show ?thesis
    using L(1) by (cases "pte_of (pmem s') (from + v)")
      (auto simp: vread_def rd_in_page aligned_4M_low(2) [OF al(1)] aligned_4M_low(2) [OF al(2)]
        frame_of_entry alloc_ext_def)
qed

text \<open>
  After a \<open>copy_page_tables\<close> that returns 0, every address of the new range reads what the same
  offset of the old range reads, through a page of its own: one that was unused before, is used once
  now, and is mapped present, writable and user.
\<close>

lemma fork_copy_same_contents:
  assumes run: "copy_page_tables from to sz s = Inr (0, s')"
    and ready: "copy_ready s (dir_slot from) (dir_slot to) (nr_of_dir_ent sz)"
    and off: "dir_slot v < nr_of_dir_ent sz"
  shows "vread (pmem s') (to + v) = vread (pmem s') (from + v)
    \<and> (\<forall>e. pte_of (pmem s') (to + v) = Some e \<longrightarrow>
          (\<exists>p < PAGING_PAGES. e = page_addr p OR 7 \<and> mem_map s p = 0 \<and> mem_map s' p = 1))"
  using assms by (rule copied_range_same_contents)

lemma fork_copy_same_contents_witness:
  "\<exists>s'. copy_page_tables 0x4000000 0x8000000 0x1000 one_page_task = Inr (0, s')
     \<and> vread (pmem s') (0x8000000 + 8) = vread (pmem s') (0x4000000 + 8)"
proof -
  obtain s' where run: "copy_page_tables 0x4000000 0x8000000 0x1000 one_page_task = Inr (0, s')"
    using one_page_copy by blast
  have "dir_slot 8 < nr_of_dir_ent 0x1000" by (simp add: dir_slot_def nr_of_dir_ent_def)
  from fork_copy_same_contents [OF run one_page_task_ready this] run show ?thesis by blast
qed

text \<open>
  The copy succeeds: with both ranges aligned, every source slot present and more free pages than
  1025 for each slot, \<open>copy_page_tables\<close> does not panic and does not run out of memory.
\<close>

lemma fork_copy_succeeds:
  assumes al: "from AND 0x3FFFFF = 0" "to AND 0x3FFFFF = 0"
    and ready: "copy_ready s (dir_slot from) (dir_slot to) (nr_of_dir_ent sz)"
    and src: "\<forall>i < nr_of_dir_ent sz. is_present (pmem s 0 (of_nat (dir_slot from + i)))"
    and room: "card {i. i < PAGING_PAGES \<and> mem_map s i = 0} > 1025 * nr_of_dir_ent sz"
  shows "\<exists>s'. copy_page_tables from to sz s = Inr (0, s')"
  using assms by (rule copy_page_tables_returns_0)

lemma fork_copy_succeeds_witness:
  "\<exists>s'. copy_page_tables 0x4000000 0x8000000 0x1000 one_page_task = Inr (0, s')"
  by (rule fork_copy_succeeds [OF _ _ one_page_task_ready one_page_task_source])
    (simp_all only: one_page_task_free, simp_all add: nr_of_dir_ent_def PAGING_PAGES_def)

lemma copied_range_given_back:
  assumes run: "copy_page_tables from to sz s = Inr (r, s')"
    and ready: "copy_ready s (dir_slot from) (dir_slot to) (nr_of_dir_ent sz)" and "to \<noteq> 0"
  shows "\<exists>s''. free_page_tables to sz s' = Inr s'' \<and> mem_map s'' = mem_map s
    \<and> (\<forall>i < nr_of_dir_ent sz. \<not> is_present (pmem s'' 0 (of_nat (dir_slot to + i))))"
proof -
  let ?n = "nr_of_dir_ent sz" and ?tb = "dir_slot to"
  have al: "to AND 0x3FFFFF = 0" using run by (auto simp: copy_page_tables_def split: if_splits)
  have rng: "?tb + ?n \<le> 1024" using ready by (simp add: copy_ready_def)
  from copy_page_tables_inv [OF run ready] obtain L k where k: "k \<le> ?n" and acct: "dir_acct s ?tb k L s'" by blast
  have ext: "alloc_ext L s s'" using acct by (simp add: dir_acct_def)
  have tail: "pmem s' 0 (of_nat (?tb + i)) AND 1 = 0" if "k \<le> i" "i < ?n" for i
  proof -
    have "pmem s' 0 (of_nat (?tb + i)) = pmem s 0 (of_nat (?tb + i))"
      using acct that rng by (simp add: dir_acct_def)
    then show ?thesis using ready that by (simp add: copy_ready_def not_present)
  qed
  have refs: "range_refs (pmem s') ?tb ?n = map page_addr L"
    using range_refs_tail [of k ?n "pmem s'" ?tb, OF tail k] acct by (simp add: dir_acct_def)
  have dist: "distinct (range_refs (pmem s') ?tb ?n)"
    using ext unfolding refs by (auto simp: alloc_ext_def distinct_map inj_on_def page_addr_inj)
  have use: "\<forall>x \<in> set (range_refs (pmem s') ?tb ?n). in_use s' x"
    using ext unfolding refs by (auto simp: alloc_ext_def in_use_def)
  have gb: "given_back (set (range_refs (pmem s') ?tb ?n)) s' = mem_map s"
  proof
    fix i show "given_back (set (range_refs (pmem s') ?tb ?n)) s' i = mem_map s i"
      using ext unfolding refs by (auto simp: given_back_def alloc_ext_def page_addr_inj)
  qed
  from free_range [OF rng dist use] show ?thesis
    using al \<open>to \<noteq> 0\<close> by (auto simp: free_page_tables_def gb)
qed

text \<open>
  C18. Whether the copy succeeded or ran out of memory half-way, \<open>free_page_tables\<close> on the target range
  does not panic, empties the range, and leaves the memory map exactly as it was before the copy.
\<close>

theorem fork_address_space_recovered:
  assumes run: "copy_page_tables from to sz s = Inr (r, s')"
    and ready: "copy_ready s (dir_slot from) (dir_slot to) (nr_of_dir_ent sz)" and "to \<noteq> 0"
  shows "\<exists>s''. free_page_tables to sz s' = Inr s'' \<and> mem_map s'' = mem_map s
    \<and> (\<forall>i < nr_of_dir_ent sz. \<not> is_present (pmem s'' 0 (of_nat (dir_slot to + i))))"
  using assms by (rule copied_range_given_back)

theorem fork_address_space_recovered_witness:
  "\<exists>s' s''. copy_page_tables 0x4000000 0x8000000 0x1000 one_page_task = Inr (0, s')
     \<and> free_page_tables 0x8000000 0x1000 s' = Inr s'' \<and> mem_map s'' = (\<lambda>_. 0)"
proof -
  obtain s' where run: "copy_page_tables 0x4000000 0x8000000 0x1000 one_page_task = Inr (0, s')"
    using one_page_copy by blast
  from fork_address_space_recovered [OF run one_page_task_ready] run show ?thesis
    by (auto simp: one_page_task_def)
qed

text \<open>A page-table entry once cleared stays cleared: everything the freeing loops write is zero.\<close>

lemma rd_wr_zero: "rd32 m b AND 1 = 0 \<Longrightarrow> rd32 (wr32 m a 0) b AND 1 = 0"
  by (auto simp: rd32_def wr32_def)

lemma free_page_pmem: "free_page p s = Inr s1 \<Longrightarrow> pmem s1 = pmem s"
  by (auto simp: free_page_def split: if_splits)

lemma free_pt_entry_keeps:
  "free_pt_entry tab j s = Inr s1 \<Longrightarrow> rd32 (pmem s) b AND 1 = 0 \<Longrightarrow> rd32 (pmem s1) b AND 1 = 0"
  by (auto simp: free_pt_entry_def Let_def rbind_eq_Inr rd_wr_zero dest!: free_page_pmem split: if_splits)

lemma free_dir_entry_keeps:
  assumes "free_dir_entry dir i s = Inr s1"
  shows "rd32 (pmem s) b AND 1 = 0 \<Longrightarrow> rd32 (pmem s1) b AND 1 = 0" "rd32 (pmem s1) (dir + 4 * of_nat i) AND 1 = 0"
proof -
  have loop: "rd32 (pmem s2) b AND 1 = 0"
    if "for_each (free_pt_entry tab) [0 ..< n] s = Inr s2" "rd32 (pmem s) b AND 1 = 0" for tab n s2
    by (rule for_each_upt_inv [where P = "\<lambda>_ s. rd32 (pmem s) b AND 1 = 0", OF that])
      (rule free_pt_entry_keeps)
  show "rd32 (pmem s) b AND 1 = 0 \<Longrightarrow> rd32 (pmem s1) b AND 1 = 0" "rd32 (pmem s1) (dir + 4 * of_nat i) AND 1 = 0"
    using assms
    by (auto simp: free_dir_entry_def Let_def rbind_eq_Inr rd_wr_zero dest!: free_page_pmem dest: loop split: if_splits)
qed

lemma free_page_tables_again:
  assumes "free_page_tables a sz s = Inr s1"
  shows "free_page_tables a sz s1 = Inr s1"
proof -
  let ?n = "nr_of_dir_ent sz"
  let ?P = "\<lambda>k s. \<forall>i < k. rd32 (pmem s) (dir_addr a + 4 * of_nat i) AND 1 = 0"
  from assms have loop: "for_each (free_dir_entry (dir_addr a)) [0 ..< ?n] s = Inr s1"
    and ok: "a AND 0x3FFFFF = 0" "a \<noteq> 0" by (auto simp: free_page_tables_def split: if_splits)
  have "?P ?n s1"
  proof (rule for_each_upt_inv [where P = ?P, OF loop])
    fix k s s' assume "?P k s" "free_dir_entry (dir_addr a) k s = Inr s'"
    then show "?P (Suc k) s'" using free_dir_entry_keeps by (auto simp: less_Suc_eq)
  qed simp
  then have "for_each (free_dir_entry (dir_addr a)) [0 ..< ?n] s1 = Inr s1"
    by (intro for_each_skip) (simp add: free_dir_entry_def Let_def)
  with ok show ?thesis by (simp add: free_page_tables_def)
qed


text \<open>
  Freeing an address space a second time is harmless: \<open>do_exit\<close> frees the code range and the data
  range of a process, which are the same range, and the second call finds nothing and changes nothing.
\<close>

lemma free_page_tables_twice:
  assumes "free_page_tables a sz s = Inr s1"
  shows "free_page_tables a sz s1 = Inr s1"
  using assms by (rule free_page_tables_again)

text \<open>A task whose slot 16 holds one table (page 0 of the map) and one page (page 1).\<close>

definition one_page_mapped :: mm_state where
  "one_page_mapped = \<lparr>mem_map = (\<lambda>i. if i < 2 then 1 else 0), mem_end_addr = 0,
     pmem = (\<lambda>_ _. 0)(0 := (\<lambda>_. 0)(16 := page_addr 0 OR 7), page_frame 0 := (\<lambda>_. 0)(0 := page_addr 1 OR 7))\<rparr>"

lemma one_page_mapped_refs: "range_refs (pmem one_page_mapped) 16 1 = [page_addr 1, page_addr 0]"
proof -
  have P: "(0 :: nat) < PAGING_PAGES" "(1 :: nat) < PAGING_PAGES" by (simp_all add: PAGING_PAGES_def)
  have "table_refs (pmem one_page_mapped) (page_frame 0) 1024 = table_refs (pmem one_page_mapped) (page_frame 0) 1"
    using P dword_index_inj [of _ 0] by (intro table_refs_zero_tail) (auto simp: one_page_mapped_def)
  then show ?thesis using P
    by (simp add: range_refs_def slot_refs_def Let_def one_page_mapped_def frame_of_entry page_addr_facts table_refs_def)
qed

lemma one_page_mapped_freed:
  "\<exists>s1. free_page_tables 0x4000000 0x1000 one_page_mapped = Inr s1 \<and> mem_map s1 = (\<lambda>_. 0)"
proof -
  have P: "(0 :: nat) < PAGING_PAGES" "(1 :: nat) < PAGING_PAGES" by (simp_all add: PAGING_PAGES_def)
  have slot: "dir_slot 0x4000000 = 16" "nr_of_dir_ent 0x1000 = 1" by (simp_all add: dir_slot_def nr_of_dir_ent_def)
  have "\<exists>s2. for_each (free_dir_entry (dir_addr 0x4000000)) [0 ..< 1] one_page_mapped = Inr s2 \<and>
     mem_map s2 = given_back (set (range_refs (pmem one_page_mapped) (dir_slot 0x4000000) 1)) one_page_mapped"
  proof -
    have use: "\<forall>x \<in> set (range_refs (pmem one_page_mapped) (dir_slot 0x4000000) 1). in_use one_page_mapped x"
    proof -
      have "mem_map one_page_mapped 0 \<noteq> 0" "mem_map one_page_mapped 1 \<noteq> 0" by (simp_all add: one_page_mapped_def)
      then have "in_use one_page_mapped (page_addr 0)" "in_use one_page_mapped (page_addr 1)"
        unfolding in_use_def using P by blast+
      then show ?thesis unfolding slot one_page_mapped_refs by simp
    qed
    have dist: "distinct (range_refs (pmem one_page_mapped) (dir_slot 0x4000000) 1)"
      unfolding slot one_page_mapped_refs using P by (simp add: page_addr_inj)
    have "dir_slot 0x4000000 + 1 \<le> 1024" by (simp add: slot)
    from free_range [OF this dist use] show ?thesis by blast
  qed
  then obtain s2 where s2: "free_page_tables 0x4000000 0x1000 one_page_mapped = Inr s2"
    "mem_map s2 = given_back {page_addr 0, page_addr 1} one_page_mapped"
    unfolding free_page_tables_def slot one_page_mapped_refs by (auto simp: insert_commute)
  have "mem_map s2 i = 0" for i
    using P by (auto simp: s2(2) given_back_def page_addr_inj one_page_mapped_def less_2_cases_iff)
  with s2(1) show ?thesis by blast
qed

lemma free_page_tables_twice_witness:
  "\<exists>s1. free_page_tables 0x4000000 0x1000 one_page_mapped = Inr s1 \<and> mem_map s1 = (\<lambda>_. 0)
     \<and> free_page_tables 0x4000000 0x1000 s1 = Inr s1"
  using one_page_mapped_freed free_page_tables_twice by blast

declare of_nat_add [simp]

end
