(* ===== verification/Cache_Memory.thy ===== *)
theory Cache_Memory
  imports Cache_Boot Address_Space
begin

text \<open>
  The heads of buffers as they lie in physical memory, the hash-queue part of \<open>insert_into_queues\<close> as stores
  to that memory, and what the null pointer of the first block does to the page directory.
\<close>

section \<open>A head in memory\<close>

text \<open>
  \<open>struct buffer_head\<close> of fs.h at the address \<open>a\<close>: 36 bytes, nine double words of which the third holds the device
  number and two bytes, the fourth two bytes and the padding.
\<close>

definition get_head :: "phys_mem \<Rightarrow> u32 \<Rightarrow> buffer_head" where
  "get_head m a = \<lparr>b_data = rd32 m a, b_blocknr = rd32 m (a + 4), b_dev = ucast (rd32 m (a + 8)),
     b_uptodate = ucast (drop_bit 16 (rd32 m (a + 8))), b_dirt = ucast (drop_bit 24 (rd32 m (a + 8))),
     b_count = ucast (rd32 m (a + 12)), b_lock = ucast (drop_bit 8 (rd32 m (a + 12))), b_wait = rd32 m (a + 16),
     b_prev_hash = rd32 m (a + 20), b_next_hash = rd32 m (a + 24), b_prev_free = rd32 m (a + 28), b_next_free = rd32 m (a + 32)\<rparr>"

text \<open>The second half of \<open>insert_into_queues\<close>, statement by statement; the hash table is not in this memory.\<close>

definition link_hash_mem :: "(nat \<Rightarrow> u32) \<Rightarrow> u32 \<Rightarrow> phys_mem \<Rightarrow> phys_mem" where
  "link_hash_mem ht bh m =
     (let m1 = wr32 m (bh + 20) 0; m2 = wr32 m1 (bh + 24) 0 in
      if b_dev (get_head m2 bh) = 0 then m2
      else let h = bucket_of (get_head m2 bh); m3 = wr32 m2 (bh + 24) (ht h)
           in wr32 m3 (b_next_hash (get_head m3 bh) + 20) bh)"

text \<open>Some memory holds any two heads at 1 MB and at 0.\<close>

definition put_head :: "phys_mem \<Rightarrow> u32 \<Rightarrow> buffer_head \<Rightarrow> phys_mem" where
  "put_head m a h = wr32 (wr32 (wr32 (wr32 (wr32 (wr32 (wr32 (wr32 (wr32 m a (b_data h)) (a + 4) (b_blocknr h))
     (a + 8) (ucast (b_dev h) OR push_bit 16 (ucast (b_uptodate h)) OR push_bit 24 (ucast (b_dirt h))))
     (a + 12) (ucast (b_count h) OR push_bit 8 (ucast (b_lock h)))) (a + 16) (b_wait h)) (a + 20) (b_prev_hash h))
     (a + 24) (b_next_hash h)) (a + 28) (b_prev_free h)) (a + 32) (b_next_free h)"

lemma packed_bytes:
  "ucast (ucast (x :: u16) OR push_bit 16 (ucast (y :: u8)) OR push_bit 24 (ucast (z :: u8)) :: u32) = x"
  "ucast (drop_bit 16 (ucast (x :: u16) OR push_bit 16 (ucast (y :: u8)) OR push_bit 24 (ucast (z :: u8)) :: u32)) = y"
  "ucast (drop_bit 24 (ucast (x :: u16) OR push_bit 16 (ucast (y :: u8)) OR push_bit 24 (ucast (z :: u8)) :: u32)) = z"
  "ucast (ucast y OR push_bit 8 (ucast z) :: u32) = y" "ucast (drop_bit 8 (ucast y OR push_bit 8 (ucast z) :: u32)) = z"
  by (rule bit_word_eqI, auto simp: bit_simps dest: bit_imp_le_length)+

lemma rd32_wr32: "rd32 (wr32 m a v) b = (if frame_of a = frame_of b \<and> dword_of a = dword_of b then v else rd32 m b)"
  by (simp add: rd32_def wr32_def)

lemma put_head_get:
  "get_head (put_head m 0 h) 0 = h" "get_head (put_head m 0x100000 h) 0x100000 = h"
  "get_head (put_head m 0x100000 h) 0 = get_head m 0"
  by (simp_all add: get_head_def put_head_def rd32_wr32 frame_of_def dword_of_def packed_bytes [simplified])

section \<open>Entering the hash chain, in memory\<close>

text \<open>
  For the head at 1 MB and an empty bucket the stores do to memory what \<open>link_hash\<close> does to the heads at
  1 MB and at 0, and the only double word of the first page frame that they write is the sixth.
\<close>

lemma link_hash_mem_null:
  assumes "bufs s 0x100000 = get_head m 0x100000" "bufs s 0 = get_head m 0" "b_dev (bufs s 0x100000) \<noteq> 0"
    "\<And>h. h < NR_HASH \<Longrightarrow> hash_table s h = 0"
  shows "get_head (link_hash_mem (hash_table s) 0x100000 m) 0x100000 = bufs (link_hash 0x100000 s) 0x100000"
    "get_head (link_hash_mem (hash_table s) 0x100000 m) 0 = bufs (link_hash 0x100000 s) 0"
    "link_hash_mem (hash_table s) 0x100000 m 0 = (m 0)(5 := 0x100000)"
    "bufs (link_hash 0x100000 s) 0 = (bufs s 0)\<lparr>b_prev_hash := 0x100000\<rparr>"
proof -
  let ?m2 = "wr32 (wr32 m (0x100000 + 20) 0) (0x100000 + 24) 0"
  have z: "hash_table s (bucket_of r) = 0" for r using assms(4) bucket_lt by blast
  have dev: "b_dev (get_head ?m2 0x100000) \<noteq> 0"
    using assms(1,3) by (simp add: get_head_def rd32_wr32 frame_of_def dword_of_def)
  have e: "link_hash_mem (hash_table s) 0x100000 m = wr32 (wr32 ?m2 (0x100000 + 24) 0) 20 0x100000"
    using dev by (simp add: link_hash_mem_def Let_def z) (simp add: get_head_def rd32_wr32)
  show "link_hash_mem (hash_table s) 0x100000 m 0 = (m 0)(5 := 0x100000)"
    unfolding e by (simp add: wr32_def frame_of_def dword_of_def)
  have l: "bufs (link_hash 0x100000 s) = (bufs s)(0x100000 := (bufs s 0x100000)\<lparr>b_prev_hash := 0, b_next_hash := 0\<rparr>,
      0 := (bufs s 0)\<lparr>b_prev_hash := 0x100000\<rparr>)"
    using assms(3) by (simp add: link_hash_def Let_def z upd_buf_def)
  then show "bufs (link_hash 0x100000 s) 0 = (bufs s 0)\<lparr>b_prev_hash := 0x100000\<rparr>" by simp
  show "get_head (link_hash_mem (hash_table s) 0x100000 m) 0x100000 = bufs (link_hash 0x100000 s) 0x100000"
    unfolding e l using assms(1) by (simp add: get_head_def rd32_wr32 frame_of_def dword_of_def)
  show "get_head (link_hash_mem (hash_table s) 0x100000 m) 0 = bufs (link_hash 0x100000 s) 0"
    unfolding e l using assms(2) by (simp add: get_head_def rd32_wr32 frame_of_def dword_of_def)
qed

lemma dir_entry_gone:
  assumes "dir_slot va = i" "i < 1024" "\<not> is_present (m 0 (of_nat i))"
  shows "pte_of m va = None"
  using dir_access(1) [of va 0 m] assms by (simp add: pte_of_def Let_def)

text \<open>
  C35. The first block read after boot gets the buffer at 1 MB and writes the address of its head through a null
  pointer: its bucket is empty, and \<open>insert_into_queues\<close> sets the \<open>b_prev_hash\<close> of the element after it all the same.
  Up to that step \<open>getblk\<close> has left the bytes at address 0 alone. In a memory \<open>m\<close> that holds the head of the buffer at 1 MB and, at address
  0, the page directory, the stores of the step give both heads the values of the model, and of the directory they change entry 5 and no
  other: it becomes 0x100000, an entry that is not present, whatever it was, and the addresses of its 4 MB (from 0x1400000) have no page.
\<close>

theorem first_block_overwrites_page_directory:
  assumes "buffer_init 0x400000 s = Some s1" "dev \<noteq> 0" "dev < 0x10000"
  shows "\<exists>t. getblk others dev block s1 = Some (Inr (0x100000, link_hash 0x100000 t)) \<and>
    cache_rep (link_hash 0x100000 t) (tl boot_list @ [0x100000]) \<and>
    bufs t 0 = bufs s1 0 \<and> bufs (link_hash 0x100000 t) 0 = (bufs s1 0)\<lparr>b_prev_hash := 0x100000\<rparr> \<and>
    (\<forall>m. get_head m 0x100000 = bufs t 0x100000 \<longrightarrow> get_head m 0 = bufs t 0 \<longrightarrow>
      (let m' = link_hash_mem (hash_table t) 0x100000 m
       in get_head m' 0x100000 = bufs (link_hash 0x100000 t) 0x100000 \<and> get_head m' 0 = bufs (link_hash 0x100000 t) 0 \<and>
          m' 0 = (m 0)(5 := 0x100000) \<and> (\<forall>va. dir_slot va = 5 \<longrightarrow> pte_of m' va = None)))"
proof -
  obtain t where t: "getblk others dev block s1 = Some (Inr (0x100000, link_hash 0x100000 t))"
    "cache_rep (link_hash 0x100000 t) (tl boot_list @ [0x100000])"
    "bufs t 0 = bufs s1 0" "b_dev (bufs t 0x100000) \<noteq> 0" "\<And>h. h < NR_HASH \<Longrightarrow> hash_table t h = 0"
    using first_block_claimed [OF assms, where others = others and block = block] by blast
  have "let m' = link_hash_mem (hash_table t) 0x100000 m
       in get_head m' 0x100000 = bufs (link_hash 0x100000 t) 0x100000 \<and> get_head m' 0 = bufs (link_hash 0x100000 t) 0 \<and>
          m' 0 = (m 0)(5 := 0x100000) \<and> (\<forall>va. dir_slot va = 5 \<longrightarrow> pte_of m' va = None)"
    if m: "get_head m 0x100000 = bufs t 0x100000" "get_head m 0 = bufs t 0" for m
  proof -
    note l = link_hash_mem_null [OF m [symmetric] t(4,5)]
    have "pte_of (link_hash_mem (hash_table t) 0x100000 m) va = None" if "dir_slot va = 5" for va
      by (rule dir_entry_gone [OF that]) (simp_all add: l(3))
    then show ?thesis using l(1-3) by (simp add: Let_def)
  qed
  moreover obtain m where "get_head m 0x100000 = bufs t 0x100000" "get_head m 0 = bufs t 0"
    using put_head_get [of "put_head (\<lambda>_ _. 0) 0 (bufs t 0)" "bufs t 0x100000"] put_head_get(1) [of "\<lambda>_ _. 0" "bufs t 0"] by metis
  ultimately show ?thesis using t(1-3) link_hash_mem_null(4) [of t m] t(4,5) by (intro exI [of _ t]) simp
qed

theorem first_block_overwrites_page_directory_witness:
  "\<exists>s1 t m. buffer_init 0x400000 (demo_cache 0) = Some s1 \<and> getblk (\<lambda>s. s) 3 7 s1 = Some (Inr (0x100000, link_hash 0x100000 t)) \<and>
    get_head m 0x100000 = bufs t 0x100000 \<and> get_head m 0 = bufs t 0 \<and>
    link_hash_mem (hash_table t) 0x100000 m 0 5 = 0x100000 \<and> pte_of (link_hash_mem (hash_table t) 0x100000 m) 0x1400000 = None"
proof -
  obtain s1 where s1: "buffer_init 0x400000 (demo_cache 0) = Some s1" using buffer_init_booted by blast
  obtain t where t: "getblk (\<lambda>s. s) 3 7 s1 = Some (Inr (0x100000, link_hash 0x100000 t))"
    "\<forall>m. get_head m 0x100000 = bufs t 0x100000 \<longrightarrow> get_head m 0 = bufs t 0 \<longrightarrow>
      (let m' = link_hash_mem (hash_table t) 0x100000 m
       in get_head m' 0x100000 = bufs (link_hash 0x100000 t) 0x100000 \<and> get_head m' 0 = bufs (link_hash 0x100000 t) 0 \<and>
          m' 0 = (m 0)(5 := 0x100000) \<and> (\<forall>va. dir_slot va = 5 \<longrightarrow> pte_of m' va = None))"
    using first_block_overwrites_page_directory [OF s1, of 3 "\<lambda>s. s" 7] by auto
  let ?m = "put_head (put_head (\<lambda>_ _. 0) 0 (bufs t 0)) 0x100000 (bufs t 0x100000)"
  have m: "get_head ?m 0x100000 = bufs t 0x100000" "get_head ?m 0 = bufs t 0" by (simp_all add: put_head_get)
  moreover have "dir_slot 0x1400000 = 5" by (simp add: dir_slot_def)
  ultimately have "link_hash_mem (hash_table t) 0x100000 ?m 0 5 = 0x100000 \<and> pte_of (link_hash_mem (hash_table t) 0x100000 ?m) 0x1400000 = None"
    using t(2) [rule_format, OF m] by (simp add: Let_def)
  then show ?thesis using s1 t(1) m by blast
qed

end
