(* ===== verification/Fork.thy ===== *)
theory Fork
  imports Address_Space Scheduler
begin

text \<open>
  Process creation, kernel/fork.c: the choice of a process number and a slot of the task table, the copy of
  the address space, and \<open>copy_process\<close>, the body of \<open>sys_fork\<close>. The state of the kernel joins the
  scheduler's with the descriptor table, the last process number and the memory manager's.
\<close>

section \<open>State\<close>

record kernel = sched_state +
  gdt :: desc_table
  last_pid :: i32
  mm :: mm_state

definition EAGAIN :: i32 where "EAGAIN = 11"

section \<open>find_empty_process\<close>

definition next_pid :: "i32 \<Rightarrow> i32" where
  "next_pid n = (let n1 = n + 1 in if n1 <s 0 then 1 else n1)"

definition pid_used :: "'a sched_state_scheme \<Rightarrow> i32 \<Rightarrow> bool" where
  "pid_used s p \<longleftrightarrow> (\<exists>i \<in> set [0 ..< NUMBER_OF_TASKS]. tasks_ptr s i \<noteq> 0 \<and> pid (tstore s (tasks_ptr s i)) = p)"

text \<open>The \<open>while(1)\<close> loop: \<open>None\<close> would be a search that never ends.\<close>

partial_function (option) fresh_pid :: "(i32 \<Rightarrow> bool) \<Rightarrow> i32 \<Rightarrow> i32 option" where
  "fresh_pid used n = (let n1 = next_pid n in if used n1 then fresh_pid used n1 else Some n1)"

definition empty_slot :: "'a sched_state_scheme \<Rightarrow> nat" where
  "empty_slot s =
     (let i = scan_up (\<lambda>i. tasks_ptr s i = 0) 1 NUMBER_OF_TASKS in if i < NUMBER_OF_TASKS then i else 0)"

definition find_empty_process :: "kernel \<Rightarrow> (nat \<times> kernel) option" where
  "find_empty_process s =
     map_option (\<lambda>p. (empty_slot s, s\<lparr>last_pid := p\<rparr>)) (fresh_pid (pid_used s) (last_pid s))"

section \<open>copy_mem\<close>

text \<open>
  The limits are read with \<open>lsl\<close> through the current task's local descriptor table (selectors 0x000F and
  0x0017 are its entries 1 and 2).
\<close>

definition set_bases :: "u32 \<Rightarrow> task_struct \<Rightarrow> task_struct" where
  "set_bases new_base t = t\<lparr>ldt := (ldt t)
     (1 := set_segment_base (ldt t 1) new_base, 2 := set_segment_base (ldt t 2) new_base)\<rparr>"

definition set_limits_1MB :: "task_struct \<Rightarrow> task_struct" where
  "set_limits_1MB t = t\<lparr>ldt := (ldt t)
     (1 := set_segment_limit (ldt t 1) 0xFF, 2 := set_segment_limit (ldt t 2) 0xFF)\<rparr>"

definition copy_mem :: "nat \<Rightarrow> u32 \<Rightarrow> kernel \<Rightarrow> (i32 \<times> kernel) kresult" where
  "copy_mem task_nr p s =
     (let new_base = of_nat task_nr * 0x4000000;
          old_code_base = get_segment_base (ldt (cur_task s) 1);
          old_data_base = get_segment_base (ldt (cur_task s) 2);
          old_code_limit = lsl_limit (ldt (cur_task s) 1);
          old_data_limit = lsl_limit (ldt (cur_task s) 2)
      in if old_code_base \<noteq> old_data_base then Inl (Panic ''segment base error'')
         else if old_code_limit > old_data_limit then Inl (Panic ''segment limit error'')
         else (let s1 = upd_task p (set_bases new_base) s
               in if task_nr = 1
                  then rbind (init_task1_paging (mm s1))
                         (\<lambda>m. Inr (0, upd_task p set_limits_1MB s1\<lparr>mm := m\<rparr>))
                  else rbind (copy_page_tables old_data_base new_base old_data_limit (mm s1))
                         (\<lambda>(r, m). if r \<noteq> 0
                            then rbind (free_page_tables new_base old_data_limit m)
                                   (\<lambda>m1. Inr (- ENOMEM, s1\<lparr>mm := m1\<rparr>))
                            else Inr (0, s1\<lparr>mm := m\<rparr>))))"

section \<open>copy_process\<close>

text \<open>The registers the system call pushed, in the order of the parameters.\<close>

record fork_regs =
  f_ebx :: u32
  f_ecx :: u32
  f_edx :: u32
  f_edi :: u32
  f_esi :: u32
  f_ebp :: u32
  f_ds :: u32
  f_es :: u32
  f_fs :: u32
  f_eip :: u32
  f_cs :: u32
  f_eflags :: u32
  f_esp :: u32
  f_ss :: u32

definition child_tss :: "nat \<Rightarrow> u32 \<Rightarrow> fork_regs \<Rightarrow> tss_data \<Rightarrow> tss_data" where
  "child_tss nr p r t = t\<lparr>pre_task_link := 0, esp0 := p + 4096, ss0 := 0x10, tss_eip := f_eip r,
     tss_eflags := f_eflags r, tss_eax := 0, tss_ecx := f_ecx r, tss_edx := f_edx r, tss_ebx := f_ebx r,
     tss_esp := f_esp r, tss_ebp := f_ebp r, tss_esi := f_esi r, tss_edi := f_edi r,
     tss_es := ucast (f_es r AND 0xFFFF), tss_cs := ucast (f_cs r AND 0xFFFF), tss_ss := ucast (f_ss r AND 0xFFFF),
     tss_ds := ucast (f_ds r AND 0xFFFF), tss_fs := ucast (f_fs r AND 0xFFFF), tss_gs := 0,
     tss_ldt := ucast (LDT_selector nr), debug_trap := 0, io_map_base := 104\<rparr>"

text \<open>The new task structure: the current one with the fields \<open>copy_process\<close> assigns before \<open>copy_mem\<close>.\<close>

definition child_task :: "nat \<Rightarrow> u32 \<Rightarrow> fork_regs \<Rightarrow> kernel \<Rightarrow> task_struct" where
  "child_task nr p r s =
     (let t = cur_task s
      in t\<lparr>state := TASK_UNINTERRUPTIBLE, pid := last_pid s, father := pid t, ts := priority t,
           signal := 0, alarm := 0, leader := 0, uts := 0, kts := 0, cuts := 0, ckts := 0,
           tss := child_tss nr p r (tss t)\<rparr>)"

text \<open>
  The address \<open>get_free_page\<close> returns is not checked: when it is 0, \<open>*p = *current\<close> writes over the page
  directory, which lies at address 0.
\<close>

definition copy_process :: "fork_regs \<Rightarrow> kernel \<Rightarrow> (i32 \<times> kernel) kresult" where
  "copy_process r s =
     (case find_empty_process s of
        None \<Rightarrow> Inl (Spin ''find_empty_process'')
      | Some (nr, s1) \<Rightarrow>
          if nr = 0 then Inr (- EAGAIN, s1)
          else (case get_free_page (mm s1) of (p, m) \<Rightarrow>
            let s2 = s1\<lparr>mm := m, tasks_ptr := (tasks_ptr s1)(nr := p)\<rparr>
            in if p = 0 then Inl (Wild_Access ''copy_process writes a task_struct at address 0'')
               else rbind (copy_mem nr p (upd_task p (\<lambda>_. child_task nr p r s2) s2))
                 (\<lambda>(e, s3).
                    if e \<noteq> 0
                    then rbind (free_page p (mm s3))
                           (\<lambda>m. Inr (- EAGAIN, s3\<lparr>mm := m, tasks_ptr := (tasks_ptr s3)(nr := 0)\<rparr>))
                    else Inr (last_pid s3,
                           upd_task p (\<lambda>t. t\<lparr>state := TASK_RUNNING\<rparr>)
                             (s3\<lparr>gdt := set_ldt_desc (set_tss_desc (gdt s3) (FIRST_TSS_DESC_INDEX + nr * 2) (p + tss_offset) 0)
                                    (FIRST_LDT_DESC_INDEX + nr * 2) (p + ldt_offset) 0\<rparr>)))))"

section \<open>Fresh process numbers\<close>

text \<open>\<open>k\<close> further increments of a number that is not negative: it wraps from the largest one to 1.\<close>

lemma next_pid_nonneg: "unat (next_pid n) < 2147483648"
  by (simp add: next_pid_def Let_def sless_0_iff not_le)

lemma next_pid_unat:
  "unat x < 2147483648 \<Longrightarrow> unat (next_pid x) = (if unat x + 1 < 2147483648 then unat x + 1 else 1)"
proof -
  assume x: "unat x < 2147483648"
  then have "unat (x + 1) = unat x + 1" by (simp add: unat_word_ariths)
  then show ?thesis by (simp add: next_pid_def Let_def sless_0_iff not_le)
qed

lemma next_pid_orbit:
  assumes "unat x < 2147483648"
  shows "k \<le> 64 \<Longrightarrow> unat ((next_pid ^^ k) x) = (if unat x + k < 2147483648 then unat x + k else unat x + k - 2147483647)"
proof (induction k)
  case 0
  then show ?case using assms by simp
next
  case (Suc k)
  let ?y = "(next_pid ^^ k) x"
  from Suc have y: "unat ?y = (if unat x + k < 2147483648 then unat x + k else unat x + k - 2147483647)" by simp
  with assms Suc.prems have "unat ?y < 2147483648" by (auto split: if_splits)
  from next_pid_unat [OF this] y assms Suc.prems show ?case by (auto split: if_splits)
qed

lemma next_pid_orbit_inj: "inj_on (\<lambda>k. (next_pid ^^ Suc k) n) {..64}"
proof (rule inj_onI)
  fix i j assume ij: "i \<in> {..64 :: nat}" "j \<in> {..64}" and eq: "(next_pid ^^ Suc i) n = (next_pid ^^ Suc j) n"
  let ?x = "next_pid n"
  have "(next_pid ^^ Suc k) n = (next_pid ^^ k) ?x" for k by (simp only: funpow_Suc_right o_apply)
  with eq have "unat ((next_pid ^^ i) ?x) = unat ((next_pid ^^ j) ?x)" by simp
  then show "i = j"
    using ij next_pid_orbit [OF next_pid_nonneg [of n], of i] next_pid_orbit [OF next_pid_nonneg [of n], of j]
      next_pid_nonneg [of n]
    by (auto split: if_splits)
qed

lemma fresh_pid_search:
  "\<not> used ((next_pid ^^ Suc k) n) \<Longrightarrow> \<exists>j \<le> k. fresh_pid used n = Some ((next_pid ^^ Suc j) n) \<and>
     \<not> used ((next_pid ^^ Suc j) n)"
proof (induction k arbitrary: n)
  case 0
  then show ?case by (subst fresh_pid.simps) (simp add: Let_def)
next
  case (Suc k)
  show ?case
  proof (cases "used (next_pid n)")
    case False
    then show ?thesis by (subst fresh_pid.simps) (auto simp: Let_def)
  next
    case True
    have sh: "(next_pid ^^ Suc (Suc m)) n = (next_pid ^^ Suc m) (next_pid n)" for m
      by (simp only: funpow_Suc_right o_apply)
    have "\<not> used ((next_pid ^^ Suc k) (next_pid n))" using Suc.prems unfolding sh .
    from Suc.IH [OF this] obtain j where j: "j \<le> k"
      "fresh_pid used (next_pid n) = Some ((next_pid ^^ Suc j) (next_pid n))" "\<not> used ((next_pid ^^ Suc j) (next_pid n))"
      by blast
    have "fresh_pid used n = fresh_pid used (next_pid n)" using True by (subst fresh_pid.simps) (simp add: Let_def)
    then have "fresh_pid used n = Some ((next_pid ^^ Suc (Suc j)) n)" "\<not> used ((next_pid ^^ Suc (Suc j)) n)"
      using j(2,3) unfolding sh by simp_all
    with j(1) show ?thesis using Suc_le_mono by blast
  qed
qed

lemma used_pids: "{p. pid_used s p} \<subseteq> (\<lambda>i. pid (tstore s (tasks_ptr s i))) ` {..< NUMBER_OF_TASKS}"
  by (auto simp: pid_used_def)

lemma used_pids_few: "finite {p. pid_used s p} \<and> card {p. pid_used s p} \<le> 64"
proof -
  have "card {p. pid_used s p} \<le> card ((\<lambda>i. pid (tstore s (tasks_ptr s i))) ` {..< NUMBER_OF_TASKS})"
    by (rule card_mono [OF _ used_pids]) simp
  also have "\<dots> \<le> 64" using card_image_le [of "{..< NUMBER_OF_TASKS}"] by (simp add: NUMBER_OF_TASKS_def)
  finally show ?thesis using finite_subset [OF used_pids] by simp
qed

lemma fresh_pid_total: "\<exists>j \<le> 64. fresh_pid (pid_used s) n = Some ((next_pid ^^ Suc j) n) \<and> \<not> pid_used s ((next_pid ^^ Suc j) n)"
proof -
  have "\<exists>k \<le> 64. \<not> pid_used s ((next_pid ^^ Suc k) n)"
  proof (rule ccontr)
    assume "\<not> (\<exists>k \<le> 64. \<not> pid_used s ((next_pid ^^ Suc k) n))"
    then have "(\<lambda>k. (next_pid ^^ Suc k) n) ` {..64} \<subseteq> {p. pid_used s p}" by auto
    then have "card ((\<lambda>k. (next_pid ^^ Suc k) n) ` {..64}) \<le> 64"
      using used_pids_few [of s] by (meson card_mono le_trans)
    then show False by (simp only: card_image [OF next_pid_orbit_inj]) simp
  qed
  then obtain k where "k \<le> 64" "\<not> pid_used s ((next_pid ^^ Suc k) n)" by blast
  with fresh_pid_search [of "pid_used s" k n] show ?thesis by (meson le_trans)
qed

lemma empty_slot_spec:
  "if empty_slot s = 0 then \<forall>i \<in> {1 ..< NUMBER_OF_TASKS}. tasks_ptr s i \<noteq> 0
   else empty_slot s < NUMBER_OF_TASKS \<and> tasks_ptr s (empty_slot s) = 0 \<and> (\<forall>i \<in> {1 ..< empty_slot s}. tasks_ptr s i \<noteq> 0)"
proof (cases "scan_up (\<lambda>i. tasks_ptr s i = 0) 1 NUMBER_OF_TASKS < NUMBER_OF_TASKS")
  case True
  have "1 \<le> scan_up (\<lambda>i. tasks_ptr s i = 0) 1 NUMBER_OF_TASKS"
    by (rule scan_up_ge) (simp add: NUMBER_OF_TASKS_def)
  with True show ?thesis
    using scan_up_hit [OF True] scan_up_before [of 1 _ "\<lambda>i. tasks_ptr s i = 0" NUMBER_OF_TASKS]
    by (auto simp: empty_slot_def Let_def)
next
  case False
  then have "scan_up (\<lambda>i. tasks_ptr s i = 0) 1 NUMBER_OF_TASKS = NUMBER_OF_TASKS"
    using scan_up_le [of 1 NUMBER_OF_TASKS "\<lambda>i. tasks_ptr s i = 0"] by (simp add: NUMBER_OF_TASKS_def)
  then have "\<forall>i \<in> {1 ..< NUMBER_OF_TASKS}. tasks_ptr s i \<noteq> 0"
    by (subst (asm) scan_up_eq_n_iff) (auto simp: NUMBER_OF_TASKS_def)
  moreover have "empty_slot s = 0" using False by (simp add: empty_slot_def)
  ultimately show ?thesis by simp
qed

text \<open>
  C23. The search for a process number always ends, after at most 65 tries: it yields a number that no task
  of the table has, and that is positive unless the last one was negative; the slot returned is
  the lowest empty one, or 0 when the table is full.
\<close>

theorem find_empty_process_returns:
  "\<exists>nr s'. find_empty_process s = Some (nr, s') \<and> s' = s\<lparr>last_pid := last_pid s'\<rparr>
    \<and> \<not> pid_used s (last_pid s') \<and> (\<exists>j \<le> 64. last_pid s' = (next_pid ^^ Suc j) (last_pid s))
    \<and> (if last_pid s <s 0 then 0 \<le>s last_pid s' else 0 <s last_pid s')
    \<and> (if nr = 0 then \<forall>i \<in> {1 ..< NUMBER_OF_TASKS}. tasks_ptr s i \<noteq> 0
       else nr < NUMBER_OF_TASKS \<and> tasks_ptr s nr = 0 \<and> (\<forall>i \<in> {1 ..< nr}. tasks_ptr s i \<noteq> 0))"
proof -
  obtain j where j: "j \<le> 64" "fresh_pid (pid_used s) (last_pid s) = Some ((next_pid ^^ Suc j) (last_pid s))"
    "\<not> pid_used s ((next_pid ^^ Suc j) (last_pid s))" using fresh_pid_total by blast
  let ?p = "(next_pid ^^ Suc j) (last_pid s)"
  have "unat ?p < 2147483648" using next_pid_nonneg by simp
  then have nonneg: "0 \<le>s ?p" by (simp add: word_sle_eq sint_unat_u32)
  have pos: "0 <s ?p" if "\<not> last_pid s <s 0"
  proof -
    have "unat (next_pid x) \<noteq> 0 \<and> unat (next_pid x) < 2147483648" if "unat x < 2147483648" for x
      using next_pid_unat [OF that] next_pid_nonneg [of x] by simp
    moreover have "unat ((next_pid ^^ j) (last_pid s)) < 2147483648"
      using that next_pid_nonneg by (cases j) (auto simp: sless_0_iff)
    ultimately have "unat ?p \<noteq> 0" "unat ?p < 2147483648" by simp_all
    then show ?thesis using sless_pos_iff by blast
  qed
  show ?thesis using j nonneg pos empty_slot_spec [of s] by (auto simp: find_empty_process_def)
qed

lemma fresh_pid_at: "\<not> used (next_pid n) \<Longrightarrow> fresh_pid used n = Some (next_pid n)"
  by (subst fresh_pid.simps) (simp add: Let_def)


text \<open>
  A kernel with task 0 and task 1, the latter running with the address space of \<open>one_page_task\<close>: base
  64 MB, limit 1 MB, one page mapped.
\<close>

definition demo_task1 :: task_struct where
  "demo_task1 = set_limits_1MB (set_bases 0x4000000 ((task0_init 0 0 0x10000 0)\<lparr>pid := 1, father := 0\<rparr>))"

definition demo_kernel :: kernel where
  "demo_kernel = \<lparr>tasks_ptr = (\<lambda>_. 0)(0 := 0x10000, 1 := 0x20000),
     tstore = (\<lambda>_. task0_init 0 0 0x10000 0)(0x20000 := demo_task1),
     current = 0x20000, jiffies = 7, task0_addr = 0x10000,
     gdt = (\<lambda>_. \<lparr>low_32 = 0, high_32 = 0\<rparr>), last_pid = 1, mm = one_page_task\<rparr>"

theorem find_empty_process_returns_witness:
  "\<exists>s'. find_empty_process demo_kernel = Some (2, s') \<and> \<not> pid_used demo_kernel (last_pid s')"
proof -
  from find_empty_process_returns [of demo_kernel] obtain nr s' where
    r: "find_empty_process demo_kernel = Some (nr, s')" "\<not> pid_used demo_kernel (last_pid s')"
    and slot: "if nr = 0 then \<forall>i \<in> {1 ..< NUMBER_OF_TASKS}. tasks_ptr demo_kernel i \<noteq> 0
       else nr < NUMBER_OF_TASKS \<and> tasks_ptr demo_kernel nr = 0 \<and> (\<forall>i \<in> {1 ..< nr}. tasks_ptr demo_kernel i \<noteq> 0)"
    by blast
  have two: "tasks_ptr demo_kernel 2 = 0" by (simp add: demo_kernel_def)
  moreover have "2 \<in> {1 ..< NUMBER_OF_TASKS}" by (simp add: NUMBER_OF_TASKS_def)
  ultimately have "nr \<noteq> 0" using slot by (metis (full_types))
  then have "tasks_ptr demo_kernel nr = 0" "\<forall>i \<in> {1 ..< nr}. tasks_ptr demo_kernel i \<noteq> 0" using slot by simp_all
  moreover have "tasks_ptr demo_kernel 0 \<noteq> 0" "tasks_ptr demo_kernel 1 \<noteq> 0" by (simp_all add: demo_kernel_def)
  moreover from calculation have "nr \<noteq> 0" "nr \<noteq> 1" by metis+
  ultimately have "nr = 2" using two by (cases "nr < 2") (auto dest!: bspec [of _ _ 2])
  with r show ?thesis by blast
qed

section \<open>The cases of copy_process\<close>

lemma find_empty_process_eq:
  obtains q where "find_empty_process s = Some (empty_slot s, s\<lparr>last_pid := q\<rparr>)" "\<not> pid_used s q" "unat q < 2147483648"
proof -
  obtain j where "fresh_pid (pid_used s) (last_pid s) = Some ((next_pid ^^ Suc j) (last_pid s))"
    "\<not> pid_used s ((next_pid ^^ Suc j) (last_pid s))" using fresh_pid_total by blast
  then show ?thesis using next_pid_nonneg
    by (intro that [of "(next_pid ^^ Suc j) (last_pid s)"]) (simp_all add: find_empty_process_def)
qed

lemma empty_slot_nonzero:
  "empty_slot s \<noteq> 0 \<Longrightarrow> empty_slot s < NUMBER_OF_TASKS \<and> tasks_ptr s (empty_slot s) = 0"
  using empty_slot_spec [of s] by (simp split: if_splits)

text \<open>The kernel when the child's task structure has been taken, entered in the table and filled in.\<close>

definition child_entered :: "fork_regs \<Rightarrow> kernel \<Rightarrow> i32 \<Rightarrow> u32 \<Rightarrow> mm_state \<Rightarrow> kernel" where
  "child_entered r s q p m =
     (let nr = empty_slot s; s2 = s\<lparr>last_pid := q, mm := m, tasks_ptr := (tasks_ptr s)(nr := p)\<rparr>
      in upd_task p (\<lambda>_. child_task nr p r s2) s2)"

lemma copy_process_cases:
  assumes "copy_process r s = Inr (c, s')"
  obtains (no_slot) q where "empty_slot s = 0" "c = - EAGAIN" "s' = s\<lparr>last_pid := q\<rparr>"
  | (no_memory) q p m s3 e m3 where "empty_slot s \<noteq> 0" "get_free_page (mm s) = (p, m)" "p \<noteq> 0" "\<not> pid_used s q"
      "copy_mem (empty_slot s) p (child_entered r s q p m) = Inr (e, s3)" "e \<noteq> 0" "c = - EAGAIN"
      "free_page p (mm s3) = Inr m3" "s' = s3\<lparr>mm := m3, tasks_ptr := (tasks_ptr s3)(empty_slot s := 0)\<rparr>"
  | (child) q p m s3 where "empty_slot s \<noteq> 0" "get_free_page (mm s) = (p, m)" "p \<noteq> 0" "\<not> pid_used s q" "unat q < 2147483648"
      "copy_mem (empty_slot s) p (child_entered r s q p m) = Inr (0, s3)" "c = last_pid s3"
      "s' = upd_task p (\<lambda>t. t\<lparr>state := TASK_RUNNING\<rparr>)
         (s3\<lparr>gdt := set_ldt_desc (set_tss_desc (gdt s3) (FIRST_TSS_DESC_INDEX + empty_slot s * 2) (p + tss_offset) 0)
             (FIRST_LDT_DESC_INDEX + empty_slot s * 2) (p + ldt_offset) 0\<rparr>)"
proof -
  obtain q where q: "find_empty_process s = Some (empty_slot s, s\<lparr>last_pid := q\<rparr>)" "\<not> pid_used s q" "unat q < 2147483648"
    by (rule find_empty_process_eq)
  obtain p m where pm: "get_free_page (mm s) = (p, m)" by fastforce
  have ce: "upd_task p (\<lambda>_. child_task (empty_slot s) p r (s\<lparr>last_pid := q, mm := m, tasks_ptr := (tasks_ptr (s\<lparr>last_pid := q\<rparr>))(empty_slot s := p)\<rparr>))
       (s\<lparr>last_pid := q, mm := m, tasks_ptr := (tasks_ptr (s\<lparr>last_pid := q\<rparr>))(empty_slot s := p)\<rparr>) = child_entered r s q p m"
    by (simp add: child_entered_def Let_def)
  have mmq: "mm (s\<lparr>last_pid := q\<rparr>) = mm s" by simp
  note run = assms [unfolded copy_process_def q(1) option.case prod.case Let_def mmq pm ce]
  show ?thesis
  proof (cases "empty_slot s = 0")
    case True
    with run show ?thesis by (intro no_slot [of q]) simp_all
  next
    case False
    with run have "p \<noteq> 0" by (auto split: if_splits)
    with run False obtain e s3 where cm: "copy_mem (empty_slot s) p (child_entered r s q p m) = Inr (e, s3)"
      and rest: "(if e \<noteq> 0 then rbind (free_page p (mm s3))
             (\<lambda>m. Inr (- EAGAIN, s3\<lparr>mm := m, tasks_ptr := (tasks_ptr s3)(empty_slot s := 0)\<rparr>))
           else Inr (last_pid s3, upd_task p (\<lambda>t. t\<lparr>state := TASK_RUNNING\<rparr>)
             (s3\<lparr>gdt := set_ldt_desc (set_tss_desc (gdt s3) (FIRST_TSS_DESC_INDEX + empty_slot s * 2) (p + tss_offset) 0)
                 (FIRST_LDT_DESC_INDEX + empty_slot s * 2) (p + ldt_offset) 0\<rparr>))) = Inr (c, s')"
      by (auto simp: rbind_eq_Inr split: prod.splits)
    show ?thesis
    proof (cases "e = 0")
      case True
      with rest cm show ?thesis by (intro child [OF False pm \<open>p \<noteq> 0\<close> q(2,3)]) auto
    next
      case e: False
      with rest obtain m3 where "free_page p (mm s3) = Inr m3" "c = - EAGAIN"
        "s' = s3\<lparr>mm := m3, tasks_ptr := (tasks_ptr s3)(empty_slot s := 0)\<rparr>"
        by (auto simp: rbind_eq_Inr)
      with cm e show ?thesis by (intro no_memory [OF False pm \<open>p \<noteq> 0\<close> q(2)]) auto
    qed
  qed
qed

lemma mm_upd_task [simp]: "mm (upd_task p f s) = mm s" "gdt (upd_task p f s) = gdt s" "last_pid (upd_task p f s) = last_pid s"
  by (simp_all add: upd_task_def)

lemma copy_mem_cases:
  assumes "copy_mem nr p s = Inr (e, s3)"
  obtains (task1) m where "nr = 1" "e = 0" "init_task1_paging (mm s) = Inr m"
      "s3 = upd_task p set_limits_1MB ((upd_task p (set_bases (of_nat nr * 0x4000000)) s)\<lparr>mm := m\<rparr>)"
  | (copied) m where "nr \<noteq> 1" "e = 0"
      "copy_page_tables (get_segment_base (ldt (cur_task s) 2)) (of_nat nr * 0x4000000) (lsl_limit (ldt (cur_task s) 2)) (mm s) = Inr (0, m)"
      "s3 = (upd_task p (set_bases (of_nat nr * 0x4000000)) s)\<lparr>mm := m\<rparr>"
  | (failed) v m m1 where "nr \<noteq> 1" "e = - ENOMEM" "v \<noteq> 0"
      "copy_page_tables (get_segment_base (ldt (cur_task s) 2)) (of_nat nr * 0x4000000) (lsl_limit (ldt (cur_task s) 2)) (mm s) = Inr (v, m)"
      "free_page_tables (of_nat nr * 0x4000000) (lsl_limit (ldt (cur_task s) 2)) m = Inr m1"
      "s3 = (upd_task p (set_bases (of_nat nr * 0x4000000)) s)\<lparr>mm := m1\<rparr>"
proof (cases "nr = 1")
  case True
  with assms show ?thesis
    by (auto simp: copy_mem_def Let_def rbind_eq_Inr split: if_splits intro: task1)
next
  case False
  with assms obtain v m where c:
    "copy_page_tables (get_segment_base (ldt (cur_task s) 2)) (of_nat nr * 0x4000000) (lsl_limit (ldt (cur_task s) 2)) (mm s) = Inr (v, m)"
    and rest: "(if v \<noteq> 0 then rbind (free_page_tables (of_nat nr * 0x4000000) (lsl_limit (ldt (cur_task s) 2)) m)
        (\<lambda>m1. Inr (- ENOMEM, (upd_task p (set_bases (of_nat nr * 0x4000000)) s)\<lparr>mm := m1\<rparr>))
      else Inr (0, (upd_task p (set_bases (of_nat nr * 0x4000000)) s)\<lparr>mm := m\<rparr>)) = Inr (e, s3)"
    by (auto simp: copy_mem_def Let_def rbind_eq_Inr upd_task_def split: if_splits)
  show ?thesis
  proof (cases "v = 0")
    case True
    with rest c False show ?thesis by (intro copied) auto
  next
    case v: False
    with rest c False show ?thesis by (auto simp: rbind_eq_Inr intro: failed)
  qed
qed

lemma child_entered_simps [simp]:
  "tasks_ptr (child_entered r s q p m) = (tasks_ptr s)(empty_slot s := p)" "current (child_entered r s q p m) = current s"
  "gdt (child_entered r s q p m) = gdt s" "last_pid (child_entered r s q p m) = q" "mm (child_entered r s q p m) = m"
  "tstore (child_entered r s q p m) = (tstore s)(p := child_task (empty_slot s) p r (s\<lparr>last_pid := q\<rparr>))"
  by (simp_all add: child_entered_def Let_def child_task_def upd_task_def)



section \<open>The child\<close>

lemma set_bases_simps [simp]:
  "state (set_bases b t) = state t" "pid (set_bases b t) = pid t" "father (set_bases b t) = father t"
  "ts (set_bases b t) = ts t" "priority (set_bases b t) = priority t" "signal (set_bases b t) = signal t"
  "alarm (set_bases b t) = alarm t" "tss (set_bases b t) = tss t" "uts (set_bases b t) = uts t" "kts (set_bases b t) = kts t"
  "blocked (set_bases b t) = blocked t" "sa (set_bases b t) = sa t" "session (set_bases b t) = session t"
  "pgrp (set_bases b t) = pgrp t" "euid (set_bases b t) = euid t"
  "ldt (set_bases b t) = (ldt t)(1 := set_segment_base (ldt t 1) b, 2 := set_segment_base (ldt t 2) b)"
  by (simp_all add: set_bases_def)

lemma set_limits_simps [simp]:
  "state (set_limits_1MB t) = state t" "pid (set_limits_1MB t) = pid t" "father (set_limits_1MB t) = father t"
  "ts (set_limits_1MB t) = ts t" "priority (set_limits_1MB t) = priority t" "signal (set_limits_1MB t) = signal t"
  "alarm (set_limits_1MB t) = alarm t" "tss (set_limits_1MB t) = tss t" "uts (set_limits_1MB t) = uts t" "kts (set_limits_1MB t) = kts t"
  "blocked (set_limits_1MB t) = blocked t" "sa (set_limits_1MB t) = sa t" "session (set_limits_1MB t) = session t"
  "pgrp (set_limits_1MB t) = pgrp t" "euid (set_limits_1MB t) = euid t"
  "ldt (set_limits_1MB t) = (ldt t)(1 := set_segment_limit (ldt t 1) 0xFF, 2 := set_segment_limit (ldt t 2) 0xFF)"
  by (simp_all add: set_limits_1MB_def)

text \<open>What \<open>copy_mem\<close> changes: the memory manager's state and the two descriptors of the child's LDT.\<close>

lemma copy_mem_frame:
  assumes "copy_mem nr p s = Inr (e, s3)"
  shows "tasks_ptr s3 = tasks_ptr s" "current s3 = current s" "gdt s3 = gdt s" "last_pid s3 = last_pid s" "jiffies s3 = jiffies s"
    "\<exists>f. f = id \<and> tstore s3 = (tstore s)(p := set_bases (of_nat nr * 0x4000000) (tstore s p))
       \<or> f = set_limits_1MB \<and> tstore s3 = (tstore s)(p := set_limits_1MB (set_bases (of_nat nr * 0x4000000) (tstore s p)))"
  using assms by (auto elim!: copy_mem_cases)

lemma task_base_read_back:
  "get_segment_base (set_segment_base d (of_nat n * 0x4000000)) = of_nat n * 0x4000000"
proof -
  have "(of_nat n * 0x4000000 :: u32) = push_bit 26 (of_nat n)" by (simp add: push_bit_eq_mult)
  then have "(of_nat n * 0x4000000 :: u32) AND 0xFFFF = 0" by (simp add: aligned64K_bits bit_simps)
  then show ?thesis by (rule get_base_set_base_aligned)
qed

lemma success_not_eagain: "unat (q :: i32) < 2147483648 \<Longrightarrow> q \<noteq> - EAGAIN"
  by (auto simp: EAGAIN_def)

text \<open>
  C2. A \<open>fork\<close> that does not fail creates exactly one task: an unused page \<open>p\<close> goes into the lowest empty slot,
  and the structure in it is the parent's with a number no other task has, the parent as father, a full
  time slice, no pending signal, no accounts, and registers that make it return 0 from the system call at the
  parent's return address. It is runnable, its segments start at 64 MB times its slot, and the descriptor
  table leads to it. The parent gets the child's number, and nothing of the parent's structure changes.
\<close>

theorem fork_creates_child:
  assumes run: "copy_process r s = Inr (c, s')" and ok: "c \<noteq> - EAGAIN"
  shows "\<exists>nr p m t. nr = empty_slot s \<and> nr \<noteq> 0 \<and> tasks_ptr s nr = 0 \<and> get_free_page (mm s) = (p, m) \<and> p \<noteq> 0
    \<and> tasks_ptr s' = (tasks_ptr s)(nr := p) \<and> current s' = current s \<and> tstore s' = (tstore s)(p := t)
    \<and> c = pid t \<and> \<not> pid_used s c \<and> father t = pid (cur_task s) \<and> state t = TASK_RUNNING
    \<and> ts t = priority (cur_task s) \<and> priority t = priority (cur_task s) \<and> signal t = 0 \<and> uts t = 0 \<and> kts t = 0
    \<and> blocked t = blocked (cur_task s) \<and> sa t = sa (cur_task s)
    \<and> tss_eax (tss t) = 0 \<and> tss_eip (tss t) = f_eip r \<and> tss_esp (tss t) = f_esp r \<and> tss_eflags (tss t) = f_eflags r
    \<and> get_segment_base (ldt t 1) = of_nat nr * 0x4000000 \<and> get_segment_base (ldt t 2) = of_nat nr * 0x4000000
    \<and> get_segment_base (gdt s' (FIRST_TSS_DESC_INDEX + nr * 2)) = p + tss_offset
    \<and> get_segment_base (gdt s' (FIRST_LDT_DESC_INDEX + nr * 2)) = p + ldt_offset"
  using run
proof (cases rule: copy_process_cases)
  case (child q p m s3)
  let ?nr = "empty_slot s"
  let ?t0 = "child_task ?nr p r (s\<lparr>last_pid := q\<rparr>)"
  note fr = copy_mem_frame [OF child(6)]
  define t where "t = (tstore s' p)"
  have tst: "tstore s' = (tstore s)(p := t)" using fr(6) by (auto simp: t_def child)
  have t: "t = (set_bases (of_nat ?nr * 0x4000000) ?t0)\<lparr>state := TASK_RUNNING\<rparr> \<or>
      t = (set_limits_1MB (set_bases (of_nat ?nr * 0x4000000) ?t0))\<lparr>state := TASK_RUNNING\<rparr>"
    using fr(6) by (auto simp: t_def child)
  have ldts: "get_segment_base (ldt t 1) = of_nat ?nr * 0x4000000" "get_segment_base (ldt t 2) = of_nat ?nr * 0x4000000"
    using t by (auto simp: task_base_read_back)
  have fields: "q = pid t" "father t = pid (cur_task s)" "state t = TASK_RUNNING" "ts t = priority (cur_task s)"
    "priority t = priority (cur_task s)" "signal t = 0" "uts t = 0" "kts t = 0" "blocked t = blocked (cur_task s)"
    "sa t = sa (cur_task s)" "tss t = child_tss ?nr p r (tss (cur_task s))"
    using t by (auto simp: child_task_def Let_def)
  have gdts: "get_segment_base (gdt s' (FIRST_TSS_DESC_INDEX + ?nr * 2)) = p + tss_offset"
    "get_segment_base (gdt s' (FIRST_LDT_DESC_INDEX + ?nr * 2)) = p + ldt_offset"
  proof -
    have "set_ldt_desc g (FIRST_LDT_DESC_INDEX + ?nr * 2) a 0 (FIRST_TSS_DESC_INDEX + ?nr * 2) = g (FIRST_TSS_DESC_INDEX + ?nr * 2)"
      for g a by (simp add: set_ldt_desc_def Let_def FIRST_LDT_DESC_INDEX_def)
    then show "get_segment_base (gdt s' (FIRST_TSS_DESC_INDEX + ?nr * 2)) = p + tss_offset"
      "get_segment_base (gdt s' (FIRST_LDT_DESC_INDEX + ?nr * 2)) = p + ldt_offset"
      using tss_desc_fields [of 0] ldt_desc_reads_back [of 0] by (simp_all add: child)
  qed
  have "c = q" "tasks_ptr s' = (tasks_ptr s)(?nr := p)" "current s' = current s" using fr by (simp_all add: child)
  then show ?thesis
    using child(1-4) fields ldts gdts tst empty_slot_nonzero [OF child(1)]
    by (intro exI [of _ ?nr] exI [of _ p] exI [of _ m] exI [of _ t]) (simp add: child_tss_def)
qed (use ok in simp_all)


section \<open>The child's memory\<close>

text \<open>Taking a page does not disturb a copy that was possible before.\<close>

lemma copy_ready_alloc:
  assumes g: "get_free_page s = (p, s1)" "p \<noteq> 0" and ready: "copy_ready s sf tb n"
  obtains i where "i < PAGING_PAGES" "p = page_addr i" "mem_map s i = 0" "mem_map s1 = (mem_map s)(i := 1)"
    "pmem s1 = (pmem s)(page_frame i := (\<lambda>_. 0))" "copy_ready s1 sf tb n"
proof (cases s rule: get_free_page_cases)
  case full
  with g show ?thesis by simp
next
  case (page i)
  with g have s1: "p = page_addr i" "mem_map s1 = (mem_map s)(i := 1)" "pmem s1 = (pmem s)(page_frame i := (\<lambda>_. 0))"
    by (auto simp: zero_page_def page_addr_facts)
  have ext: "alloc_ext [i] s s1" using page s1 by (intro alloc_ext_one) simp_all
  have kf: "kept_frame s1 f" "f \<noteq> page_frame i" if "kept_frame s f" for f
    using kept_frame_ext [OF that ext] that page(1,2) by (auto simp: kept_frame_def)
  have zero: "pmem s1 0 = pmem s 0" using s1(3) kf(2) [OF kept_frame_0] by simp
  have tab: "table_kept s1 fd \<and> pmem s1 (frame_of fd) = pmem s (frame_of fd)" if "table_kept s fd" for fd
    using that kf s1(3) by (auto simp: table_kept_def)
  have "copy_ready s1 sf tb n"
    using ready tab unfolding copy_ready_def zero by metis
  with page s1 show ?thesis by (intro that) auto
qed

definition user_base :: "kernel \<Rightarrow> u32" where "user_base s = get_segment_base (ldt (cur_task s) 2)"
definition user_limit :: "kernel \<Rightarrow> u32" where "user_limit s = lsl_limit (ldt (cur_task s) 2)"
definition slot_base :: "nat \<Rightarrow> u32" where "slot_base nr = of_nat nr * 0x4000000"

text \<open>
  What a fork of the current task needs: its own structure is not in a page that can be handed out, and its
  address space can be copied to the slot's (see \<open>copy_ready\<close>).
\<close>

definition fork_ready :: "kernel \<Rightarrow> bool" where
  "fork_ready s \<longleftrightarrow> kept_frame (mm s) (frame_of (current s)) \<and>
     copy_ready (mm s) (dir_slot (user_base s)) (dir_slot (slot_base (empty_slot s))) (nr_of_dir_ent (user_limit s))"

lemma cur_task_child_entered:
  assumes "fork_ready s" "get_free_page (mm s) = (p, m)" "p \<noteq> 0"
  shows "current s \<noteq> p" "cur_task (child_entered r s q p m) = cur_task s"
proof -
  obtain i where "i < PAGING_PAGES" "p = page_addr i" "mem_map (mm s) i = 0"
    using assms copy_ready_alloc [OF assms(2,3)] unfolding fork_ready_def by metis
  then show "current s \<noteq> p" using assms(1) by (auto simp: fork_ready_def kept_frame_def page_addr_facts)
  then show "cur_task (child_entered r s q p m) = cur_task s" by simp
qed

lemma slot_base_nonzero: "nr \<noteq> 0 \<Longrightarrow> nr < NUMBER_OF_TASKS \<Longrightarrow> slot_base nr \<noteq> 0"
proof -
  assume "nr \<noteq> 0" "nr < NUMBER_OF_TASKS"
  then have "nr * 67108864 < 4294967296" "nr * 67108864 \<noteq> 0" by (simp_all add: NUMBER_OF_TASKS_def)
  then have "unat (of_nat (nr * 67108864) :: u32) \<noteq> 0" using unat_of_nat_small by metis
  moreover have "slot_base nr = of_nat (nr * 67108864)" by (simp add: slot_base_def)
  ultimately show ?thesis by (metis unsigned_0)
qed


lemma task1_table_filled:
  assumes "page_aligned p" "n \<le> 256"
  shows "fold (\<lambda>i m. wr32 m (p + 4 * of_nat i) ((of_nat i * 0x1000) OR 7)) [0 ..< n] m =
    m(frame_of p := (\<lambda>d. if unat d < n then (d * 0x1000) OR 7 else m (frame_of p) d))"
  using assms(2)
proof (induction n)
  case 0
  then show ?case by simp
next
  case (Suc n)
  have "unat d < Suc n \<longleftrightarrow> unat d < n \<or> d = of_nat n" for d :: u32
  proof -
    have "unat (of_nat n :: u32) = n" using Suc.prems by (intro unat_of_nat_small) simp
    then show ?thesis by (auto simp: less_Suc_eq word_unat_eq_iff)
  qed
  then show ?case using Suc wr_table [OF assms(1), of n] by (auto simp: fun_eq_iff)
qed

text \<open>Directory entry 16 leads to a fresh table whose first 256 entries map the low megabyte to itself.\<close>

lemma init_task1_paging_maps:
  assumes "init_task1_paging m0 = Inr m"
  obtains i where "i < PAGING_PAGES" "mem_map m0 i = 0" "mem_map m = (mem_map m0)(i := 1)" "pmem m 0 16 = page_addr i OR 7"
    "\<And>d. pmem m (page_frame i) d = (if unat d < 256 then (d * 0x1000) OR 7 else 0)"
proof (cases m0 rule: get_free_page_cases)
  case full
  with assms show ?thesis by (simp add: init_task1_paging_def)
next
  case (page i)
  note f = page_addr_facts [OF page(1)]
  have z: "zero_page (pmem m0) (page_addr i) (page_frame i) = (\<lambda>_. 0)" by (simp add: zero_page_def f)
  have w: "frame_of 64 = 0" "dword_of 64 = 16" by (simp_all add: frame_of_def dword_of_def)
  have ne: "page_frame i \<noteq> 0" using f(5) by (auto simp: page_addr_eq)
  have t: "fold (\<lambda>j m. wr32 m (page_addr i + 4 * of_nat j) ((of_nat j * 0x1000) OR 7)) [0 ..< 256] (zero_page (pmem m0) (page_addr i)) =
      (zero_page (pmem m0) (page_addr i))(page_frame i := (\<lambda>d. if unat d < 256 then (d * 0x1000) OR 7 else 0))"
    using task1_table_filled [OF f(1), of 256] by (simp only: f(2) z)
  have m: "pmem m = wr32 (fold (\<lambda>j m. wr32 m (page_addr i + 4 * of_nat j) ((of_nat j * 0x1000) OR 7)) [0 ..< 256]
      (zero_page (pmem m0) (page_addr i))) 64 (page_addr i OR 7)" "mem_map m = (mem_map m0)(i := 1)"
    using assms page(4) f(5) by (auto simp: init_task1_paging_def simp del: upt_rec_numeral)
  have e: "pmem m 0 16 = page_addr i OR 7" "pmem m (page_frame i) d = (if unat d < 256 then (d * 0x1000) OR 7 else 0)" for d
    using ne unfolding m(1) t by (simp_all add: wr32_def w)
  show ?thesis by (rule that [OF page(1,2) m(2) e])
qed


lemma task1_shares_low:
  assumes "init_task1_paging m0 = Inr m" "unat v < 0x100000"
  shows "pte_of (pmem m) (0x4000000 + v) = Some (page_base v OR 7)" "vread (pmem m) (0x4000000 + v) = Some (rd32 (pmem m) v)"
proof -
  obtain i where i: "i < PAGING_PAGES" "pmem m 0 16 = page_addr i OR 7"
    "\<And>d. pmem m (page_frame i) d = (if unat d < 256 then (d * 0x1000) OR 7 else 0)"
    by (rule init_task1_paging_maps [OF assms(1)]) blast
  have v: "dir_slot v = 0" "dir_slot 0x4000000 = 16" using assms(2) by (simp_all add: dir_slot_def unat_drop_bit_u32)
  obtain j where j: "j < 1024" "drop_bit 12 v AND 0x3FF = of_nat j"
    "\<And>m. pte_of m (0x4000000 + v) = (let de = m 0 (of_nat (dir_slot 0x4000000 + dir_slot v)) in if is_present de
       then (let e = m (frame_of de) (of_nat j) in if is_present e then Some e else None) else None)"
    by (rule pte_at [of "0x4000000" v]) (simp_all add: v)
  have "drop_bit 12 v AND 0x3FF = take_bit 10 (drop_bit 12 v)" by (simp add: take_bit_eq_mask kbits)
  moreover have "unat (drop_bit 12 v) < 256" using assms(2) by (simp add: unat_drop_bit_u32)
  moreover have "unat (take_bit 10 (drop_bit 12 v)) = unat (drop_bit 12 v) mod 2 ^ 10" by (rule unat_take_bit_u32)
  ultimately have "of_nat j = drop_bit 12 v" "unat (of_nat j :: u32) < 256" using j(2) by (simp_all add: word_unat_eq_iff)
  moreover have "drop_bit 12 v * 0x1000 = page_base v"
  proof -
    have "drop_bit 12 v * 0x1000 = push_bit 12 (drop_bit 12 v)" by (simp add: push_bit_eq_mult)
    also have "\<dots> = page_base v" by (simp add: word32_eq_bits bit_simps kbits)
    finally show ?thesis .
  qed
  ultimately have e: "pmem m (page_frame i) (of_nat j) = page_base v OR 7" using i(3) by simp
  have fr: "frame_of (page_addr i OR 7) = page_frame i" by (metis frame_page_base page_addr_facts(2,3) i(1))
  have pr: "is_present (page_base v OR 7)" by (simp add: word32_eq_bits bit_simps kbits)
  show pte: "pte_of (pmem m) (0x4000000 + v) = Some (page_base v OR 7)"
    using i(1,2) e pr by (simp add: j(3) v fr page_addr_facts Let_def)
  have low: "(0x4000000 + v) AND 0xFFC = v AND 0xFFC" by (rule aligned_4M_low) simp
  have "frame_of (page_base v OR 7) = frame_of v" by (simp add: frame_of_def word32_eq_bits bit_simps kbits bit_beyond_u32)
  moreover have "drop_bit 2 (v AND 0xFFC) = dword_of v" by (simp add: dword_of_def word32_eq_bits bit_simps kbits bit_beyond_u32)
  ultimately show "vread (pmem m) (0x4000000 + v) = Some (rd32 (pmem m) v)"
    unfolding vread_def pte low by (simp add: rd_in_page del: wr32_def) (simp add: rd32_def)
qed


text \<open>When a fork succeeds.\<close>

definition fork_room :: "kernel \<Rightarrow> bool" where
  "fork_room s \<longleftrightarrow> card {i. i < PAGING_PAGES \<and> mem_map (mm s) i = 0} > 1025 * nr_of_dir_ent (user_limit s) + 1"

definition user_space_ok :: "kernel \<Rightarrow> bool" where
  "user_space_ok s \<longleftrightarrow> get_segment_base (ldt (cur_task s) 1) = user_base s \<and> user_base s AND 0x3FFFFF = 0 \<and>
     \<not> user_limit s < lsl_limit (ldt (cur_task s) 1) \<and>
     (\<forall>i < nr_of_dir_ent (user_limit s). is_present (pmem (mm s) 0 (of_nat (dir_slot (user_base s) + i))))"

lemma slot_base_aligned: "slot_base nr AND 0x3FFFFF = 0"
proof -
  have "slot_base nr = push_bit 26 (of_nat nr)" by (simp add: slot_base_def push_bit_eq_mult)
  then show ?thesis by (simp add: word32_eq_bits bit_simps kbits)
qed

lemma fork_returns:
  assumes ready: "fork_ready s" and slot: "empty_slot s \<noteq> 0" "empty_slot s \<noteq> 1"
    and user: "user_space_ok s" and room: "fork_room s"
  shows "\<exists>c s'. copy_process r s = Inr (c, s') \<and> c \<noteq> - EAGAIN"
proof -
  let ?nr = "empty_slot s"
  obtain q where q: "find_empty_process s = Some (?nr, s\<lparr>last_pid := q\<rparr>)" "unat q < 2147483648"
    by (rule find_empty_process_eq)
  obtain p m where pm: "get_free_page (mm s) = (p, m)" by fastforce
  have "p \<noteq> 0"
  proof
    assume "p = 0"
    then have "\<forall>i < PAGING_PAGES. mem_map (mm s) i \<noteq> 0"
      using pm page_addr_facts(5) by (cases "mm s" rule: get_free_page_cases) auto
    then have "{i. i < PAGING_PAGES \<and> mem_map (mm s) i = 0} = {}" by auto
    with room show False unfolding fork_room_def by simp
  qed
  note cur = cur_task_child_entered [OF ready pm \<open>p \<noteq> 0\<close>]
  obtain i where i: "i < PAGING_PAGES" "mem_map (mm s) i = 0" "mem_map m = (mem_map (mm s))(i := 1)"
    "pmem m = (pmem (mm s))(page_frame i := (\<lambda>_. 0))"
    "copy_ready m (dir_slot (user_base s)) (dir_slot (slot_base ?nr)) (nr_of_dir_ent (user_limit s))"
    using copy_ready_alloc [OF pm \<open>p \<noteq> 0\<close>] ready unfolding fork_ready_def by metis
  have src: "\<forall>k < nr_of_dir_ent (user_limit s). is_present (pmem m 0 (of_nat (dir_slot (user_base s) + k)))"
    using user i(1,4) page_frame_nonzero [of i] by (simp add: user_space_ok_def)
  have "{k. k < PAGING_PAGES \<and> mem_map m k = 0} = {k. k < PAGING_PAGES \<and> mem_map (mm s) k = 0} - {i}"
    by (auto simp: i(3))
  then have "card {k. k < PAGING_PAGES \<and> mem_map m k = 0} = card {k. k < PAGING_PAGES \<and> mem_map (mm s) k = 0} - 1"
    using i(1,2) by simp
  then have room': "card {k. k < PAGING_PAGES \<and> mem_map m k = 0} > 1025 * nr_of_dir_ent (user_limit s)"
    using room by (simp add: fork_room_def)
  have al: "user_base s AND 0x3FFFFF = 0" using user by (simp add: user_space_ok_def)
  obtain m2 where cp: "copy_page_tables (user_base s) (slot_base ?nr) (user_limit s) m = Inr (0, m2)"
    using copy_page_tables_returns_0 [OF al slot_base_aligned i(5) src room'] by blast
  have "\<exists>s3. copy_mem ?nr p (child_entered r s q p m) = Inr (0, s3)"
    using cp slot(2) user cur(1)
    by (simp add: copy_mem_def Let_def user_base_def user_limit_def slot_base_def user_space_ok_def)
  then obtain s3 where cm: "copy_mem ?nr p (child_entered r s q p m) = Inr (0, s3)" by blast
  then have "last_pid s3 = q" using copy_mem_frame(4) by fastforce
  then have "last_pid s3 \<noteq> - EAGAIN" using success_not_eagain q(2) by blast
  then show ?thesis using q pm \<open>p \<noteq> 0\<close> slot cm
    by (simp add: copy_process_def Let_def child_entered_def)
qed

lemma first_fork_returns:
  assumes "empty_slot s = 1" "kept_frame (mm s) (frame_of (current s))" "get_segment_base (ldt (cur_task s) 1) = user_base s"
    "\<not> user_limit s < lsl_limit (ldt (cur_task s) 1)" "i < j" "j < PAGING_PAGES" "mem_map (mm s) i = 0" "mem_map (mm s) j = 0"
  shows "\<exists>c s'. copy_process r s = Inr (c, s') \<and> c \<noteq> - EAGAIN"
proof -
  obtain q where q: "find_empty_process s = Some (empty_slot s, s\<lparr>last_pid := q\<rparr>)" "unat q < 2147483648"
    by (rule find_empty_process_eq)
  obtain k m where k: "k < PAGING_PAGES" "mem_map (mm s) k = 0" "get_free_page (mm s) = (page_addr k, m)" "mem_map m = (mem_map (mm s))(k := 1)"
    using assms(5-8) by (cases "mm s" rule: get_free_page_cases) auto
  have "\<exists>l < PAGING_PAGES. mem_map m l = 0" using assms(5-8) k(4) by (cases "k = i") auto
  then have "\<exists>m2. init_task1_paging m = Inr m2"
    by (cases m rule: get_free_page_cases) (auto simp: init_task1_paging_def page_addr_facts simp del: upt_rec_numeral)
  moreover have "page_addr k \<noteq> current s" using assms(2) k(1,2) page_addr_facts(2) [OF k(1)] by (auto simp: kept_frame_def)
  then have "cur_task (child_entered r s q (page_addr k) m) = cur_task s" by simp
  ultimately obtain s3 where cm: "copy_mem 1 (page_addr k) (child_entered r s q (page_addr k) m) = Inr (0, s3)"
    using assms(3,4) by (auto simp: copy_mem_def Let_def user_base_def user_limit_def)
  then have "last_pid s3 = q" using copy_mem_frame(4) by fastforce
  then have "last_pid s3 \<noteq> - EAGAIN" using success_not_eagain q(2) by blast
  then show ?thesis using q(1) k cm assms(1) page_addr_facts(5) by (simp add: copy_process_def Let_def child_entered_def)
qed

section \<open>A fork of task 1\<close>

lemma demo_kernel_simps [simp]:
  "tasks_ptr demo_kernel = (\<lambda>_. 0)(0 := 0x10000, 1 := 0x20000)" "current demo_kernel = 0x20000"
  "tstore demo_kernel 0x20000 = demo_task1" "mm demo_kernel = one_page_task"
  by (simp_all add: demo_kernel_def)

lemma demo_user: "user_base demo_kernel = 0x4000000" "user_limit demo_kernel = 0xFFFFF" "user_space_ok demo_kernel"
proof -
  have base: "get_segment_base (ldt demo_task1 k) = 0x4000000" if "k = 1 \<or> k = 2" for k
    using that task_base_read_back [of _ 1] by (auto simp: demo_task1_def)
  have lim: "lsl_limit (ldt demo_task1 k) = 0xFFFFF" if "k = 1 \<or> k = 2" for k
    using that
    by (auto simp: demo_task1_def task0_init_def task0_ldt_def set_segment_limit_def set_segment_base_def Let_def
        lsl_limit_def limit_field_def)
  show "user_base demo_kernel = 0x4000000" "user_limit demo_kernel = 0xFFFFF"
    by (simp_all add: user_base_def user_limit_def base lim)
  then show "user_space_ok demo_kernel"
    using base [of 1] lim [of 1] one_page_task_source
    by (simp add: user_space_ok_def nr_of_dir_ent_def)
qed

lemma demo_slot: "empty_slot demo_kernel = 2"
proof -
  have "scan_up (\<lambda>i. tasks_ptr demo_kernel i = 0) 1 NUMBER_OF_TASKS = 2"
  proof (rule scan_up_eqI)
    fix j :: nat assume "1 \<le> j" "j < 2"
    then have "j = 1" by simp
    then show "tasks_ptr demo_kernel j \<noteq> 0" by simp
  qed (simp_all add: NUMBER_OF_TASKS_def)
  then show ?thesis by (simp add: empty_slot_def NUMBER_OF_TASKS_def)
qed

lemma demo_fork_ready: "fork_ready demo_kernel"
proof -
  have "nr_of_dir_ent 0xFFFFF = nr_of_dir_ent 0x1000" by (simp add: nr_of_dir_ent_def)
  moreover have "slot_base 2 = 0x8000000" by (simp add: slot_base_def)
  moreover have "kept_frame one_page_task (frame_of 0x20000)" by (rule low_frame_kept) (simp add: frame_of_def)
  ultimately show ?thesis
    using one_page_task_ready by (simp add: fork_ready_def demo_user demo_slot)
qed

lemma demo_fork: "\<exists>c s'. copy_process r demo_kernel = Inr (c, s') \<and> c \<noteq> - EAGAIN"
proof (rule fork_returns [OF demo_fork_ready _ _ demo_user(3)])
  show "fork_room demo_kernel"
    unfolding fork_room_def demo_user demo_kernel_simps one_page_task_free
    by (simp add: PAGING_PAGES_def nr_of_dir_ent_def)
qed (simp_all add: demo_slot)

definition demo_regs :: fork_regs where
  "demo_regs = \<lparr>f_ebx = 1, f_ecx = 2, f_edx = 3, f_edi = 4, f_esi = 5, f_ebp = 6, f_ds = 0x17, f_es = 0x17, f_fs = 0x17,
     f_eip = 0x1234, f_cs = 0xF, f_eflags = 0x202, f_esp = 0x8000, f_ss = 0x17\<rparr>"

theorem fork_creates_child_witness:
  "\<exists>c s' p. copy_process demo_regs demo_kernel = Inr (c, s') \<and> tasks_ptr s' 2 = p \<and> p \<noteq> 0 \<and> pid (tstore s' p) = c
     \<and> tss_eip (tss (tstore s' p)) = 0x1234 \<and> tss_eax (tss (tstore s' p)) = 0"
proof -
  obtain c s' where run: "copy_process demo_regs demo_kernel = Inr (c, s')" "c \<noteq> - EAGAIN" using demo_fork by blast
  from fork_creates_child [OF run] obtain p t where
    "p \<noteq> 0" "tasks_ptr s' = (tasks_ptr demo_kernel)(2 := p)" "tstore s' = (tstore demo_kernel)(p := t)" "c = pid t"
    "tss_eax (tss t) = 0" "tss_eip (tss t) = f_eip demo_regs" unfolding demo_slot by blast
  with run show ?thesis by (simp add: demo_regs_def)
qed

text \<open>The same kernel before its first fork, with one task.\<close>

definition lone_kernel :: kernel where
  "lone_kernel = demo_kernel\<lparr>tasks_ptr := (\<lambda>_. 0)(0 := 0x20000)\<rparr>"

lemma lone_slot: "empty_slot lone_kernel = 1"
  by (simp add: empty_slot_def lone_kernel_def NUMBER_OF_TASKS_def scan_up.simps)

lemma lone_fork: "\<exists>c s'. copy_process r lone_kernel = Inr (c, s') \<and> c \<noteq> - EAGAIN"
proof (rule first_fork_returns [OF lone_slot])
  show "kept_frame (mm lone_kernel) (frame_of (current lone_kernel))"
    by (simp add: lone_kernel_def) (rule low_frame_kept, simp add: frame_of_def)
  show "get_segment_base (ldt (cur_task lone_kernel) 1) = user_base lone_kernel"
    "\<not> user_limit lone_kernel < lsl_limit (ldt (cur_task lone_kernel) 1)"
    using demo_user by (simp_all add: lone_kernel_def user_space_ok_def user_base_def user_limit_def)
  show "mem_map (mm lone_kernel) 0 = 0" "mem_map (mm lone_kernel) 1 = 0" by (simp_all add: lone_kernel_def one_page_task_def)
qed (simp_all add: PAGING_PAGES_def)


text \<open>The same kernel with a single page left: the task structure gets it, and the copy fails.\<close>

definition full_kernel :: kernel where
  "full_kernel = demo_kernel\<lparr>mm := one_page_task\<lparr>mem_map := (\<lambda>i. if i = 0 then 0 else 1)\<rparr>\<rparr>"

lemma full_kernel_simps [simp]:
  "tasks_ptr full_kernel = tasks_ptr demo_kernel" "tstore full_kernel 0x20000 = demo_task1" "current full_kernel = 0x20000"
  "mm full_kernel = one_page_task\<lparr>mem_map := (\<lambda>i. if i = 0 then 0 else 1)\<rparr>"
  by (simp_all add: full_kernel_def)

lemma full_user: "user_base full_kernel = 0x4000000" "user_limit full_kernel = 0xFFFFF"
  using demo_user(1,2) by (simp_all add: user_base_def user_limit_def)

lemma full_slot: "empty_slot full_kernel = 2"
  using demo_slot by (simp add: empty_slot_def)

lemma full_fork_ready: "fork_ready full_kernel"
proof -
  let ?m = "one_page_task\<lparr>mem_map := (\<lambda>i. if i = 0 then 0 else 1)\<rparr>"
  have "is_present (pmem ?m 2 (of_nat j)) \<Longrightarrow> pmem ?m 2 (of_nat j) = 0x3007" for j
    by (auto simp: one_page_task_def split: if_splits)
  then have "copy_ready ?m (dir_slot 0x4000000) (dir_slot 0x8000000) (nr_of_dir_ent 0xFFFFF)"
    by (auto simp: copy_ready_def dir_slot_def nr_of_dir_ent_def table_kept_def frame_of_def low_frame_kept)
      (auto simp: one_page_task_def frame_of_def low_frame_kept)
  moreover have "kept_frame ?m (frame_of 0x20000)" by (rule low_frame_kept) (simp add: frame_of_def)
  moreover have "slot_base 2 = 0x8000000" by (simp add: slot_base_def)
  ultimately show ?thesis by (simp add: fork_ready_def full_user full_slot)
qed

lemma copy_without_memory:
  assumes "from AND 0x3FFFFF = 0" "to AND 0x3FFFFF = 0" and n: "nr_of_dir_ent sz = Suc n"
    and ready: "copy_ready s (dir_slot from) (dir_slot to) (Suc n)"
    and src: "is_present (pmem s 0 (of_nat (dir_slot from)))" and full: "\<forall>i < PAGING_PAGES. mem_map s i \<noteq> 0"
  shows "copy_page_tables from to sz s = Inr (- ENOMEM, s)"
proof -
  have rng: "dir_slot from + 0 < 1024" "dir_slot to + 0 < 1024" "\<not> is_present (pmem s 0 (of_nat (dir_slot to)))"
    using ready by (auto simp: copy_ready_def)
  have "get_free_page s = (0, s)" using full by (cases s rule: get_free_page_cases) auto
  then have "copy_dir_entry (dir_addr from) (dir_addr to) 0 s = Inr (Some (- ENOMEM), s)"
    using dir_access(1) [OF rng(1)] dir_access(1) [OF rng(2)] rng(3) src by (simp add: copy_dir_entry_def not_present)
  then show ?thesis using assms(1,2) by (simp add: copy_page_tables_def n upt_conv_Cons del: upt_Suc)
qed

lemma full_fork: "\<exists>s'. copy_process demo_regs full_kernel = Inr (- EAGAIN, s')"
proof -
  obtain q where q: "find_empty_process full_kernel = Some (2, full_kernel\<lparr>last_pid := q\<rparr>)"
    using find_empty_process_eq [of full_kernel] full_slot by metis
  obtain p m where pm: "get_free_page (mm full_kernel) = (p, m)" by fastforce
  have p: "p \<noteq> 0"
  proof (cases "mm full_kernel" rule: get_free_page_cases)
    case full
    from full(2) [of 0] show ?thesis by (simp add: PAGING_PAGES_def)
  next
    case (page i)
    with pm page_addr_facts(5) [of i] show ?thesis by simp
  qed
  note cur = cur_task_child_entered [OF full_fork_ready pm p]
  obtain i where i: "i < PAGING_PAGES" "p = page_addr i" "mem_map (mm full_kernel) i = 0"
    "mem_map m = (mem_map (mm full_kernel))(i := 1)" "pmem m = (pmem (mm full_kernel))(page_frame i := (\<lambda>_. 0))"
    "copy_ready m (dir_slot 0x4000000) (dir_slot (slot_base 2)) (nr_of_dir_ent 0xFFFFF)"
    using copy_ready_alloc [OF pm p] full_fork_ready unfolding fork_ready_def full_user full_slot by metis
  have n: "nr_of_dir_ent 0xFFFFF = Suc 0" by (simp add: nr_of_dir_ent_def)
  have m1: "\<forall>k < PAGING_PAGES. mem_map m k \<noteq> 0" using i(3,4) by auto
  have src: "is_present (pmem m 0 (of_nat (dir_slot 0x4000000)))"
    using i(1,5) page_frame_nonzero [of i] by (simp add: one_page_task_def dir_slot_def)
  have cp: "copy_page_tables 0x4000000 (slot_base 2) 0xFFFFF m = Inr (- ENOMEM, m)"
    by (rule copy_without_memory [OF _ slot_base_aligned n _ src m1]) (use i(6) n in simp_all)
  have "slot_base 2 \<noteq> 0" by (rule slot_base_nonzero) (simp_all add: NUMBER_OF_TASKS_def)
  from copied_range_given_back [OF cp i(6) this] obtain m2 where
    m2: "free_page_tables (slot_base 2) 0xFFFFF m = Inr m2" "mem_map m2 = mem_map m" by blast
  have "free_page p m2 = Inr (m2\<lparr>mem_map := (mem_map m2)(i := mem_map m2 i - 1)\<rparr>)"
    using i(1,2,4) m2(2) by (simp add: free_page_of_page)
  moreover have "\<exists>s3. copy_mem 2 p (child_entered demo_regs full_kernel q p m) = Inr (- ENOMEM, s3) \<and> mm s3 = m2"
    using cp m2(1) cur(1) demo_user
    by (simp add: copy_mem_def Let_def user_base_def user_limit_def slot_base_def user_space_ok_def ENOMEM_def)
  ultimately show ?thesis using q pm p
    by (auto simp: copy_process_def Let_def child_entered_def full_slot ENOMEM_def)
qed


end
