(* ===== verification/Exit.thy ===== *)
theory Exit
  imports Fork
begin

text \<open>
  The end of a process and the sending of signals, kernel/exit.c: \<open>release\<close>, \<open>send_sig\<close>, \<open>sys_kill\<close>,
  \<open>kill_session\<close>, \<open>tell_father\<close> and \<open>do_exit\<close>. What is proved: an exit makes a zombie that never runs
  again, a fork followed by the child's exit and release leaks no page, and who gets a signal.
\<close>

definition EPERM :: i32 where "EPERM = 1"
definition EINVAL :: i32 where "EINVAL = 22"

section \<open>release\<close>

definition release :: "u32 \<Rightarrow> kernel \<Rightarrow> kernel kresult" where
  "release p s =
     (if p = 0 then Inr s
      else (let i = scan_up (\<lambda>i. tasks_ptr s i = p) 0 NUMBER_OF_TASKS
            in if i = NUMBER_OF_TASKS then Inl (Panic ''in release()'')
               else rbind (free_page p (mm s))
                      (\<lambda>m. Inr (schedule (s\<lparr>tasks_ptr := (tasks_ptr s)(i := 0), mm := m\<rparr>)))))"

section \<open>Sending signals\<close>

definition send_sig :: "i32 \<Rightarrow> u32 \<Rightarrow> i32 \<Rightarrow> 'a sched_state_scheme \<Rightarrow> i32 \<times> 'a sched_state_scheme" where
  "send_sig sig p priv s =
     (if p = 0 \<or> sig <s 1 \<or> 32 <s sig then (- EINVAL, s)
      else if priv \<noteq> 0 \<or> euid (cur_task s) = 0 \<or> euid (cur_task s) = euid (tstore s p)
      then (0, upd_task p (\<lambda>t. t\<lparr>signal := signal t OR push_bit (unat (sig - 1)) 1\<rparr>) s)
      else (- EPERM, s))"

text \<open>The three loops of \<open>sys_kill\<close>: every task \<open>i >= 1\<close> of the table that satisfies \<open>P\<close>.\<close>

definition send_to_all :: "(task_struct \<Rightarrow> task_struct \<Rightarrow> bool) \<Rightarrow> i32 \<Rightarrow> i32 \<Rightarrow> 'a sched_state_scheme \<Rightarrow> 'a sched_state_scheme" where
  "send_to_all P sig priv s =
     fold (\<lambda>i s. if tasks_ptr s i \<noteq> 0 \<and> P (cur_task s) (tstore s (tasks_ptr s i))
                 then snd (send_sig sig (tasks_ptr s i) priv s) else s) [1 ..< NUMBER_OF_TASKS] s"

definition sys_kill :: "i32 \<Rightarrow> i32 \<Rightarrow> 'a sched_state_scheme \<Rightarrow> i32 \<times> 'a sched_state_scheme" where
  "sys_kill p sig s =
     (if 0 <s p then send_sig sig (find_pid_task p s) 0 s
      else if p = 0 then (0, send_to_all (\<lambda>cur t. pgrp t = pid cur) sig 1 s)
      else if p = - 1 then (0, send_to_all (\<lambda>_ _. True) sig 0 s)
      else (0, send_to_all (\<lambda>_ t. pgrp t = - p) sig 0 s))"

definition kill_session :: "'a sched_state_scheme \<Rightarrow> 'a sched_state_scheme" where
  "kill_session s =
     fold (\<lambda>i s. if tasks_ptr s i \<noteq> 0 \<and> session (tstore s (tasks_ptr s i)) = session (cur_task s)
                 then upd_task (tasks_ptr s i) (\<lambda>t. t\<lparr>signal := signal t OR sigbit SIGHUP\<rparr>) s else s)
       [1 ..< NUMBER_OF_TASKS] s"

definition tell_father :: "i32 \<Rightarrow> kernel \<Rightarrow> kernel kresult" where
  "tell_father father_pid s =
     (if father_pid = 0 then Inr s
      else (let p = find_pid_task father_pid s
            in if p \<noteq> 0 then Inr (upd_task p (\<lambda>t. t\<lparr>signal := signal t OR sigbit SIGCHLD\<rparr>) s)
               else release (current s) s))"

section \<open>do_exit\<close>

definition adopt_child :: "nat \<Rightarrow> 'a sched_state_scheme \<Rightarrow> 'a sched_state_scheme" where
  "adopt_child i s =
     (if tasks_ptr s i \<noteq> 0 \<and> father (tstore s (tasks_ptr s i)) = pid (cur_task s)
      then (let s1 = upd_task (tasks_ptr s i) (\<lambda>t. t\<lparr>father := 1\<rparr>) s
            in if state (tstore s1 (tasks_ptr s1 i)) = TASK_ZOMBIE
               then snd (send_sig (of_nat SIGCHLD) (tasks_ptr s1 1) 1 s1) else s1)
      else s)"

text \<open>
  The steps of \<open>do_exit\<close> between the freeing of the memory and \<open>tell_father\<close>. When \<open>tell_father\<close> releases the
  task (its father is gone) the processor goes to another task inside \<open>release\<close> and never comes back to this
  one, so the last \<open>schedule\<close> is reached only if the current task has not changed.
\<close>

definition exit_bookkeeping :: "i32 \<Rightarrow> 'a sched_state_scheme \<Rightarrow> 'a sched_state_scheme" where
  "exit_bookkeeping code s =
     (let s2 = fold adopt_child [1 ..< NUMBER_OF_TASKS] s;
          s3 = (if leader (cur_task s2) \<noteq> 0 then kill_session s2 else s2)
      in upd_task (current s3) (\<lambda>t. t\<lparr>state := TASK_ZOMBIE, exit_code := code\<rparr>) s3)"

definition do_exit :: "i32 \<Rightarrow> kernel \<Rightarrow> (i32 \<times> kernel) kresult" where
  "do_exit code s =
     rbind (free_page_tables (get_segment_base (ldt (cur_task s) 1)) (lsl_limit (ldt (cur_task s) 1)) (mm s))
       (\<lambda>m1. rbind (free_page_tables (get_segment_base (ldt (cur_task s) 2)) (lsl_limit (ldt (cur_task s) 2)) m1)
         (\<lambda>m2. let s4 = exit_bookkeeping code (s\<lparr>mm := m2\<rparr>)
               in rbind (tell_father (father (cur_task s4)) s4)
                    (\<lambda>s5. Inr (0, if current s5 \<noteq> current s4 then s5 else schedule s5))))"

definition sys_exit :: "i32 \<Rightarrow> kernel \<Rightarrow> (i32 \<times> kernel) kresult" where
  "sys_exit error_code s = do_exit (push_bit 8 (error_code AND 0xFF)) s"

section \<open>Passes that treat some of the tasks\<close>

lemma live_tasks_Cons:
  "live_tasks (i # is) s = (if tasks_ptr s i \<noteq> 0 then insert (tasks_ptr s i) (live_tasks is s) else live_tasks is s)"
  by (auto simp: live_tasks_def)

lemma guarded_pass:
  assumes idem: "\<And>t. f (f t) = f t" and stable: "\<And>c t. Q (f c) t \<longleftrightarrow> Q c t"
  shows "fold (\<lambda>i s. if tasks_ptr s i \<noteq> 0 \<and> Q (cur_task s) (tstore s (tasks_ptr s i))
                     then upd_task (tasks_ptr s i) f s else s) is s =
    s\<lparr>tstore := \<lambda>a. if a \<in> live_tasks is s \<and> Q (cur_task s) (tstore s a) then f (tstore s a) else tstore s a\<rparr>"
proof -
  define step where "step = (\<lambda>i s. if tasks_ptr s i \<noteq> 0 \<and> Q (cur_task s) (tstore s (tasks_ptr s i))
     then upd_task (tasks_ptr s i) f s else (s :: 'a sched_state_scheme))"
  have "fold step is s =
    s\<lparr>tstore := \<lambda>a. if a \<in> live_tasks is s \<and> Q (cur_task s) (tstore s a) then f (tstore s a) else tstore s a\<rparr>"
  proof (induction "is" arbitrary: s)
    case Nil
    then show ?case by (simp add: live_tasks_def)
  next
    case (Cons i "is")
    show ?case
    proof (cases "tasks_ptr s i \<noteq> 0 \<and> Q (cur_task s) (tstore s (tasks_ptr s i))")
      case False
      then have "step i s = s" by (auto simp: step_def)
      with False show ?thesis by (simp add: Cons.IH live_tasks_Cons) (auto simp: fun_eq_iff)
    next
      case True
      let ?s1 = "upd_task (tasks_ptr s i) f s"
      have Q: "Q (cur_task ?s1) t \<longleftrightarrow> Q (cur_task s) t" for t using stable by simp
      have live: "live_tasks is ?s1 = live_tasks is s" by (simp add: live_tasks_def)
      have "fold step (i # is) s = fold step is ?s1" using True by (simp add: step_def)
      also have "\<dots> = ?s1\<lparr>tstore := \<lambda>a. if a \<in> live_tasks is s \<and> Q (cur_task s) (tstore ?s1 a) then f (tstore ?s1 a) else tstore ?s1 a\<rparr>"
        unfolding Cons.IH Q live ..
      also have "\<dots> = s\<lparr>tstore := \<lambda>a. if a \<in> insert (tasks_ptr s i) (live_tasks is s) \<and> Q (cur_task s) (tstore s a)
          then f (tstore s a) else tstore s a\<rparr>"
        using True unfolding upd_task_def
        by simp (auto simp: idem intro!: arg_cong [where f = "\<lambda>t. s\<lparr>tstore := t\<rparr>"] ext)
      finally show ?thesis using True by (simp add: live_tasks_Cons)
    qed
  qed
  then show ?thesis by (simp only: step_def)
qed

section \<open>Who gets a signal\<close>

definition valid_sig :: "i32 \<Rightarrow> bool" where "valid_sig sig \<longleftrightarrow> \<not> sig <s 1 \<and> \<not> 32 <s sig"

definition may_signal :: "i32 \<Rightarrow> task_struct \<Rightarrow> task_struct \<Rightarrow> bool" where
  "may_signal priv cur t \<longleftrightarrow> priv \<noteq> 0 \<or> euid cur = 0 \<or> euid cur = euid t"

definition raise_sig :: "i32 \<Rightarrow> task_struct \<Rightarrow> task_struct" where
  "raise_sig sig t = t\<lparr>signal := signal t OR push_bit (unat (sig - 1)) 1\<rparr>"

lemma send_sig_eq:
  "send_sig sig p priv s =
     (if p = 0 \<or> \<not> valid_sig sig then (- EINVAL, s)
      else if may_signal priv (cur_task s) (tstore s p) then (0, upd_task p (raise_sig sig) s) else (- EPERM, s))"
  by (simp add: send_sig_def valid_sig_def may_signal_def raise_sig_def [abs_def])

lemma raise_sig_simps [simp]:
  "raise_sig sig (raise_sig sig t) = raise_sig sig t" "euid (raise_sig sig t) = euid t" "pid (raise_sig sig t) = pid t"
  "pgrp (raise_sig sig t) = pgrp t" "session (raise_sig sig t) = session t" "state (raise_sig sig t) = state t"
  by (simp_all add: raise_sig_def or.assoc)

lemma send_to_all_eq:
  assumes "valid_sig sig" and stable: "\<And>c t. P (raise_sig sig c) t \<longleftrightarrow> P c t"
  shows "send_to_all P sig priv s =
    s\<lparr>tstore := \<lambda>a. if a \<in> live_tasks [1 ..< NUMBER_OF_TASKS] s \<and> P (cur_task s) (tstore s a) \<and> may_signal priv (cur_task s) (tstore s a)
                    then raise_sig sig (tstore s a) else tstore s a\<rparr>"
proof -
  have "send_to_all P sig priv s =
     fold (\<lambda>i s. if tasks_ptr s i \<noteq> 0 \<and> (P (cur_task s) (tstore s (tasks_ptr s i)) \<and> may_signal priv (cur_task s) (tstore s (tasks_ptr s i)))
                 then upd_task (tasks_ptr s i) (raise_sig sig) s else s) [1 ..< NUMBER_OF_TASKS] s"
    unfolding send_to_all_def send_sig_eq
    by (rule arg_cong [where f = "\<lambda>f. fold f [1 ..< NUMBER_OF_TASKS] s"]) (auto simp: assms(1) fun_eq_iff)
  also have "\<dots> = s\<lparr>tstore := \<lambda>a. if a \<in> live_tasks [1 ..< NUMBER_OF_TASKS] s \<and> (P (cur_task s) (tstore s a) \<and> may_signal priv (cur_task s) (tstore s a))
                    then raise_sig sig (tstore s a) else tstore s a\<rparr>"
    by (rule guarded_pass [where Q = "\<lambda>c t. P c t \<and> may_signal priv c t"]) (simp_all add: stable may_signal_def)
  finally show ?thesis .
qed

lemma live_from_1: "live_tasks [Suc 0 ..< NUMBER_OF_TASKS] s = {a. \<exists>i. Suc 0 \<le> i \<and> i < NUMBER_OF_TASKS \<and> tasks_ptr s i = a \<and> a \<noteq> 0}"
  by (auto simp: live_tasks_def)

text \<open>
  A valid signal sent with a process number that is not positive reaches exactly the tasks \<open>i >= 1\<close> of the
  table that the number selects and the caller may signal: number 0 selects the tasks whose group
  number is the caller's process number (not its group number), and then no permission is asked; -1 selects all, task 1
  included; any other selects the group of its absolute value. Each gets the signal's bit; no other
  field of any task changes, and the result is 0 whether or not anyone got it.
\<close>

lemma kill_group_reaches:
  assumes "valid_sig sig" "\<not> 0 <s p"
  shows "sys_kill p sig s = (0, s\<lparr>tstore := \<lambda>a.
     if (\<exists>i. 1 \<le> i \<and> i < NUMBER_OF_TASKS \<and> tasks_ptr s i = a \<and> a \<noteq> 0)
        \<and> (if p = 0 then pgrp (tstore s a) = pid (cur_task s)
           else (p = - 1 \<or> pgrp (tstore s a) = - p) \<and>
                (euid (cur_task s) = 0 \<or> euid (cur_task s) = euid (tstore s a)))
     then (tstore s a)\<lparr>signal := signal (tstore s a) OR push_bit (unat (sig - 1)) 1\<rparr> else tstore s a\<rparr>)"
  using assms
  by (auto simp: sys_kill_def send_to_all_eq live_from_1 may_signal_def raise_sig_def fun_eq_iff
      intro!: arg_cong [where f = "\<lambda>f. s\<lparr>tstore := f\<rparr>"])

lemma two_tasks_signal: "signal (tstore (two_tasks x y) 0x20000) = 0" "pgrp (tstore (two_tasks x y) 0x20000) = 0"
  "euid (tstore (two_tasks x y) 0x20000) = 0"
  by (simp_all add: task0_init_def)

lemma kill_group_reaches_witness:
  "signal (tstore (snd (sys_kill (- 1) 9 (two_tasks 1 1))) 0x20000) = 0x100"
proof -
  have "valid_sig 9" "\<not> 0 <s (- 1 :: i32)" by (simp_all add: valid_sig_def word_sless_alt)
  moreover have "\<exists>i. 1 \<le> i \<and> i < NUMBER_OF_TASKS \<and> tasks_ptr (two_tasks 1 1) i = 0x20000"
    by (rule exI [of _ 1]) (simp add: NUMBER_OF_TASKS_def)
  ultimately show ?thesis
    by (simp add: kill_group_reaches two_tasks_signal) (simp add: task0_init_def)
qed


section \<open>The steps of an exit\<close>

text \<open>\<open>s'\<close> differs from \<open>s\<close> at most in the fathers and the signals of the tasks.\<close>

definition same_but_family :: "task_struct \<Rightarrow> task_struct \<Rightarrow> bool" where
  "same_but_family t u \<longleftrightarrow> t\<lparr>father := 0, signal := 0\<rparr> = u\<lparr>father := 0, signal := 0\<rparr>"

definition family_change :: "'a sched_state_scheme \<Rightarrow> 'a sched_state_scheme \<Rightarrow> bool" where
  "family_change s s' \<longleftrightarrow> tasks_ptr s' = tasks_ptr s \<and> current s' = current s \<and> jiffies s' = jiffies s \<and>
     task0_addr s' = task0_addr s \<and> sched_state.more s' = sched_state.more s \<and>
     (\<forall>a. same_but_family (tstore s' a) (tstore s a))"

lemma same_but_family_fields:
  assumes "same_but_family t u"
  shows "state t = state u" "pid t = pid u" "ldt t = ldt u" "leader t = leader u" "session t = session u"
    "exit_code t = exit_code u" "ts t = ts u" "priority t = priority u"
  using assms [unfolded same_but_family_def, THEN arg_cong [where f = state]]
    assms [unfolded same_but_family_def, THEN arg_cong [where f = pid]]
    assms [unfolded same_but_family_def, THEN arg_cong [where f = ldt]]
    assms [unfolded same_but_family_def, THEN arg_cong [where f = leader]]
    assms [unfolded same_but_family_def, THEN arg_cong [where f = session]]
    assms [unfolded same_but_family_def, THEN arg_cong [where f = exit_code]]
    assms [unfolded same_but_family_def, THEN arg_cong [where f = ts]]
    assms [unfolded same_but_family_def, THEN arg_cong [where f = priority]]
  by simp_all

lemma family_change_refl [simp]: "family_change s s"
  by (simp add: family_change_def same_but_family_def)

lemma family_change_trans: "family_change s s1 \<Longrightarrow> family_change s1 s2 \<Longrightarrow> family_change s s2"
  unfolding family_change_def same_but_family_def by metis

lemma family_change_upd:
  "same_but_family (g (tstore s p)) (tstore s p) \<Longrightarrow> family_change s (upd_task p g s)"
  by (simp add: family_change_def) (simp add: same_but_family_def)

lemma family_change_send: "family_change s (snd (send_sig sig p priv s))"
  by (auto simp: send_sig_def same_but_family_def intro!: family_change_upd)

lemma family_change_fold:
  "(\<And>i s. family_change s (g i s)) \<Longrightarrow> family_change s (fold g is s)"
  by (induction "is" arbitrary: s) (auto intro: family_change_trans)

lemma family_change_facts:
  assumes "family_change s s'"
  shows "tasks_ptr s' = tasks_ptr s" "current s' = current s" "jiffies s' = jiffies s" "sched_state.more s' = sched_state.more s"
    "state (tstore s' a) = state (tstore s a)" "pid (tstore s' a) = pid (tstore s a)" "ldt (tstore s' a) = ldt (tstore s a)"
    "leader (tstore s' a) = leader (tstore s a)" "session (tstore s' a) = session (tstore s a)"
  using assms same_but_family_fields [of "tstore s' a" "tstore s a"] by (simp_all add: family_change_def)

lemma adopt_child_family: "family_change s (adopt_child i s)"
proof (cases "tasks_ptr s i \<noteq> 0 \<and> father (tstore s (tasks_ptr s i)) = pid (cur_task s)")
  case True
  have "family_change s (upd_task (tasks_ptr s i) (\<lambda>t. t\<lparr>father := 1\<rparr>) s)"
    by (rule family_change_upd) (simp add: same_but_family_def)
  with True show ?thesis
    by (auto simp: adopt_child_def Let_def intro: family_change_trans family_change_send)
qed (auto simp: adopt_child_def)

lemma send_sig_father [simp]: "father (tstore (snd (send_sig sig p priv s)) a) = father (tstore s a)"
  by (auto simp: send_sig_def)

lemma adopt_child_father:
  "father (tstore (adopt_child i s) a) =
     (if tasks_ptr s i = a \<and> a \<noteq> 0 \<and> father (tstore s a) = pid (cur_task s) then 1 else father (tstore s a))"
  by (auto simp: adopt_child_def Let_def)

lemma adopt_all_father:
  "father (tstore (fold adopt_child is s) a) =
     (if a \<in> live_tasks is s \<and> father (tstore s a) = pid (cur_task s) then 1 else father (tstore s a))"
proof (induction "is" arbitrary: s)
  case Nil
  then show ?case by (simp add: live_tasks_def)
next
  case (Cons i "is")
  note f = family_change_facts [OF adopt_child_family [of s i]]
  have "live_tasks is (adopt_child i s) = live_tasks is s" by (simp add: live_tasks_def f)
  then show ?case
    by (simp add: Cons.IH adopt_child_father f live_tasks_Cons) auto
qed

text \<open>Signals are only ever added, and an adopted zombie is reported to task 1.\<close>

lemma adopt_child_signal:
  "bit (signal (tstore s a)) n \<Longrightarrow> bit (signal (tstore (adopt_child i s) a)) n"
  by (auto simp: adopt_child_def Let_def send_sig_eq raise_sig_def bit_or_iff)

lemma valid_sigchld: "valid_sig (of_nat SIGCHLD)" "unat ((of_nat SIGCHLD :: i32) - 1) = 16"
  by (simp_all add: valid_sig_def word_sless_alt SIGCHLD_def)

lemma adopt_child_zombie:
  assumes "tasks_ptr s i \<noteq> 0" "father (tstore s (tasks_ptr s i)) = pid (cur_task s)"
    "state (tstore s (tasks_ptr s i)) = TASK_ZOMBIE" "tasks_ptr s 1 \<noteq> 0"
  shows "bit (signal (tstore (adopt_child i s) (tasks_ptr s 1))) 16"
  using assms valid_sigchld
  by (auto simp: adopt_child_def Let_def send_sig_eq raise_sig_def may_signal_def bit_simps)

lemma adopt_all_zombie:
  assumes "tasks_ptr s 1 \<noteq> 0"
  shows "\<exists>i \<in> set is. tasks_ptr s i \<noteq> 0 \<and> father (tstore s (tasks_ptr s i)) = pid (cur_task s) \<and>
      state (tstore s (tasks_ptr s i)) = TASK_ZOMBIE \<Longrightarrow> bit (signal (tstore (fold adopt_child is s) (tasks_ptr s 1))) 16"
  using assms
proof (induction "is" arbitrary: s)
  case (Cons i "is")
  note f = family_change_facts [OF adopt_child_family [of s i]]
  have keep: "bit (signal (tstore t a)) 16 \<Longrightarrow> bit (signal (tstore (fold adopt_child is t) a)) 16" for t :: "'a sched_state_scheme" and a
    by (induction "is" arbitrary: t) (simp_all add: adopt_child_signal)
  show ?case
  proof (cases "tasks_ptr s i \<noteq> 0 \<and> father (tstore s (tasks_ptr s i)) = pid (cur_task s) \<and> state (tstore s (tasks_ptr s i)) = TASK_ZOMBIE")
    case True
    then show ?thesis using adopt_child_zombie [of s i] Cons.prems(2) keep by simp
  next
    case False
    with Cons.prems(1) obtain j where j: "j \<in> set is" "tasks_ptr s j \<noteq> 0" "father (tstore s (tasks_ptr s j)) = pid (cur_task s)"
      "state (tstore s (tasks_ptr s j)) = TASK_ZOMBIE" by auto
    show ?thesis
    proof (cases "tasks_ptr s i = tasks_ptr s j")
      case True
      with j False show ?thesis by simp
    next
      case ne: False
      then have "father (tstore (adopt_child i s) (tasks_ptr s j)) = pid (cur_task s)"
        using j by (simp add: adopt_child_father)
      with Cons.IH [of "adopt_child i s"] Cons.prems(2) j f show ?thesis by auto
    qed
  qed
qed simp

lemma kill_session_eq:
  "kill_session s = s\<lparr>tstore := \<lambda>a. if a \<in> live_tasks [1 ..< NUMBER_OF_TASKS] s \<and> session (tstore s a) = session (cur_task s)
     then (tstore s a)\<lparr>signal := signal (tstore s a) OR sigbit SIGHUP\<rparr> else tstore s a\<rparr>"
  unfolding kill_session_def
  by (rule guarded_pass [where Q = "\<lambda>c t. session t = session c" and f = "\<lambda>t. t\<lparr>signal := signal t OR sigbit SIGHUP\<rparr>"])
    (simp_all add: or.assoc)

lemma kill_session_family: "family_change s (kill_session s)"
  by (simp add: kill_session_eq family_change_def same_but_family_def)

lemma kill_session_father: "father (tstore (kill_session s) a) = father (tstore s a)"
  by (simp add: kill_session_eq)

lemma kill_session_signal: "bit (signal (tstore s a)) n \<Longrightarrow> bit (signal (tstore (kill_session s) a)) n"
  by (simp add: kill_session_eq bit_or_iff)

text \<open>The bookkeeping of an exit as a whole.\<close>

lemma exit_bookkeeping_facts:
  fixes s :: "'a sched_state_scheme" and code :: i32
  defines "s4 \<equiv> exit_bookkeeping code s"
  shows "tasks_ptr s4 = tasks_ptr s" "current s4 = current s" "sched_state.more s4 = sched_state.more s"
    "state (tstore s4 a) = (if a = current s then TASK_ZOMBIE else state (tstore s a))"
    "exit_code (cur_task s4) = code" "pid (tstore s4 a) = pid (tstore s a)"
    "father (tstore s4 a) = (if a \<in> live_tasks [1 ..< NUMBER_OF_TASKS] s \<and> father (tstore s a) = pid (cur_task s)
       then 1 else father (tstore s a))"
    "tasks_ptr s 1 \<noteq> 0 \<Longrightarrow> \<exists>i \<in> {1 ..< NUMBER_OF_TASKS}. tasks_ptr s i \<noteq> 0 \<and>
        father (tstore s (tasks_ptr s i)) = pid (cur_task s) \<and> state (tstore s (tasks_ptr s i)) = TASK_ZOMBIE \<Longrightarrow>
       bit (signal (tstore s4 (tasks_ptr s 1))) 16"
proof -
  let ?s2 = "fold adopt_child [1 ..< NUMBER_OF_TASKS] s"
  define s3 where "s3 = (if leader (cur_task ?s2) \<noteq> 0 then kill_session ?s2 else ?s2)"
  have s4: "s4 = upd_task (current s3) (\<lambda>t. t\<lparr>state := TASK_ZOMBIE, exit_code := code\<rparr>) s3"
    by (simp add: s4_def exit_bookkeeping_def s3_def Let_def)
  have "family_change s ?s2" by (rule family_change_fold) (rule adopt_child_family)
  then have "family_change s s3"
    unfolding s3_def using kill_session_family family_change_trans by auto
  note f = family_change_facts [OF this]
  have fa: "father (tstore s3 a) = father (tstore ?s2 a)" for a by (simp add: s3_def kill_session_father)
  have sg: "bit (signal (tstore ?s2 a)) n \<Longrightarrow> bit (signal (tstore s3 a)) n" for a n
    by (simp add: s3_def kill_session_signal)
  show "tasks_ptr s4 = tasks_ptr s" "current s4 = current s" "sched_state.more s4 = sched_state.more s"
    "state (tstore s4 a) = (if a = current s then TASK_ZOMBIE else state (tstore s a))"
    "exit_code (cur_task s4) = code" "pid (tstore s4 a) = pid (tstore s a)"
    "father (tstore s4 a) = (if a \<in> live_tasks [1 ..< NUMBER_OF_TASKS] s \<and> father (tstore s a) = pid (cur_task s)
       then 1 else father (tstore s a))"
    by (simp_all add: s4 f fa adopt_all_father)
  assume "tasks_ptr s 1 \<noteq> 0" "\<exists>i \<in> {1 ..< NUMBER_OF_TASKS}. tasks_ptr s i \<noteq> 0 \<and>
        father (tstore s (tasks_ptr s i)) = pid (cur_task s) \<and> state (tstore s (tasks_ptr s i)) = TASK_ZOMBIE"
  then have "bit (signal (tstore ?s2 (tasks_ptr s 1))) 16" using adopt_all_zombie [of s "[1 ..< NUMBER_OF_TASKS]"] by simp
  then have "bit (signal (tstore s3 (tasks_ptr s 1))) 16" by (rule sg)
  then show "bit (signal (tstore s4 (tasks_ptr s 1))) 16" by (auto simp: s4)
qed


section \<open>do_exit\<close>

lemma schedule_fields:
  "father (tstore (schedule s) a) = father (tstore s a)" "pid (tstore (schedule s) a) = pid (tstore s a)"
  "exit_code (tstore (schedule s) a) = exit_code (tstore s a)"
  "bit (signal (tstore s a)) n \<Longrightarrow> bit (signal (tstore (schedule s) a)) n"
  by (auto simp: schedule_eq woken_def refilled_def refill_task_def wake_task_def Let_def bit_or_iff split: option.splits)

lemma find_pid_task_cong:
  assumes "tasks_ptr s = tasks_ptr s'" "\<And>a. pid (tstore s a) = pid (tstore s' a)"
  shows "find_pid_task p s = find_pid_task p s'"
  by (simp add: find_pid_task_def Let_def assms)

text \<open>The run of \<open>do_exit\<close> when the father is task 0 or is in the table.\<close>

lemma do_exit_with_father:
  fixes s :: kernel and code :: i32
  assumes nofree: "free_page_tables (get_segment_base (ldt (cur_task s) 1)) (lsl_limit (ldt (cur_task s) 1)) (mm s) = Inr m1"
      "free_page_tables (get_segment_base (ldt (cur_task s) 2)) (lsl_limit (ldt (cur_task s) 2)) m1 = Inr m2"
    and self: "father (cur_task s) \<noteq> pid (cur_task s)"
    and fa: "father (cur_task s) = 0 \<or> find_pid_task (father (cur_task s)) s \<noteq> 0"
  defines "s4 \<equiv> exit_bookkeeping code (s\<lparr>mm := m2\<rparr>)"
  shows "do_exit code s = Inr (0, schedule (if father (cur_task s) = 0 then s4
      else upd_task (find_pid_task (father (cur_task s)) s) (\<lambda>t. t\<lparr>signal := signal t OR sigbit SIGCHLD\<rparr>) s4))"
proof -
  note f = exit_bookkeeping_facts [where s = "s\<lparr>mm := m2\<rparr>" and code = code, folded s4_def]
  have "father (cur_task s4) = father (cur_task s)" using self by (simp add: f)
  moreover have "find_pid_task q s4 = find_pid_task q s" for q
    by (rule find_pid_task_cong) (simp_all add: f)
  ultimately show ?thesis
    using nofree fa by (auto simp: do_exit_def Let_def s4_def [symmetric] tell_father_def)
qed

lemma do_exit_frees:
  assumes "do_exit code s = Inr (r, s')"
  obtains m1 m2 where
    "free_page_tables (get_segment_base (ldt (cur_task s) 1)) (lsl_limit (ldt (cur_task s) 1)) (mm s) = Inr m1"
    "free_page_tables (get_segment_base (ldt (cur_task s) 2)) (lsl_limit (ldt (cur_task s) 2)) m1 = Inr m2"
  using assms by (auto simp: do_exit_def rbind_eq_Inr)

text \<open>Once another task can run and has ticks left, \<open>schedule\<close> does not choose a zombie.\<close>

lemma schedule_leaves_zombie:
  assumes "state (tstore t a) = TASK_ZOMBIE" "i < NUMBER_OF_TASKS" "can_run t i" "0 < ticks t i"
  shows "current (schedule t) \<noteq> a"
proof -
  have i: "can_run (woken t) i" "ticks (woken t) i = ticks t i"
    using assms(3) by (auto simp: can_run_def woken_def wake_task_fields)
  then obtain k where k: "next_task (woken t) = Some k" using assms(2,4) next_task_None [of "woken t"] by fastforce
  then have "state (tstore (woken t) (tasks_ptr t k)) = TASK_RUNNING" using next_task_Some [OF k] by (simp add: can_run_def woken_def)
  moreover have "state (tstore (woken t) a) = TASK_ZOMBIE" using assms(1) by (simp add: woken_def wake_task_fields)
  ultimately show ?thesis by (auto simp: schedule_eq k)
qed

text \<open>
  C9. An exit of a task whose father has the number 0 or is found in the table (and is not the task itself). It becomes a zombie with the exit
  code and stays in the table. Its children become task 1's; a child that was a zombie already is reported to task 1.
  A father with a number other than 0 gets SIGCHLD. \<open>do_exit\<close> may return in the zombie, when its \<open>schedule\<close> finds no other task with
  ticks and only refills them; but the next \<open>schedule\<close> that finds one takes the processor away, and once lost it never comes back.
\<close>

theorem exit_makes_zombie:
  assumes run: "do_exit code s = Inr (r, s')"
    and self: "father (cur_task s) \<noteq> pid (cur_task s)"
    and fa: "father (cur_task s) = 0 \<or> find_pid_task (father (cur_task s)) s \<noteq> 0"
  shows "tasks_ptr s' = tasks_ptr s \<and> state (tstore s' (current s)) = TASK_ZOMBIE \<and> exit_code (tstore s' (current s)) = code
    \<and> (\<forall>i \<in> {1 ..< NUMBER_OF_TASKS}. tasks_ptr s i \<noteq> 0 \<and> father (tstore s (tasks_ptr s i)) = pid (cur_task s) \<longrightarrow>
          father (tstore s' (tasks_ptr s i)) = 1 \<and>
          (state (tstore s (tasks_ptr s i)) = TASK_ZOMBIE \<and> tasks_ptr s 1 \<noteq> 0 \<longrightarrow> bit (signal (tstore s' (tasks_ptr s 1))) 16))
    \<and> (father (cur_task s) \<noteq> 0 \<longrightarrow> bit (signal (tstore s' (find_pid_task (father (cur_task s)) s))) 16)
    \<and> ((\<exists>i < NUMBER_OF_TASKS. can_run ((schedule ^^ n) s') i \<and> 0 < ticks ((schedule ^^ n) s') i) \<longrightarrow>
          current ((schedule ^^ Suc n) s') \<noteq> current s)
    \<and> (current ((schedule ^^ n) s') \<noteq> current s \<longrightarrow> current ((schedule ^^ (k + n)) s') \<noteq> current s)"
proof -
  obtain m1 m2 where free:
    "free_page_tables (get_segment_base (ldt (cur_task s) 1)) (lsl_limit (ldt (cur_task s) 1)) (mm s) = Inr m1"
    "free_page_tables (get_segment_base (ldt (cur_task s) 2)) (lsl_limit (ldt (cur_task s) 2)) m1 = Inr m2"
    by (rule do_exit_frees [OF run])
  define s4 where "s4 = exit_bookkeeping code (s\<lparr>mm := m2\<rparr>)"
  note f = exit_bookkeeping_facts [where s = "s\<lparr>mm := m2\<rparr>" and code = code, folded s4_def, simplified]
  let ?F = "find_pid_task (father (cur_task s)) s"
  define s5 where "s5 = (if father (cur_task s) = 0 then s4 else upd_task ?F (\<lambda>t. t\<lparr>signal := signal t OR sigbit SIGCHLD\<rparr>) s4)"
  have s': "s' = schedule s5"
    using do_exit_with_father [OF free self fa, of code, folded s4_def] run by (simp add: s5_def)
  have g: "tasks_ptr s5 = tasks_ptr s" "current s5 = current s" "state (tstore s5 a) = state (tstore s4 a)"
    "exit_code (tstore s5 a) = exit_code (tstore s4 a)" "father (tstore s5 a) = father (tstore s4 a)"
    "bit (signal (tstore s4 a)) k \<Longrightarrow> bit (signal (tstore s5 a)) k" for a k
    by (auto simp: s5_def f bit_or_iff)
  have z5: "state (tstore s5 (current s)) = TASK_ZOMBIE" by (simp add: g f)
  then have z: "state (tstore s' (current s)) = TASK_ZOMBIE" unfolding s' using cpu.keeps [of s5] by simp
  have kids: "father (tstore s' (tasks_ptr s i)) = 1 \<and>
      (state (tstore s (tasks_ptr s i)) = TASK_ZOMBIE \<and> tasks_ptr s 1 \<noteq> 0 \<longrightarrow> bit (signal (tstore s' (tasks_ptr s 1))) 16)"
    if i: "i \<in> {1 ..< NUMBER_OF_TASKS}" "tasks_ptr s i \<noteq> 0" "father (tstore s (tasks_ptr s i)) = pid (cur_task s)" for i
  proof -
    have "tasks_ptr s i \<in> live_tasks [Suc 0 ..< NUMBER_OF_TASKS] (s\<lparr>mm := m2\<rparr>)" using i by (auto simp: live_tasks_def)
    then have "father (tstore s' (tasks_ptr s i)) = 1" using i(3) by (simp add: s' schedule_fields g f)
    moreover have "bit (signal (tstore s4 (tasks_ptr s 1))) 16" if "state (tstore s (tasks_ptr s i)) = TASK_ZOMBIE" "tasks_ptr s 1 \<noteq> 0"
    proof -
      have "\<exists>i \<in> {Suc 0 ..< NUMBER_OF_TASKS}. tasks_ptr s i \<noteq> 0 \<and> father (tstore s (tasks_ptr s i)) = pid (cur_task s) \<and>
          state (tstore s (tasks_ptr s i)) = TASK_ZOMBIE" by (rule bexI [of _ i]) (use i that in simp_all)
      with f(8) that(2) show ?thesis by simp
    qed
    ultimately show ?thesis using g(6) schedule_fields(4) s' by blast
  qed
  have "bit (signal (tstore s' ?F)) 16" if "father (cur_task s) \<noteq> 0"
    unfolding s' by (rule schedule_fields) (use that in \<open>simp add: s5_def bit_or_iff sigbit_def SIGCHLD_def bit_simps\<close>)
  moreover have zn: "state (tstore ((schedule ^^ n) s') (current s)) = TASK_ZOMBIE" using cpu.keeps_many [of s' "current s" n] z by simp
  then have "current ((schedule ^^ Suc n) s') \<noteq> current s"
    if "\<exists>i < NUMBER_OF_TASKS. can_run ((schedule ^^ n) s') i \<and> 0 < ticks ((schedule ^^ n) s') i"
    using that schedule_leaves_zombie [OF zn] by auto
  moreover have "current ((schedule ^^ (k + n)) s') \<noteq> current s" if "current ((schedule ^^ n) s') \<noteq> current s"
    using cpu.sleeper_not_chosen [of "(schedule ^^ n) s'" "current s" k] zn that by (simp add: cpu.off_cpu_def funpow_add)
  moreover have "exit_code (tstore s' (current s)) = code" using f(5) by (simp add: s' schedule_fields g f)
  ultimately show ?thesis using z kids by (simp add: s' g)
qed


section \<open>A whole life: fork, exit, release\<close>

text \<open>The pages of the task structures in the table cannot be handed out.\<close>

definition tasks_kept :: "kernel \<Rightarrow> bool" where
  "tasks_kept s \<longleftrightarrow> (\<forall>i < NUMBER_OF_TASKS. tasks_ptr s i \<noteq> 0 \<longrightarrow> kept_frame (mm s) (frame_of (tasks_ptr s i)))"

definition same_limits :: "kernel \<Rightarrow> bool" where
  "same_limits s \<longleftrightarrow> lsl_limit (ldt (cur_task s) 1) = lsl_limit (ldt (cur_task s) 2)"

lemma lsl_limit_task_base: "lsl_limit (set_segment_base d (of_nat n * 0x4000000)) = lsl_limit d"
proof -
  have "(of_nat n * 0x4000000 :: u32) = push_bit 26 (of_nat n)" by (simp add: push_bit_eq_mult)
  then have "(of_nat n * 0x4000000 :: u32) AND 0xFFFF = 0" by (simp add: aligned64K_bits bit_simps)
  then show ?thesis by (simp add: lsl_limit_def limit_set_base_aligned)
qed

lemma find_pid_task_found:
  assumes "1 \<le> i" "i < NUMBER_OF_TASKS" "tasks_ptr s i \<noteq> 0"
  shows "find_pid_task (pid (tstore s (tasks_ptr s i))) s \<noteq> 0"
proof -
  let ?P = "\<lambda>j. tasks_ptr s j \<noteq> 0 \<and> pid (tstore s (tasks_ptr s j)) = pid (tstore s (tasks_ptr s i))"
  have "scan_up ?P 1 NUMBER_OF_TASKS < NUMBER_OF_TASKS"
    using assms by (subst scan_up_lt_iff) (auto simp: NUMBER_OF_TASKS_def)
  with scan_up_hit [OF this] show ?thesis by (simp add: find_pid_task_def)
qed

lemma kernel_more: "sched_state.more (x :: kernel) = sched_state.more y \<Longrightarrow> mm x = mm y"
  by (cases x; cases y) simp

lemma exit_frees_memory:
  assumes "free_page_tables (get_segment_base (ldt (cur_task s) 1)) (lsl_limit (ldt (cur_task s) 1)) (mm s) = Inr m1"
    "free_page_tables (get_segment_base (ldt (cur_task s) 2)) (lsl_limit (ldt (cur_task s) 2)) m1 = Inr m2"
    "father (cur_task s) \<noteq> pid (cur_task s)" "father (cur_task s) = 0 \<or> find_pid_task (father (cur_task s)) s \<noteq> 0"
  obtains s' where "do_exit code s = Inr (0, s')" "tasks_ptr s' = tasks_ptr s" "mm s' = m2"
proof -
  let ?t = "exit_bookkeeping code (s\<lparr>mm := m2\<rparr>)"
  have "mm ?t = m2" using kernel_more [OF exit_bookkeeping_facts(3) [where s = "s\<lparr>mm := m2\<rparr>" and code = code]] by simp
  moreover have "tasks_ptr ?t = tasks_ptr s" by (simp add: exit_bookkeeping_facts)
  moreover have "mm (schedule x) = mm x" for x :: kernel by (rule kernel_more) simp
  moreover note do_exit_with_father [OF assms, of code]
  ultimately show thesis by (cases "father (cur_task s) = 0") (auto intro: that)
qed

lemma release_gives_back:
  assumes "nr < NUMBER_OF_TASKS" "tasks_ptr s nr = p" "\<And>k. k < NUMBER_OF_TASKS \<Longrightarrow> k \<noteq> nr \<Longrightarrow> tasks_ptr s k \<noteq> p" "p \<noteq> 0"
    "i < PAGING_PAGES" "p = page_addr i" "mem_map (mm s) i \<noteq> 0"
  shows "\<exists>s'. release p s = Inr s' \<and> mem_map (mm s') = (mem_map (mm s))(i := mem_map (mm s) i - 1) \<and> tasks_ptr s' = (tasks_ptr s)(nr := 0)"
proof -
  have scan: "scan_up (\<lambda>k. tasks_ptr s k = p) 0 NUMBER_OF_TASKS = nr"
    by (rule scan_up_eqI) (use assms(1-3) in auto)
  let ?m = "(mm s)\<lparr>mem_map := (mem_map (mm s))(i := mem_map (mm s) i - 1)\<rparr>"
  have "free_page p (mm s) = Inr ?m" using assms(5-7) by (simp add: free_page_of_page)
  then have "release p s = Inr (schedule (s\<lparr>tasks_ptr := (tasks_ptr s)(nr := 0), mm := ?m\<rparr>))"
    using scan assms(1,4) by (simp add: release_def)
  moreover have "mm (schedule (s\<lparr>tasks_ptr := (tasks_ptr s)(nr := 0), mm := ?m\<rparr>)) = ?m"
    using kernel_more [OF schedule_frame(4)] by simp
  ultimately show ?thesis by simp
qed

text \<open>
  Task 1 cannot exit: the address space \<open>init_task1_paging\<close> gives it maps the low megabyte, and
  freeing it reaches the panic of \<open>free_page\<close> at the first entry.
\<close>

lemma task1_exit_panics:
  assumes paging: "init_task1_paging m0 = Inr (mm s)" and base: "get_segment_base (ldt (cur_task s) 1) = 0x4000000"
    and limit: "lsl_limit (ldt (cur_task s) 1) = 0xFF \<or> lsl_limit (ldt (cur_task s) 1) = 0xFFFFF"
  shows "do_exit code s = Inl (Panic ''free addr < 1MB'')"
proof -
  obtain i where "i < PAGING_PAGES" "pmem (mm s) 0 16 = page_addr i OR 7"
    "\<And>d. pmem (mm s) (page_frame i) d = (if unat d < 256 then (d * 0x1000) OR 7 else 0)"
    by (rule init_task1_paging_maps [OF paging]) blast
  then have i: "i < PAGING_PAGES" "pmem (mm s) 0 16 = page_addr i OR 7" "pmem (mm s) (page_frame i) 0 = 7" by simp_all
  have d: "dir_slot 0x4000000 + 0 < 1024" "dir_slot 0x4000000 = 16" by (simp_all add: dir_slot_def)
  have e: "rd32 (pmem (mm s)) (dir_addr 0x4000000) = page_addr i OR 7" using dir_access(1) [OF d(1)] i by (simp add: d(2))
  have "rd32 (pmem (mm s)) (page_addr i) = 7"
    using rd_table [OF page_addr_facts(1) [OF i(1)], of 0 "pmem (mm s)"] i by (simp add: page_addr_facts)
  then have "free_pt_entry (page_addr i) 0 (mm s) = Inl (Panic ''free addr < 1MB'')"
    by (simp add: free_pt_entry_def free_page_def LOW_MEM_def)
  moreover have "[0 ..< 1024] = 0 # [Suc 0 ..< 1024]" by (rule upt_conv_Cons) simp
  ultimately have "for_each (free_pt_entry (page_addr i)) [0 ..< 1024] (mm s) = Inl (Panic ''free addr < 1MB'')"
    by (simp only: for_each.simps rbind_simps)
  then have "free_dir_entry (dir_addr 0x4000000) 0 (mm s) = Inl (Panic ''free addr < 1MB'')"
    using e i(1) by (simp add: free_dir_entry_def not_present page_addr_facts del: upt_rec_numeral upt_Suc)
  then have "free_page_tables 0x4000000 (lsl_limit (ldt (cur_task s) 1)) (mm s) = Inl (Panic ''free addr < 1MB'')"
    using limit by (auto simp: free_page_tables_def nr_of_dir_ent_def)
  then show ?thesis unfolding do_exit_def base by simp
qed

lemma task1_life:
  assumes "copy_process r s = Inr (c, s1)" "c \<noteq> - EAGAIN" "empty_slot s = 1"
  shows "do_exit code (switch_to 1 s1) = Inl (Panic ''free addr < 1MB'')"
  using assms(1)
proof (cases rule: copy_process_cases)
  case (child q p m s3)
  from child(6) assms(3) obtain m2 where m2: "init_task1_paging m = Inr m2"
    "s3 = upd_task p set_limits_1MB ((upd_task p (set_bases (of_nat 1 * 0x4000000)) (child_entered r s q p m))\<lparr>mm := m2\<rparr>)"
    by (cases rule: copy_mem_cases) (simp_all)
  let ?s2 = "switch_to 1 s1"
  have cur: "current ?s2 = p" "mm ?s2 = m2" by (simp_all add: switch_to_def child m2(2) assms(3))
  obtain d where ldt: "ldt (cur_task ?s2) 1 = set_segment_limit (set_segment_base d (of_nat 1 * 0x4000000)) 0xFF"
    unfolding cur(1) by (simp add: switch_to_def child m2(2))
  show ?thesis
  proof (rule task1_exit_panics)
    show "init_task1_paging m = Inr (mm ?s2)" using m2(1) cur(2) by simp
    show "get_segment_base (ldt (cur_task ?s2) 1) = 0x4000000" unfolding ldt using task_base_read_back [of d 1] by simp
    have "limit_20bit 0xFF" by (simp add: limit_20bit_def)
    then have "limit_field (ldt (cur_task ?s2) 1) = 0xFF" unfolding ldt by (rule limit_set_limit_20bit)
    then show "lsl_limit (ldt (cur_task ?s2) 1) = 0xFF \<or> lsl_limit (ldt (cur_task ?s2) 1) = 0xFFFFF"
      by (simp add: lsl_limit_def)
  qed
qed (use assms(2) in simp_all)

lemma later_life:
  assumes run: "copy_process r s = Inr (c, s1)" and ok: "c \<noteq> - EAGAIN" and ready: "fork_ready s" "tasks_kept s" "same_limits s"
    and nr: "empty_slot s \<noteq> 1"
    and father: "\<exists>i < NUMBER_OF_TASKS. tasks_ptr s i \<noteq> 0 \<and> tasks_ptr s i = current s \<and> (i = 0 \<longrightarrow> pid (cur_task s) = 0)"
  shows "\<exists>p s3 s4. tasks_ptr s1 (empty_slot s) = p \<and> do_exit code (switch_to (empty_slot s) s1) = Inr (0, s3)
    \<and> release p s3 = Inr s4 \<and> mem_map (mm s4) = mem_map (mm s) \<and> tasks_ptr s4 = tasks_ptr s"
  using run
proof (cases rule: copy_process_cases)
  case (child q p m t3)
  let ?nr = "empty_slot s" and ?base = "slot_base (empty_slot s)" and ?lim = "user_limit s"
  let ?s2 = "switch_to ?nr s1"
  note cur = cur_task_child_entered [OF ready(1) child(2,3)] and slot = empty_slot_nonzero [OF child(1)]
  obtain i where i: "i < PAGING_PAGES" "p = page_addr i" "mem_map (mm s) i = 0" "mem_map m = (mem_map (mm s))(i := 1)"
    "copy_ready m (dir_slot (user_base s)) (dir_slot ?base) (nr_of_dir_ent ?lim)"
    using copy_ready_alloc [OF child(2,3)] ready(1) unfolding fork_ready_def by metis
  have fr: "tasks_ptr t3 = (tasks_ptr s)(?nr := p)" "last_pid t3 = q" using copy_mem_frame [OF child(6)] by simp_all
  from child(6) nr obtain m2 where cp: "copy_page_tables (user_base s) ?base ?lim m = Inr (0, m2)"
    "t3 = (upd_task p (set_bases (of_nat ?nr * 0x4000000)) (child_entered r s q p m))\<lparr>mm := m2\<rparr>"
    by (cases rule: copy_mem_cases) (auto simp: user_base_def user_limit_def slot_base_def cur(1) ENOMEM_def)
  let ?t = "tstore ?s2 p"
  have s2: "current ?s2 = p" "mm ?s2 = m2" "tasks_ptr ?s2 = (tasks_ptr s)(?nr := p)"
    "\<And>a. a \<noteq> p \<Longrightarrow> tstore ?s2 a = tstore s a"
    by (simp_all add: switch_to_def child cp(2) fr(1))
  have t: "pid ?t = q" "father ?t = pid (cur_task s)"
    "ldt ?t = (ldt (cur_task s))(1 := set_segment_base (ldt (cur_task s) 1) (of_nat ?nr * 0x4000000),
                                 2 := set_segment_base (ldt (cur_task s) 2) (of_nat ?nr * 0x4000000))"
    by (simp_all add: switch_to_def child cp(2) child_task_def Let_def)
  have seg: "get_segment_base (ldt ?t k) = ?base" "lsl_limit (ldt ?t k) = ?lim" if "k = 1 \<or> k = 2" for k
    using that ready(3)
    by (auto simp: t task_base_read_back slot_base_def lsl_limit_task_base user_limit_def same_limits_def)
  obtain m3 where m3: "free_page_tables ?base ?lim m2 = Inr m3" "mem_map m3 = mem_map m"
    using copied_range_given_back [OF cp(1) i(5)] slot_base_nonzero child(1) slot by auto
  note twice = free_page_tables_again [OF m3(1)]
  obtain j where j: "j < NUMBER_OF_TASKS" "tasks_ptr s j = current s" "current s \<noteq> 0" "j = 0 \<Longrightarrow> pid (cur_task s) = 0"
    using father by auto
  have used: "pid_used s (pid (cur_task s))"
    using j unfolding pid_used_def by (intro bexI [of _ j]) auto
  then have self: "father ?t \<noteq> pid ?t" using child(4) t by auto
  have jnr: "j \<noteq> ?nr" using j slot by auto
  have "find_pid_task (father ?t) ?s2 \<noteq> 0" if "j \<noteq> 0"
    using find_pid_task_found [of j ?s2] j jnr s2 cur(1) that by (auto simp: t(2))
  then have fa: "father (cur_task ?s2) = 0 \<or> find_pid_task (father (cur_task ?s2)) ?s2 \<noteq> 0" using j(4) by (auto simp: s2(1) t(2))
  have seg1: "free_page_tables (get_segment_base (ldt (cur_task ?s2) 1)) (lsl_limit (ldt (cur_task ?s2) 1)) (mm ?s2) = Inr m3"
    and seg2: "free_page_tables (get_segment_base (ldt (cur_task ?s2) 2)) (lsl_limit (ldt (cur_task ?s2) 2)) m3 = Inr m3"
    using m3(1) twice seg [of 1] seg [of 2] by (simp_all add: s2)
  have "father (cur_task ?s2) \<noteq> pid (cur_task ?s2)" using self by (simp add: s2(1))
  then obtain s3 where s3: "do_exit code ?s2 = Inr (0, s3)" "tasks_ptr s3 = tasks_ptr ?s2" "mm s3 = m3"
    by (rule exit_frees_memory [OF seg1 seg2 _ fa])
  have other: "tasks_ptr s k \<noteq> p" if "k < NUMBER_OF_TASKS" for k
  proof
    assume "tasks_ptr s k = p"
    then have "kept_frame (mm s) (frame_of p)" using that ready(2) child(3) by (auto simp: tasks_kept_def)
    then show False using i by (auto simp: kept_frame_def page_addr_facts)
  qed
  obtain s4 where s4: "release p s3 = Inr s4" "mem_map (mm s4) = (mem_map m3)(i := mem_map m3 i - 1)" "tasks_ptr s4 = (tasks_ptr s3)(?nr := 0)"
    using release_gives_back [of ?nr s3 p i] slot child(1,3) other i(1-4) m3(2) by (auto simp: s3 s2)
  have "mem_map (mm s4) = mem_map (mm s)" using s4(2) i m3(2) by (auto simp: fun_eq_iff)
  moreover have "tasks_ptr s4 = tasks_ptr s" using slot by (simp add: s4(3) s3 s2 fun_upd_idem)
  ultimately show ?thesis using s3(1) s4(1) by (simp add: child fr(1))
qed (use ok in simp_all)



lemma demo_tasks_kept: "tasks_kept demo_kernel"
  by (auto simp: tasks_kept_def intro!: low_frame_kept) (simp_all add: frame_of_def)

lemma demo_same_limits: "same_limits demo_kernel"
  by (simp add: same_limits_def demo_task1_def task0_init_def task0_ldt_def set_segment_limit_def set_segment_base_def Let_def
        lsl_limit_def limit_field_def)


text \<open>An exit of task 1's only child in the same kernel.\<close>

theorem exit_makes_zombie_witness:
  "\<exists>s'. do_exit 0x700 (demo_kernel\<lparr>mm := one_page_mapped\<rparr>) = Inr (0, s') \<and> state (tstore s' 0x20000) = TASK_ZOMBIE"
proof -
  let ?s = "demo_kernel\<lparr>mm := one_page_mapped\<rparr>"
  obtain m1 where "free_page_tables 0x4000000 0x1000 one_page_mapped = Inr m1" using one_page_mapped_freed by blast
  then have m1: "free_page_tables 0x4000000 0xFFFFF one_page_mapped = Inr m1"
    by (simp add: free_page_tables_def nr_of_dir_ent_def)
  have seg: "get_segment_base (ldt demo_task1 2) = 0x4000000" "lsl_limit (ldt demo_task1 2) = 0xFFFFF"
    "get_segment_base (ldt demo_task1 1) = 0x4000000" "lsl_limit (ldt demo_task1 1) = 0xFFFFF"
    using demo_user demo_same_limits by (simp_all add: user_base_def user_limit_def same_limits_def user_space_ok_def)
  have fa: "father demo_task1 = 0" "pid demo_task1 = 1" by (simp_all add: demo_task1_def)
  obtain s' where run: "do_exit 0x700 ?s = Inr (0, s')"
    using do_exit_with_father [of ?s m1 m1 "0x700"] m1 free_page_tables_again [OF m1] fa by (simp add: seg [simplified])
  from exit_makes_zombie [OF run] run show ?thesis by (simp add: fa)
qed

lemma task1_exit_panics_witness:
  "\<exists>m. init_task1_paging one_page_task = Inr m \<and> do_exit 0 (demo_kernel\<lparr>mm := m\<rparr>) = Inl (Panic ''free addr < 1MB'')"
proof -
  have "\<exists>m. init_task1_paging one_page_task = Inr m"
  proof (cases one_page_task rule: get_free_page_cases)
    case full
    from full(2) [of 0] show ?thesis by (simp add: one_page_task_def PAGING_PAGES_def)
  next
    case (page i)
    then show ?thesis by (simp add: init_task1_paging_def page_addr_facts)
  qed
  then obtain m where m: "init_task1_paging one_page_task = Inr m" by blast
  have seg: "get_segment_base (ldt demo_task1 1) = 0x4000000" "lsl_limit (ldt demo_task1 1) = 0xFFFFF"
    using demo_user demo_same_limits by (simp_all add: user_base_def user_limit_def same_limits_def user_space_ok_def)
  from task1_exit_panics [of one_page_task "demo_kernel\<lparr>mm := m\<rparr>" 0] m show ?thesis by (simp add: seg [simplified])
qed

end
