(* ===== verification/Signals.thy ===== *)
theory Signals
  imports Exit "HOL-Library.Signed_Division"
begin

text \<open>
  Signals, kernel/signal.c: the alarm clock, the signal mask, the setting of handlers, and \<open>do_signal\<close>, which
  runs before a system call returns to user mode and builds the handler's frame on the user stack.
\<close>

section \<open>User memory\<close>

text \<open>The bytes the segment register \<open>fs\<close> reaches (include/asm/segment.h), little-endian.\<close>

type_synonym user_mem = "u32 \<Rightarrow> u8"

definition read_fs_dword :: "user_mem \<Rightarrow> u32 \<Rightarrow> u32" where
  "read_fs_dword m a = ucast (m a) OR push_bit 8 (ucast (m (a + 1))) OR push_bit 16 (ucast (m (a + 2)))
     OR push_bit 24 (ucast (m (a + 3)))"

definition write_fs_dword :: "u32 \<Rightarrow> u32 \<Rightarrow> user_mem \<Rightarrow> user_mem" where
  "write_fs_dword v a m = m(a := ucast v, a + 1 := ucast (drop_bit 8 v), a + 2 := ucast (drop_bit 16 v),
     a + 3 := ucast (drop_bit 24 v))"

lemma dword_of_bytes:
  "ucast (ucast v :: u8) OR push_bit 8 (ucast (ucast (drop_bit 8 v) :: u8)) OR push_bit 16 (ucast (ucast (drop_bit 16 v) :: u8))
     OR push_bit 24 (ucast (ucast (drop_bit 24 v) :: u8)) = (v :: u32)"
  by (simp add: word32_eq_bits bit_or_iff bit_push_bit_iff bit_ucast_iff bit_drop_bit_eq)

lemma read_write_fs_dword: "read_fs_dword (write_fs_dword v a m) a = v"
proof -
  have "a + 1 \<noteq> a" "a + 2 \<noteq> a" "a + 3 \<noteq> a" "a + 2 \<noteq> a + 1" "a + 3 \<noteq> a + 1" "a + 3 \<noteq> a + 2" by simp_all
  then have "write_fs_dword v a m a = ucast v" "write_fs_dword v a m (a + 1) = ucast (drop_bit 8 v)"
    "write_fs_dword v a m (a + 2) = ucast (drop_bit 16 v)" "write_fs_dword v a m (a + 3) = ucast (drop_bit 24 v)"
    unfolding write_fs_dword_def by simp_all
  then show ?thesis unfolding read_fs_dword_def by (simp only: dword_of_bytes)
qed

lemma read_write_fs_other:
  "\<lbrakk>b \<notin> {a, a + 1, a + 2, a + 3}; b + 1 \<notin> {a, a + 1, a + 2, a + 3}; b + 2 \<notin> {a, a + 1, a + 2, a + 3};
    b + 3 \<notin> {a, a + 1, a + 2, a + 3}\<rbrakk> \<Longrightarrow> read_fs_dword (write_fs_dword v a m) b = read_fs_dword m b"
  by (simp add: read_fs_dword_def write_fs_dword_def)

section \<open>The alarm clock and the mask\<close>

definition NUM_INT_PS :: u32 where "NUM_INT_PS = 100"

definition sys_alarm :: "u32 \<Rightarrow> 'a sched_state_scheme \<Rightarrow> i32 \<times> 'a sched_state_scheme" where
  "sys_alarm seconds s =
     (let old = alarm (cur_task s);
          old1 = (if old \<noteq> 0 then word_of_int (sint (old - jiffies s) sdiv sint NUM_INT_PS) else old)
      in (old1, upd_task (current s) (\<lambda>t. t\<lparr>alarm := (if seconds > 0 then jiffies s + NUM_INT_PS * seconds else 0)\<rparr>) s))"

definition sys_sgetmask :: "'a sched_state_scheme \<Rightarrow> i32" where
  "sys_sgetmask s = blocked (cur_task s)"

definition sys_ssetmask :: "i32 \<Rightarrow> 'a sched_state_scheme \<Rightarrow> i32 \<times> 'a sched_state_scheme" where
  "sys_ssetmask newmask s =
     (blocked (cur_task s), upd_task (current s) (\<lambda>t. t\<lparr>blocked := newmask AND NOT (sigbit SIGKILL)\<rparr>) s)"

section \<open>Handlers\<close>

definition sys_signal :: "u32 \<Rightarrow> u32 \<Rightarrow> u32 \<Rightarrow> 'a sched_state_scheme \<Rightarrow> i32 \<times> 'a sched_state_scheme" where
  "sys_signal signum handler restorer s =
     (if signum < 1 \<or> signum > 32 \<or> signum = of_nat SIGKILL then (- 1, s)
      else (let tmp = \<lparr>sa_handler = handler, sa_mask = 0, sa_flags = SA_ONESHOT OR SA_NOMASK, sa_restorer = restorer\<rparr>;
                s1 = upd_task (current s) (\<lambda>t. t\<lparr>sa := (sa t)(unat signum - 1 := tmp)\<rparr>) s
            in (sa_handler (sa (cur_task s1) (unat signum - 1)), s1)))"

text \<open>A \<open>struct sigaction\<close> in user memory: four double words in the order of its fields.\<close>

definition read_sigaction :: "user_mem \<Rightarrow> u32 \<Rightarrow> sigaction" where
  "read_sigaction m a = \<lparr>sa_handler = read_fs_dword m a, sa_mask = read_fs_dword m (a + 4),
     sa_flags = read_fs_dword m (a + 8), sa_restorer = read_fs_dword m (a + 12)\<rparr>"

definition write_sigaction :: "sigaction \<Rightarrow> u32 \<Rightarrow> user_mem \<Rightarrow> user_mem" where
  "write_sigaction x a m = write_fs_dword (sa_restorer x) (a + 12) (write_fs_dword (sa_flags x) (a + 8)
     (write_fs_dword (sa_mask x) (a + 4) (write_fs_dword (sa_handler x) a m)))"

definition sys_sigaction ::
  "u32 \<Rightarrow> u32 \<Rightarrow> u32 \<Rightarrow> user_mem \<Rightarrow> 'a sched_state_scheme \<Rightarrow> i32 \<times> user_mem \<times> 'a sched_state_scheme" where
  "sys_sigaction signum action oldaction m s =
     (if signum < 1 \<or> signum > 32 \<or> signum = of_nat SIGKILL then (- 1, m, s)
      else (let i = unat signum - 1;
                tmp = sa (cur_task s) i;
                new = read_sigaction m action;
                m1 = (if oldaction \<noteq> 0 then write_sigaction tmp oldaction m else m);
                new1 = new\<lparr>sa_mask := (if sa_flags new AND SA_NOMASK \<noteq> 0 then 0 else sa_mask new OR push_bit i 1)\<rparr>
            in (0, m1, upd_task (current s) (\<lambda>t. t\<lparr>sa := (sa t)(i := new1)\<rparr>) s)))"

section \<open>do_signal\<close>

text \<open>The saved registers \<open>do_signal\<close> reads or changes; the others pass through.\<close>

record sig_regs =
  g_eax :: u32
  g_ecx :: u32
  g_edx :: u32
  g_eip :: u32
  g_cs :: u32
  g_eflags :: u32
  g_esp :: u32

text \<open>\<open>bsfl\<close>: the index of the lowest bit that is set; \<open>None\<close> is the \<open>-1\<close> loaded when there is none.\<close>

definition bsf :: "u32 \<Rightarrow> nat option" where
  "bsf w = (let i = scan_up (bit w) 0 32 in if i < 32 then Some i else None)"

definition deliver_signal :: "nat \<Rightarrow> sig_regs \<Rightarrow> user_mem \<Rightarrow> 'a sched_state_scheme \<Rightarrow> sig_regs \<times> user_mem \<times> 'a sched_state_scheme" where
  "deliver_signal i r m s =
     (let act = sa (cur_task s) i; esp = g_esp r; sig_number = (of_nat (i + 1) :: u32);
          m5 = write_fs_dword (g_eax r) (esp - 20) (write_fs_dword (g_ecx r) (esp - 16) (write_fs_dword (g_edx r) (esp - 12)
                 (write_fs_dword (g_eflags r) (esp - 8) (write_fs_dword (g_eip r) (esp - 4) m))));
          (m6, esp6) = (if sa_flags act AND SA_NOMASK \<noteq> 0
             then (write_fs_dword (sa_restorer act) (esp - 28) (write_fs_dword sig_number (esp - 24) m5), esp - 28)
             else (write_fs_dword (sa_restorer act) (esp - 32) (write_fs_dword sig_number (esp - 28)
                     (write_fs_dword (blocked (cur_task s)) (esp - 24) m5)), esp - 32))
      in (r\<lparr>g_eip := sa_handler act, g_esp := esp6\<rparr>, m6,
          upd_task (current s) (\<lambda>t. t\<lparr>blocked := blocked t OR sa_mask act,
             sa := (if sa_flags act AND SA_ONESHOT \<noteq> 0 then (sa t)(i := act\<lparr>sa_handler := SIG_DFL\<rparr>) else sa t)\<rparr>) s))"

text \<open>
  A shift of the processor takes the count modulo 32. After \<open>do_exit\<close> the code goes on below only if the processor was not given to another task; otherwise
  the task, a zombie, is never resumed.
\<close>

definition do_signal :: "sig_regs \<Rightarrow> user_mem \<Rightarrow> kernel \<Rightarrow> (sig_regs \<times> user_mem \<times> kernel) kresult" where
  "do_signal r m s =
     (if current s = tasks_ptr s 0 then Inr (r, m, s)
      else if g_cs r AND 3 = 0 then Inr (r, m, s)
      else (case bsf (signal (cur_task s) AND blocked (cur_task s)) of
              None \<Rightarrow> Inr (r, m, s)
            | Some i \<Rightarrow>
                (let s1 = upd_task (current s) (\<lambda>t. t\<lparr>signal := signal t AND NOT (push_bit i 1)\<rparr>) s;
                     handler = sa_handler (sa (cur_task s1) i)
                 in if handler = SIG_IGN then Inr (r, m, s1)
                    else if handler = SIG_DFL
                    then (if i + 1 = SIGCHLD then Inr (r, m, s1)
                          else rbind (do_exit (push_bit ((i + 1) mod 32) 1) s1)
                            (\<lambda>(_, s2). if current s2 \<noteq> current s1 then Inr (r, m, s2)
                                       else Inr (deliver_signal i r m s2)))
                    else Inr (deliver_signal i r m s1))))"

section \<open>What the user finds on the stack\<close>

lemma bsf_None: "bsf w = None \<longleftrightarrow> w = 0"
proof -
  have "bsf w = None \<longleftrightarrow> (\<forall>k. 0 \<le> k \<and> k < 32 \<longrightarrow> \<not> bit w k)"
    using scan_up_lt_iff [of 0 32 "bit w"] by (auto simp: bsf_def Let_def)
  also have "\<dots> \<longleftrightarrow> w = 0" by (auto simp: bit_eq_iff intro: bit_word_eqI dest: bit_imp_le_length)
  finally show ?thesis .
qed

lemma bsf_Some: "bsf w = Some i \<Longrightarrow> i < 32 \<and> bit w i \<and> (\<forall>k < i. \<not> bit w k)"
  using scan_up_hit [of "bit w" 0 32] scan_up_before [of 0 _ "bit w" 32] by (auto simp: bsf_def Let_def split: if_splits)

text \<open>Offsets, counted in double words.\<close>

definition down :: "u32 \<Rightarrow> nat \<Rightarrow> u32" where "down e k = e - of_nat (4 * k)"

lemma down_bytes_apart:
  assumes "j < 100" "k < 100" "j \<noteq> k" "x < 4" "y < 4"
  shows "down e j + of_nat x \<noteq> down e k + of_nat y"
proof
  assume "down e j + of_nat x = down e k + of_nat y"
  then have "of_nat (4 * k + x) = (of_nat (4 * j + y) :: u32)" by (simp add: down_def algebra_simps)
  then have "unat (of_nat (4 * k + x) :: u32) = unat (of_nat (4 * j + y) :: u32)" by simp
  moreover have "unat (of_nat (4 * k + x) :: u32) = 4 * k + x" "unat (of_nat (4 * j + y) :: u32) = 4 * j + y"
    by (rule unat_of_nat_small, use assms in linarith)+
  ultimately have "4 * k + x = 4 * j + y" by metis
  then have "(4 * k + x) div 4 = (4 * j + y) div 4" by simp
  with assms show False by simp
qed

lemma read_write_down:
  assumes "j < 100" "k < 100"
  shows "read_fs_dword (write_fs_dword v (down e j) m) (down e k) = (if j = k then v else read_fs_dword m (down e k))"
proof (cases "j = k")
  case False
  note apart = down_bytes_apart [OF assms False]
  have "down e k + of_nat y \<noteq> down e j + of_nat x" if "x < 4" "y < 4" for x y
    using apart [OF that] by metis
  from this [of 0 0] this [of 1 0] this [of 2 0] this [of 3 0] this [of 0 1] this [of 1 1] this [of 2 1] this [of 3 1]
    this [of 0 2] this [of 1 2] this [of 2 2] this [of 3 2] this [of 0 3] this [of 1 3] this [of 2 3] this [of 3 3]
  have "read_fs_dword (write_fs_dword v (down e j) m) (down e k) = read_fs_dword m (down e k)"
    by (intro read_write_fs_other) simp_all
  with False show ?thesis by simp
qed (simp add: read_write_fs_dword)

lemma downs: "e - 4 = down e 1" "e - 8 = down e 2" "e - 12 = down e 3" "e - 16 = down e 4" "e - 20 = down e 5"
  "e - 24 = down e 6" "e - 28 = down e 7" "e - 32 = down e 8"
  by (simp_all add: down_def)

text \<open>
  C20. A handler is entered with a frame its restorer can undo: \<open>do_signal\<close> continues at the handler with, from the new
  stack pointer up, the restorer's address, the signal number, the old mask unless SA_NOMASK is set, then eax, ecx,
  edx, the flags and the interrupted address, up to the old stack pointer. The signal delivered is the
  lowest one of those pending and blocked; it is no longer pending, the handler's mask is blocked, and a
  one-shot handler is reset.
\<close>

theorem handler_frame:
  assumes "current s \<noteq> tasks_ptr s 0" "g_cs r AND 3 \<noteq> 0" "bsf (signal (cur_task s) AND blocked (cur_task s)) = Some i"
    "sa_handler (sa (cur_task s) i) \<noteq> SIG_DFL" "sa_handler (sa (cur_task s) i) \<noteq> SIG_IGN"
  shows "\<exists>r' m' s'. do_signal r m s = Inr (r', m', s') \<and> g_eip r' = sa_handler (sa (cur_task s) i)
    \<and> (let act = sa (cur_task s) i; k = (if sa_flags act AND SA_NOMASK \<noteq> 0 then 7 else 8)
       in g_esp r' = down (g_esp r) k
          \<and> map (\<lambda>j. read_fs_dword m' (down (g_esp r) (Suc j))) (rev [0 ..< k]) =
              [sa_restorer act, of_nat (i + 1)] @ (if k = 8 then [blocked (cur_task s)] else []) @
              [g_eax r, g_ecx r, g_edx r, g_eflags r, g_eip r]
          \<and> signal (cur_task s') = signal (cur_task s) AND NOT (push_bit i 1)
          \<and> blocked (cur_task s') = blocked (cur_task s) OR sa_mask act
          \<and> sa_handler (sa (cur_task s') i) = (if sa_flags act AND SA_ONESHOT \<noteq> 0 then SIG_DFL else sa_handler act))"
proof -
  let ?act = "sa (cur_task s) i" and ?k = "if sa_flags (sa (cur_task s) i) AND SA_NOMASK \<noteq> 0 then 7 else 8 :: nat"
  let ?s1 = "upd_task (current s) (\<lambda>t. t\<lparr>signal := signal t AND NOT (push_bit i 1)\<rparr>) s"
  obtain r' m' s' where d: "deliver_signal i r m ?s1 = (r', m', s')" by (rule prod_cases3)
  then have run: "do_signal r m s = Inr (r', m', s')" using assms by (simp add: do_signal_def)
  have ups: "rev [0 ..< 7] = [6, 5, 4, 3, 2, 1, 0 :: nat]" "rev [0 ..< 8] = [7, 6, 5, 4, 3, 2, 1, 0 :: nat]"
    by (simp_all add: upt_rec)
  have frame: "g_eip r' = sa_handler ?act \<and> g_esp r' = down (g_esp r) ?k \<and>
      map (\<lambda>j. read_fs_dword m' (down (g_esp r) (Suc j))) (rev [0 ..< ?k]) =
              [sa_restorer ?act, of_nat (i + 1)] @ (if ?k = 8 then [blocked (cur_task s)] else []) @
              [g_eax r, g_ecx r, g_edx r, g_eflags r, g_eip r]"
  proof (cases "sa_flags ?act AND SA_NOMASK \<noteq> 0")
    case True
    with d show ?thesis by (auto simp: deliver_signal_def Let_def downs read_write_down ups simp del: upt_rec_numeral)
  next
    case False
    with d show ?thesis by (auto simp: deliver_signal_def Let_def downs read_write_down ups simp del: upt_rec_numeral)
  qed
  have "signal (cur_task s') = signal (cur_task s) AND NOT (push_bit i 1)" "blocked (cur_task s') = blocked (cur_task s) OR sa_mask ?act"
    "sa_handler (sa (cur_task s') i) = (if sa_flags ?act AND SA_ONESHOT \<noteq> 0 then SIG_DFL else sa_handler ?act)"
    using d by (auto simp: deliver_signal_def Let_def split: if_splits)
  with frame run show ?thesis by (simp add: Let_def)
qed

text \<open>
  Pending signals that are not blocked are never delivered: if none of the pending signals is in the blocked mask,
  \<open>do_signal\<close> does nothing at all. The mask selects what is delivered instead of what is held back.
\<close>

lemma unblocked_signals_ignored:
  assumes "signal (cur_task s) AND blocked (cur_task s) = 0"
  shows "do_signal r m s = Inr (r, m, s)"
  using assms bsf_None [of 0] by (simp add: do_signal_def)


text \<open>A task with a handler for signal 2, in the two task kernel.\<close>

definition signalled :: "u32 \<Rightarrow> u32 \<Rightarrow> kernel" where
  "signalled pending msk = upd_task 0x20000 (\<lambda>t. t\<lparr>signal := pending, blocked := msk,
     sa := (\<lambda>_. \<lparr>sa_handler = 0x5000, sa_mask = 0, sa_flags = SA_NOMASK, sa_restorer = 0x6000\<rparr>)\<rparr>) demo_kernel"

lemma bsf_bit: "n < 32 \<Longrightarrow> bsf (push_bit n 1) = Some n"
proof -
  assume "n < 32"
  then have "scan_up (bit (push_bit n 1 :: u32)) 0 32 = n" by (intro scan_up_eqI) (auto simp: bit_simps)
  with \<open>n < 32\<close> show ?thesis by (simp add: bsf_def)
qed

theorem handler_frame_witness:
  "\<exists>r' m' s'. do_signal \<lparr>g_eax = 1, g_ecx = 2, g_edx = 3, g_eip = 0x1000, g_cs = 0xF, g_eflags = 0x202, g_esp = 0x9000\<rparr>
       (\<lambda>_. 0) (signalled 2 2) = Inr (r', m', s') \<and> g_eip r' = 0x5000 \<and> g_esp r' = down 0x9000 7"
proof -
  have "bsf (signal (cur_task (signalled 2 2)) AND blocked (cur_task (signalled 2 2))) = Some 1"
    using bsf_bit [of 1] by (simp add: signalled_def push_bit_eq_mult)
  from handler_frame [OF _ _ this, of "\<lparr>g_eax = 1, g_ecx = 2, g_edx = 3, g_eip = 0x1000, g_cs = 0xF, g_eflags = 0x202, g_esp = 0x9000\<rparr>" "\<lambda>_. 0"]
  show ?thesis by (auto simp: signalled_def SIG_DFL_def SIG_IGN_def SA_NOMASK_def Let_def)
qed

lemma unblocked_signals_ignored_witness:
  "do_signal \<lparr>g_eax = 1, g_ecx = 2, g_edx = 3, g_eip = 0x1000, g_cs = 0xF, g_eflags = 0x202, g_esp = 0x9000\<rparr> (\<lambda>_. 0) (signalled (sigbit SIGKILL) 0) =
     Inr (\<lparr>g_eax = 1, g_ecx = 2, g_edx = 3, g_eip = 0x1000, g_cs = 0xF, g_eflags = 0x202, g_esp = 0x9000\<rparr>, \<lambda>_. 0, signalled (sigbit SIGKILL) 0)"
  by (rule unblocked_signals_ignored) (simp add: signalled_def)

section \<open>Setting handlers and alarms\<close>

definition up :: "u32 \<Rightarrow> nat \<Rightarrow> u32" where "up a k = a + of_nat (4 * k)"

lemma read_write_up:
  assumes "j < 50" "k < 50"
  shows "read_fs_dword (write_fs_dword v (up a j) m) (up a k) = (if j = k then v else read_fs_dword m (up a k))"
proof -
  define e where "e = up a 50"
  have up: "up a x = down e (50 - x)" if "x < 50" for x
  proof -
    have "4 * (50 - x) = 200 - 4 * x" by simp
    then have "(of_nat (4 * (50 - x)) :: u32) = of_nat (200 - 4 * x)" by (simp only:)
    also have "\<dots> = of_nat 200 - of_nat (4 * x)" by (rule of_nat_diff) (use that in simp)
    finally show ?thesis by (simp only: up_def down_def e_def) simp
  qed
  show ?thesis unfolding up [OF assms(1)] up [OF assms(2)] using assms by (subst read_write_down) auto
qed

lemma read_write_sigaction: "read_sigaction (write_sigaction x a m) a = x"
proof -
  have "read_fs_dword (write_sigaction x a m) (up a 0) = sa_handler x" "read_fs_dword (write_sigaction x a m) (up a 1) = sa_mask x"
    "read_fs_dword (write_sigaction x a m) (up a 2) = sa_flags x" "read_fs_dword (write_sigaction x a m) (up a 3) = sa_restorer x"
  proof -
    have w: "write_sigaction x a m = write_fs_dword (sa_restorer x) (up a 3) (write_fs_dword (sa_flags x) (up a 2)
        (write_fs_dword (sa_mask x) (up a 1) (write_fs_dword (sa_handler x) (up a 0) m)))"
      by (simp add: write_sigaction_def up_def)
    show "read_fs_dword (write_sigaction x a m) (up a 0) = sa_handler x" "read_fs_dword (write_sigaction x a m) (up a 1) = sa_mask x"
      "read_fs_dword (write_sigaction x a m) (up a 2) = sa_flags x" "read_fs_dword (write_sigaction x a m) (up a 3) = sa_restorer x"
      unfolding w by (simp_all add: read_write_up)
  qed
  then show ?thesis by (simp add: read_sigaction_def up_def)
qed

text \<open>
  \<open>sys_sigaction\<close> on a signal that can be caught: the caller finds the action that was installed before, as it was, at
  the old-action address, and the action it passed is installed, with the signal itself added to the mask (or an
  empty mask under SA_NOMASK). The signals outside 1..32 and SIGKILL are refused and change nothing.
\<close>

lemma sigaction_exchanges:
  "if 1 \<le> signum \<and> signum \<le> 32 \<and> signum \<noteq> 9
   then \<exists>m' s'. sys_sigaction signum action oldaction m s = (0, m', s')
      \<and> (if oldaction = 0 then m' = m else read_sigaction m' oldaction = sa (cur_task s) (unat signum - 1))
      \<and> (let new = sa (cur_task s') (unat signum - 1) in
           sa_handler new = read_fs_dword m action \<and> sa_flags new = read_fs_dword m (action + 8)
           \<and> sa_restorer new = read_fs_dword m (action + 12)
           \<and> sa_mask new = (if read_fs_dword m (action + 8) AND SA_NOMASK \<noteq> 0 then 0
                            else read_fs_dword m (action + 4) OR push_bit (unat signum - 1) 1))
      \<and> (\<forall>k. k \<noteq> unat signum - 1 \<longrightarrow> sa (cur_task s') k = sa (cur_task s) k)
   else sys_sigaction signum action oldaction m s = (- 1, m, s)"
proof (cases "1 \<le> signum \<and> signum \<le> 32 \<and> signum \<noteq> 9")
  case True
  then have "\<not> signum < 1" "\<not> 32 < signum" "signum \<noteq> of_nat SIGKILL" by (auto simp: SIGKILL_def)
  with True show ?thesis
    by (simp add: sys_sigaction_def Let_def read_write_sigaction) (simp add: read_sigaction_def)
next
  case False
  moreover have "1 \<le> signum" if "\<not> signum < 1" using that by (simp only: linorder_not_less)
  ultimately have "signum < 1 \<or> 32 < signum \<or> signum = of_nat SIGKILL" by (auto simp: SIGKILL_def linorder_not_le)
  with False show ?thesis unfolding if_not_P [OF False] by (simp add: sys_sigaction_def)
qed

lemma sigaction_exchanges_witness:
  "fst (sys_sigaction 2 0x100 0x200 (\<lambda>_. 0) demo_kernel) = 0"
proof -
  have "(1 :: u32) \<le> 2 \<and> (2 :: u32) \<le> 32 \<and> (2 :: u32) \<noteq> 9" by simp
  with sigaction_exchanges [of 2 "0x100" "0x200" "\<lambda>_. 0" demo_kernel] show ?thesis by auto
qed

lemma sint_small_unat: "0 \<le> sint (w :: u32) \<Longrightarrow> int (unat w) = sint w"
proof -
  assume "0 \<le> sint w"
  obtain n where n: "unat w = n" "n < 4294967296" using unat_u32_lt [of w] by simp
  show ?thesis using \<open>0 \<le> sint w\<close> unfolding sint_unat_u32 n(1) using n(2) by (auto split: if_splits)
qed

lemma sint_of_int_small: "0 \<le> x \<Longrightarrow> x < 2147483648 \<Longrightarrow> sint (word_of_int x :: u32) = x"
proof -
  assume x: "0 \<le> x" "x < 2147483648"
  then obtain n where n: "x = int n" using nonneg_int_cases by blast
  then have "unat (word_of_int x :: u32) = n" using unat_of_nat_small [of n] x by simp
  then show ?thesis using x n by (simp add: sint_unat_u32)
qed

lemma sdiv_100: "0 \<le> x \<Longrightarrow> x sdiv 100 = x div (100 :: int)"
  by (cases "x = 0") (simp_all add: signed_divide_int_def sgn_if)

lemma sint_diff_small:
  assumes "0 \<le> sint t" "sint t \<le> sint (a :: u32)"
  shows "sint (a - t) = sint a - sint t"
proof -
  have "a - t = word_of_int (sint a - sint t)" by simp
  moreover have "sint a < 2147483648"
  proof -
    obtain n where n: "unat a = n" "n < 4294967296" using unat_u32_lt [of a] by simp
    show ?thesis unfolding sint_unat_u32 n(1) using n(2) by simp
  qed
  moreover from this have "sint (word_of_int (sint a - sint t) :: u32) = sint a - sint t"
    using assms by (intro sint_of_int_small) linarith+
  ultimately show ?thesis by metis
qed

lemma schedule_alarm:
  assumes "a \<in> table_tasks s"
  shows "alarm (tstore (schedule s) a) = alarm (wake_task (jiffies s) (tstore s a))"
    "signal (tstore (schedule s) a) = signal (wake_task (jiffies s) (tstore s a))"
    "state (tstore (schedule s) a) = state (wake_task (jiffies s) (tstore s a))"
  using assms by (auto simp: schedule_eq woken_def refilled_def refill_task_def Let_def split: option.splits)

text \<open>
  C37. An alarm of \<open>n\<close> seconds, set by the current task \<open>a\<close> at the time \<open>j\<close> (with no overflow of the clock). As long as it is set, a
  \<open>schedule\<close> up to the time \<open>j + 100 n\<close> leaves it set and the signals of \<open>a\<close> as they are; a \<open>schedule\<close> at
  a later time, hence the first such, clears it, sends \<open>SIGALRM\<close> to \<open>a\<close>, and makes \<open>a\<close> runnable if it was in an interruptible sleep and does not
  block the signal. When \<open>a\<close> calls \<open>sys_alarm\<close> again up to that time, it gets the whole seconds that are left.
\<close>

theorem alarm_rings_on_time:
  assumes set: "sys_alarm n s = (old, s1)" and n: "0 < n" and j: "0 \<le> sint (jiffies s)"
    and fits: "sint (jiffies s) + 100 * int (unat n) < 2147483648"
    and t: "0 \<le> sint (jiffies s2)" and a: "a = current s" "a \<in> table_tasks s2" and still: "alarm (tstore s2 a) = alarm (tstore s1 a)"
  shows "if sint (jiffies s) + 100 * int (unat n) < sint (jiffies s2)
    then alarm (tstore (schedule s2) a) = 0 \<and> bit (signal (tstore (schedule s2) a)) 13 \<and>
      (state (tstore s2 a) = TASK_INTERRUPTIBLE \<and> \<not> bit (blocked (tstore s2 a)) 13 \<longrightarrow> state (tstore (schedule s2) a) = TASK_RUNNING)
    else alarm (tstore (schedule s2) a) = alarm (tstore s2 a) \<and> signal (tstore (schedule s2) a) = signal (tstore s2 a) \<and>
      (current s2 = a \<longrightarrow>
         sint (fst (sys_alarm k s2)) = (sint (jiffies s) + 100 * int (unat n) - sint (jiffies s2)) div 100)"
proof -
  let ?A = "jiffies s + NUM_INT_PS * n" and ?t = "jiffies s2"
  have al: "alarm (tstore s2 a) = ?A"
    using set n still by (auto simp: a(1) sys_alarm_def Let_def word_gt_0 split: if_splits)
  have uj: "int (unat (jiffies s)) = sint (jiffies s)" using sint_small_unat [of "jiffies s"] j by simp
  have "unat ?A = unat (jiffies s) + 100 * unat n"
  proof -
    have lt: "unat (jiffies s) + 100 * unat n < 4294967296" using fits uj by linarith
    have "?A = of_nat (unat (jiffies s) + 100 * unat n)" by (simp add: NUM_INT_PS_def)
    then show ?thesis using unat_of_nat_small [OF lt] by simp
  qed
  moreover from this have "unat ?A < 2147483648" using fits uj by linarith
  then have "sint ?A = int (unat ?A)" unfolding sint_unat_u32 by simp
  ultimately have A: "sint ?A = sint (jiffies s) + 100 * int (unat n)" using uj by linarith
  have "unat n \<noteq> 0" using n by (simp add: word_gt_0 unat_eq_zero)
  then have "sint ?A \<noteq> 0" using A j by linarith
  then have nz: "?A \<noteq> 0" by (metis sint_0)
  have ring: "?A <s ?t \<longleftrightarrow> sint (jiffies s) + 100 * int (unat n) < sint ?t" by (simp add: word_sless_alt A)
  have left: "sint (fst (sys_alarm k s2)) = (sint ?A - sint ?t) div 100" if "sint ?t \<le> sint ?A" "current s2 = a"
  proof -
    have "sint (?A - ?t) = sint ?A - sint ?t" using sint_diff_small [of ?t ?A] that t by simp
    then have "fst (sys_alarm k s2) = word_of_int ((sint ?A - sint ?t) div 100)"
      using al nz sdiv_100 [of "sint ?A - sint ?t"] that by (simp add: sys_alarm_def Let_def NUM_INT_PS_def)
    moreover have "0 \<le> (sint ?A - sint ?t) div 100" "(sint ?A - sint ?t) div 100 < 2147483648"
      using that t A fits by linarith+
    ultimately show ?thesis by (simp add: sint_of_int_small)
  qed
  have "state (wake_task ?t (tstore s2 a)) = TASK_RUNNING"
    if "?A <s ?t" "state (tstore s2 a) = TASK_INTERRUPTIBLE" "\<not> bit (blocked (tstore s2 a)) 13"
  proof -
    have "bit ((signal (tstore s2 a) OR sigbit SIGALRM) AND NOT (blocked (tstore s2 a) AND SIG_BLOCKABLE)) 13"
      using that(3) by (simp add: bit_simps sigbit_def SIGALRM_def)
    then have "(signal (tstore s2 a) OR sigbit SIGALRM) AND NOT (blocked (tstore s2 a) AND SIG_BLOCKABLE) \<noteq> 0" by (metis bit_0_eq bot_apply bot_bool_def)
    then show ?thesis using that al nz by (simp add: wake_task_def Let_def)
  qed
  then show ?thesis using al nz ring left A
    by (auto simp: schedule_alarm [OF a(2)] wake_task_def Let_def bit_or_iff sigbit_def SIGALRM_def bit_simps)
qed

theorem alarm_rings_on_time_witness:
  "\<exists>old s1. sys_alarm 3 (two_tasks 5 5) = (old, s1) \<and> bit (signal (tstore (schedule (s1\<lparr>jiffies := 400\<rparr>)) (current s1))) 13"
proof -
  obtain old s1 where run: "sys_alarm 3 (two_tasks 5 5) = (old, s1)" by fastforce
  then have s1: "current s1 = current (two_tasks 5 5)" "tasks_ptr s1 = tasks_ptr (two_tasks 5 5)"
    by (auto simp: sys_alarm_def Let_def split: if_splits)
  have "current s1 \<in> table_tasks (s1\<lparr>jiffies := 400\<rparr>)" 
    unfolding table_tasks_def by (rule CollectI, rule exI [of _ 1]) (simp add: s1 two_tasks_def NUMBER_OF_TASKS_def Let_def)
  then show ?thesis using alarm_rings_on_time [OF run, of "s1\<lparr>jiffies := 400\<rparr>" "current s1"] run s1 by simp
qed

end
