(* ===== verification/C_String.thy ===== *)
theory C_String
  imports Kernel_Base
begin

text \<open>
  The string library of lib/string.c, which is written in assembly: every routine is translated
  instruction by instruction on the bytes of memory, with the string instructions of the processor
  (\<open>lodsb\<close>, \<open>stosb\<close>, \<open>scasb\<close>, \<open>cmpsb\<close>, \<open>movsb\<close> and their repeated forms) as functions below. A loop
  that ends only at a terminating zero is a partial function into \<open>option\<close>, so that running for
  ever is the value \<open>None\<close>.
\<close>

section \<open>Memory and the repeated string instructions\<close>

type_synonym bytes = "u32 \<Rightarrow> u8"

text \<open>
  \<open>repne scasb\<close>: compare \<open>al\<close> with the byte at \<open>edi\<close>, at most \<open>ecx\<close> times, up to a match. With
  \<open>ecx = 0\<close> nothing is compared and the zero flag \<open>zf\<close> stays as it was.
\<close>

function repne_scasb :: "bytes \<Rightarrow> u8 \<Rightarrow> u32 \<Rightarrow> u32 \<Rightarrow> bool \<Rightarrow> u32 \<times> u32 \<times> bool" where
  "repne_scasb m al edi ecx zf =
     (if ecx = 0 then (edi, ecx, zf)
      else if m edi = al then (edi + 1, ecx - 1, True)
      else repne_scasb m al (edi + 1) (ecx - 1) False)"
  by pat_completeness auto

text \<open>
  \<open>repe cmpsb\<close>: compare the bytes at \<open>esi\<close> and \<open>edi\<close>, at most \<open>ecx\<close> times, up to a difference. The
  flags are the zero flag and "less" (signed) of the last comparison.
\<close>

function repe_cmpsb :: "bytes \<Rightarrow> u32 \<Rightarrow> u32 \<Rightarrow> u32 \<Rightarrow> bool \<times> bool \<Rightarrow> u32 \<times> (bool \<times> bool)" where
  "repe_cmpsb m esi edi ecx fl =
     (if ecx = 0 then (esi, fl)
      else if m esi = m edi then repe_cmpsb m (esi + 1) (edi + 1) (ecx - 1) (True, False)
      else (esi + 1, (False, m esi <s m edi)))"
  by pat_completeness auto

lemma word_dec_less: "(w :: u32) \<noteq> 0 \<Longrightarrow> unat (w - 1) < unat w"
  by (simp add: unat_gt_0 unat_minus_one)

lemma count_down: "\<not> (n :: u32) - 1 <s 0 \<Longrightarrow> unat (n - 1) < unat n"
  by (cases "n = 0") (simp_all add: word_dec_less word_sless_alt)

termination repne_scasb
  by (relation "measure (\<lambda>(m, al, edi, ecx, zf). unat ecx)") (simp_all add: word_dec_less)

termination repe_cmpsb
  by (relation "measure (\<lambda>(m, esi, edi, ecx, fl). unat ecx)") (simp_all add: word_dec_less)

declare repne_scasb.simps [simp del] repe_cmpsb.simps [simp del]

text \<open>\<open>rep stosb\<close>, and \<open>rep movsb\<close> upwards and (after \<open>std\<close>) downwards.\<close>

definition rep_stosb :: "u8 \<Rightarrow> u32 \<Rightarrow> u32 \<Rightarrow> bytes \<Rightarrow> bytes" where
  "rep_stosb al edi ecx m = fold (\<lambda>i m. m(edi + of_nat i := al)) [0..<unat ecx] m"

definition rep_movsb :: "u32 \<Rightarrow> u32 \<Rightarrow> u32 \<Rightarrow> bytes \<Rightarrow> bytes" where
  "rep_movsb esi edi ecx m = fold (\<lambda>i m. m(edi + of_nat i := m (esi + of_nat i))) [0..<unat ecx] m"

definition rep_movsb_down :: "u32 \<Rightarrow> u32 \<Rightarrow> u32 \<Rightarrow> bytes \<Rightarrow> bytes" where
  "rep_movsb_down esi edi ecx m = fold (\<lambda>i m. m(edi - of_nat i := m (esi - of_nat i))) [0..<unat ecx] m"

section \<open>The routines\<close>

definition strlen :: "bytes \<Rightarrow> u32 \<Rightarrow> u32" where
  "strlen m s = (case repne_scasb m 0 s 0xFFFFFFFF False of (edi, ecx, zf) \<Rightarrow> NOT ecx - 1)"

partial_function (option) copy_string :: "u32 \<Rightarrow> u32 \<Rightarrow> bytes \<Rightarrow> bytes option" where
  "copy_string esi edi m =
     (let al = m esi; m1 = m(edi := al) in if al = 0 then Some m1 else copy_string (esi + 1) (edi + 1) m1)"

definition strcpy :: "u32 \<Rightarrow> u32 \<Rightarrow> bytes \<Rightarrow> (u32 \<times> bytes) option" where
  "strcpy dest src m = map_option (Pair dest) (copy_string src dest m)"

text \<open>\<open>decl %ecx; js\<close> leaves the loop when the decremented count is negative.\<close>

function strncpy_loop :: "u32 \<Rightarrow> u32 \<Rightarrow> u32 \<Rightarrow> bytes \<Rightarrow> bytes" where
  "strncpy_loop esi edi ecx m =
     (if ecx - 1 <s 0 then m
      else let al = m esi; m1 = m(edi := al) in
           if al \<noteq> 0 then strncpy_loop (esi + 1) (edi + 1) (ecx - 1) m1
           else rep_stosb 0 (edi + 1) (ecx - 1) m1)"
  by pat_completeness auto
termination
  by (relation "measure (\<lambda>(esi, edi, ecx, m). unat ecx)") (simp_all add: count_down)

declare strncpy_loop.simps [simp del]

definition strncpy :: "u32 \<Rightarrow> u32 \<Rightarrow> i32 \<Rightarrow> bytes \<Rightarrow> u32 \<times> bytes" where
  "strncpy dest src count m = (dest, strncpy_loop src dest count m)"

text \<open>The scan for the end of \<open>dest\<close>: \<open>repne scasb\<close> and \<open>decl %edi\<close>.\<close>

definition string_end :: "bytes \<Rightarrow> u32 \<Rightarrow> u32" where
  "string_end m s = fst (repne_scasb m 0 s 0xFFFFFFFF False) - 1"

definition strcat :: "u32 \<Rightarrow> u32 \<Rightarrow> bytes \<Rightarrow> (u32 \<times> bytes) option" where
  "strcat dest src m = map_option (Pair dest) (copy_string src (string_end m dest) m)"

text \<open>The copy loop of \<open>strncat\<close>; the zero stored after it is stored also when a zero was copied.\<close>

function strncat_loop :: "u32 \<Rightarrow> u32 \<Rightarrow> u32 \<Rightarrow> bytes \<Rightarrow> bytes" where
  "strncat_loop esi edi ecx m =
     (if ecx - 1 <s 0 then m(edi := 0)
      else let al = m esi; m1 = m(edi := al) in
           if al \<noteq> 0 then strncat_loop (esi + 1) (edi + 1) (ecx - 1) m1 else m1(edi + 1 := 0))"
  by pat_completeness auto
termination
  by (relation "measure (\<lambda>(esi, edi, ecx, m). unat ecx)") (simp_all add: count_down)

declare strncat_loop.simps [simp del]

definition strncat :: "u32 \<Rightarrow> u32 \<Rightarrow> i32 \<Rightarrow> bytes \<Rightarrow> u32 \<times> bytes" where
  "strncat dest src count m = (dest, strncat_loop src (string_end m dest) count m)"

text \<open>
  \<open>lodsb; scasb\<close>: the byte of \<open>ct\<close> against the byte of \<open>cs\<close>; the result is 1 when it is less (signed)
  and -1 when it is greater.
\<close>

definition byte_order :: "u8 \<Rightarrow> u8 \<Rightarrow> i32" where
  "byte_order al b = (if al <s b then 1 else - 1)"

partial_function (option) strcmp :: "bytes \<Rightarrow> u32 \<Rightarrow> u32 \<Rightarrow> i32 option" where
  "strcmp m cs ct =
     (let al = m ct in
      if al \<noteq> m cs then Some (byte_order al (m cs))
      else if al = 0 then Some 0
      else strcmp m (cs + 1) (ct + 1))"

function strncmp :: "bytes \<Rightarrow> u32 \<Rightarrow> u32 \<Rightarrow> i32 \<Rightarrow> i32" where
  "strncmp m cs ct count =
     (if count - 1 <s 0 then 0
      else let al = m ct in
           if al \<noteq> m cs then byte_order al (m cs)
           else if al = 0 then 0
           else strncmp m (cs + 1) (ct + 1) (count - 1))"
  by pat_completeness auto
termination
  by (relation "measure (\<lambda>(m, cs, ct, count). unat count)") (simp_all add: count_down)

declare strncmp.simps [simp del]

text \<open>\<open>strchr\<close> and \<open>strrchr\<close> search for the low byte of \<open>c\<close>; 0 is the null pointer.\<close>

partial_function (option) strchr_loop :: "bytes \<Rightarrow> u32 \<Rightarrow> u8 \<Rightarrow> u32 option" where
  "strchr_loop m esi ah =
     (let al = m esi in
      if al = ah then Some (esi + 1 - 1)
      else if al \<noteq> 0 then strchr_loop m (esi + 1) ah
      else Some (1 - 1))"

definition strchr :: "bytes \<Rightarrow> u32 \<Rightarrow> u32 \<Rightarrow> u32 option" where
  "strchr m s c = strchr_loop m s (ucast c)"

partial_function (option) strrchr_loop :: "bytes \<Rightarrow> u32 \<Rightarrow> u8 \<Rightarrow> u32 \<Rightarrow> u32 option" where
  "strrchr_loop m esi ah res =
     (let al = m esi; res1 = (if al = ah then esi else res) in
      if al \<noteq> 0 then strrchr_loop m (esi + 1) ah res1 else Some res1)"

definition strrchr :: "bytes \<Rightarrow> u32 \<Rightarrow> u32 \<Rightarrow> u32 option" where
  "strrchr m s c = strrchr_loop m s (ucast c) 0"

text \<open>
  \<open>strspn\<close>, \<open>strcspn\<close> and \<open>strpbrk\<close> walk along \<open>cs\<close> and look every byte up in \<open>ct\<close> with \<open>repne scasb\<close>;
  the zero flag before it is clear, since the byte is not zero.
\<close>

definition in_set :: "bytes \<Rightarrow> u32 \<Rightarrow> u8 \<Rightarrow> bool" where
  "in_set m ct al = (case repne_scasb m al ct (strlen m ct) False of (edi, ecx, zf) \<Rightarrow> zf)"

partial_function (option) span_loop :: "bytes \<Rightarrow> bool \<Rightarrow> u32 \<Rightarrow> u32 \<Rightarrow> u32 option" where
  "span_loop m want ct esi =
     (let al = m esi in
      if al = 0 then Some (esi + 1 - 1)
      else if in_set m ct al = want then span_loop m want ct (esi + 1)
      else Some (esi + 1 - 1))"

definition strspn :: "bytes \<Rightarrow> u32 \<Rightarrow> u32 \<Rightarrow> i32 option" where
  "strspn m cs ct = map_option (\<lambda>r. r - cs) (span_loop m True ct cs)"

definition strcspn :: "bytes \<Rightarrow> u32 \<Rightarrow> u32 \<Rightarrow> i32 option" where
  "strcspn m cs ct = map_option (\<lambda>r. r - cs) (span_loop m False ct cs)"

partial_function (option) strpbrk_loop :: "bytes \<Rightarrow> u32 \<Rightarrow> u32 \<Rightarrow> u32 option" where
  "strpbrk_loop m ct esi =
     (let al = m esi in
      if al = 0 then Some 0
      else if \<not> in_set m ct al then strpbrk_loop m ct (esi + 1)
      else Some (esi + 1 - 1))"

definition strpbrk :: "bytes \<Rightarrow> u32 \<Rightarrow> u32 \<Rightarrow> u32 option" where
  "strpbrk m cs ct = strpbrk_loop m ct cs"

text \<open>
  \<open>strstr\<close> compares \<open>ct\<close> with the text at every position; for an empty \<open>ct\<close> the zero flag is the one
  \<open>decl %ecx\<close> set. The search ends at the position whose comparison stopped at the end of \<open>cs\<close>.
\<close>

partial_function (option) strstr_loop :: "bytes \<Rightarrow> u32 \<Rightarrow> u32 \<Rightarrow> u32 \<Rightarrow> u32 option" where
  "strstr_loop m ct len start =
     (case repe_cmpsb m start ct len (len = 0, False) of (esi, zf, lt) \<Rightarrow>
        if zf then Some start
        else if m (esi - 1) \<noteq> 0 then strstr_loop m ct len (start + 1)
        else Some 0)"

definition strstr :: "bytes \<Rightarrow> u32 \<Rightarrow> u32 \<Rightarrow> u32 option" where
  "strstr m cs ct = strstr_loop m ct (strlen m ct) cs"

definition memcpy :: "u32 \<Rightarrow> u32 \<Rightarrow> i32 \<Rightarrow> bytes \<Rightarrow> u32 \<times> bytes" where
  "memcpy dest src n m = (dest, rep_movsb src dest n m)"

text \<open>
  A copy downwards sets the direction flag (\<open>std\<close>) and does not clear it. The flag is not part of the model: here every routine finds
  it clear, as the calling convention has it.
\<close>

definition memmove :: "u32 \<Rightarrow> u32 \<Rightarrow> i32 \<Rightarrow> bytes \<Rightarrow> u32 \<times> bytes" where
  "memmove dest src n m =
     (dest, if dest < src then rep_movsb src dest n m else rep_movsb_down (src + n - 1) (dest + n - 1) n m)"

text \<open>With \<open>count = 0\<close> the result of \<open>memcmp\<close> depends on the flags before it, the argument \<open>fl\<close>.\<close>

definition memcmp :: "bool \<times> bool \<Rightarrow> bytes \<Rightarrow> u32 \<Rightarrow> u32 \<Rightarrow> i32 \<Rightarrow> i32" where
  "memcmp fl m cs ct count =
     (case repe_cmpsb m ct cs count fl of (esi, zf, lt) \<Rightarrow> if zf then 0 else if lt then 1 else - 1)"

definition memchr :: "bytes \<Rightarrow> u32 \<Rightarrow> u32 \<Rightarrow> i32 \<Rightarrow> u32" where
  "memchr m cs c count =
     (if count = 0 then 0
      else case repne_scasb m (ucast c) cs count False of (edi, ecx, zf) \<Rightarrow> if zf then edi - 1 else 1 - 1)"

definition memset :: "u32 \<Rightarrow> u32 \<Rightarrow> i32 \<Rightarrow> bytes \<Rightarrow> u32 \<times> bytes" where
  "memset s c count m = (s, rep_stosb (ucast c) s count m)"

section \<open>Strings in memory\<close>

definition str_at :: "bytes \<Rightarrow> u32 \<Rightarrow> u8 list \<Rightarrow> bool" where
  "str_at m a cs \<longleftrightarrow> (\<forall>i < length cs. m (a + of_nat i) = cs ! i) \<and> 0 \<notin> set cs \<and> m (a + of_nat (length cs)) = 0"

lemma str_at_Nil [simp]: "str_at m a [] \<longleftrightarrow> m a = 0"
  by (simp add: str_at_def)

lemma str_at_Cons [simp]: "str_at m a (c # cs) \<longleftrightarrow> m a = c \<and> c \<noteq> 0 \<and> str_at m (a + 1) cs"
  unfolding str_at_def by (auto simp: less_Suc_eq_0_disj nth_Cons' algebra_simps)

lemma scan_hit:
  "\<lbrakk>\<And>i. i < k \<Longrightarrow> m (edi + of_nat i) \<noteq> al; m (edi + of_nat k) = al; k < unat ecx\<rbrakk> \<Longrightarrow>
     repne_scasb m al edi ecx zf = (edi + of_nat k + 1, ecx - of_nat k - 1, True)"
proof (induction k arbitrary: edi ecx zf)
  case 0
  then show ?case by (subst repne_scasb.simps) auto
next
  case (Suc k)
  have "ecx \<noteq> 0" using Suc.prems(3) by auto
  moreover from this have "k < unat (ecx - 1)" using Suc.prems(3) by (simp add: unat_minus_one)
  ultimately show ?case using Suc.IH [of "edi + 1" "ecx - 1" False] Suc.prems(1) [of 0] Suc.prems(1) [of "Suc _"] Suc.prems(2)
    by (subst repne_scasb.simps) (simp add: algebra_simps)
qed

lemma str_at_nz: "str_at m a cs \<Longrightarrow> i < length cs \<Longrightarrow> m (a + of_nat i) \<noteq> 0"
  by (metis nth_mem str_at_def)

lemma str_at_end: "str_at m a cs \<Longrightarrow> m (a + of_nat (length cs)) = 0"
  by (simp add: str_at_def)

lemma scan_string:
  assumes "str_at m a cs" "length cs < 4294967295"
  shows "repne_scasb m 0 a 0xFFFFFFFF False = (a + of_nat (length cs) + 1, 0xFFFFFFFF - of_nat (length cs) - 1, True)"
  using assms by (intro scan_hit) (simp_all add: str_at_nz str_at_end)

lemma strlen_string: "str_at m a cs \<Longrightarrow> length cs < 4294967295 \<Longrightarrow> strlen m a = of_nat (length cs)"
  by (simp add: strlen_def scan_string not_eq_complement)

lemma string_end_string: "str_at m a cs \<Longrightarrow> length cs < 4294967295 \<Longrightarrow> string_end m a = a + of_nat (length cs)"
  by (simp add: string_end_def scan_string)

section \<open>Copying\<close>

text \<open>
  A copy loop, whatever the order it visits the offsets in: it is right when no byte is written
  twice and none is read after it was written.
\<close>

lemma copy_fold:
  assumes "sorted_wrt (\<lambda>i j. d i \<noteq> d j \<and> d i \<noteq> s j) is"
  shows "(\<forall>i \<in> set is. fold (\<lambda>i m. m(d i := m (s i))) is m (d i) = m (s i)) \<and>
    (\<forall>a. a \<notin> d ` set is \<longrightarrow> fold (\<lambda>i m. m(d i := m (s i))) is m a = m (a :: u32))"
  using assms
proof (induction "is" arbitrary: m)
  case (Cons i "is")
  then have "sorted_wrt (\<lambda>i j. d i \<noteq> d j \<and> d i \<noteq> s j) is" "\<forall>j \<in> set is. d i \<noteq> d j \<and> d i \<noteq> s j" by auto
  with Cons.IH [of "m(d i := m (s i))"] show ?case by (auto simp: image_iff)
qed simp

text \<open>Positions of a range that does not wrap round.\<close>

lemma range_inj:
  fixes a b :: u32
  assumes "unat a + k \<le> 4294967296" "unat b + k \<le> 4294967296" "i < k" "j < k"
  shows "a + of_nat i = b + of_nat j \<longleftrightarrow> unat a + i = unat b + j"
proof -
  have "a + of_nat i = of_nat (unat a + i)" "b + of_nat j = of_nat (unat b + j)" by simp_all
  then show ?thesis using assms of_nat_u32_inj [of "unat a + i" "unat b + j"] by (simp only:)
qed

lemma down_position:
  fixes a n :: u32
  assumes "i < unat n"
  shows "a + n - 1 - of_nat i = a + of_nat (unat n - 1 - i)"
proof -
  have "(of_nat (unat n - 1 - i) :: u32) = of_nat (unat n) - of_nat (Suc i)" using assms by (subst of_nat_diff [symmetric]) auto
  then show ?thesis by simp
qed

text \<open>Copying from the last byte to the first, to a range that does not start below the source.\<close>

lemma copy_downwards:
  fixes src dest :: u32
  assumes "unat src + k \<le> 4294967296" "unat dest + k \<le> 4294967296" "unat src \<le> unat dest"
  defines "d \<equiv> \<lambda>i. dest + of_nat (k - 1 - i)" and "s \<equiv> \<lambda>i. src + of_nat (k - 1 - i)"
  shows "(\<forall>i < k. fold (\<lambda>i m. m(d i := m (s i))) [0..<k] m (dest + of_nat i) = m (src + of_nat i)) \<and>
    (\<forall>a. (\<forall>i < k. a \<noteq> dest + of_nat i) \<longrightarrow> fold (\<lambda>i m. m(d i := m (s i))) [0..<k] m a = m a)"
proof -
  have "d i \<noteq> d j \<and> d i \<noteq> s j" if "i < j" "j < k" for i j
  proof -
    define p q where "p = k - 1 - i" and "q = k - 1 - j"
    then have pq: "p < k" "q < k" "q < p" using that by linarith+
    have "dest + of_nat p \<noteq> dest + of_nat q" "dest + of_nat p \<noteq> src + of_nat q"
      using range_inj [OF assms(2,2) pq(1,2)] range_inj [OF assms(2,1) pq(1,2)] assms(3) pq(3) by auto
    then show ?thesis unfolding d_def s_def p_def q_def by blast
  qed
  then have "sorted_wrt (\<lambda>i j. d i \<noteq> d j \<and> d i \<noteq> s j) [0..<k]" by (simp add: sorted_wrt_iff_nth_less)
  note c = copy_fold [OF this, of m]
  have reversed: "dest + of_nat i = d (k - 1 - i) \<and> src + of_nat i = s (k - 1 - i)" if "i < k" for i
    using that by (simp add: d_def s_def)
  have "a \<notin> d ` set [0..<k]" if a: "\<forall>i < k. a \<noteq> dest + of_nat i" for a
  proof
    assume "a \<in> d ` set [0..<k]"
    then obtain i where "i < k" "a = dest + of_nat (k - 1 - i)" unfolding d_def by auto
    then show False using a [rule_format, of "k - 1 - i"] by simp
  qed
  then show ?thesis using c reversed by auto
qed

text \<open>
  C31. \<open>memmove\<close> copies correctly however the two ranges overlap: the \<open>n\<close> bytes at \<open>dest\<close> become what
  the \<open>n\<close> bytes at \<open>src\<close> were, and no other byte changes.
\<close>

theorem memmove_copies:
  assumes "unat src + unat n \<le> 4294967296" "unat dest + unat n \<le> 4294967296"
  shows "(\<forall>i < unat n. snd (memmove dest src n m) (dest + of_nat i) = m (src + of_nat i)) \<and>
    (\<forall>a. (\<forall>i < unat n. a \<noteq> dest + of_nat i) \<longrightarrow> snd (memmove dest src n m) a = m a)"
proof (cases "dest < src")
  case True
  then have lt: "unat dest < unat src" by (simp add: word_less_nat_alt)
  have "sorted_wrt (\<lambda>i j. dest + of_nat i \<noteq> dest + of_nat j \<and> dest + of_nat i \<noteq> src + of_nat j) [0..<unat n]"
    unfolding sorted_wrt_iff_nth_less
    using range_inj [OF assms(2,2)] range_inj [OF assms(2,1)] lt by auto
  from copy_fold [OF this, of m] show ?thesis
    using True by (auto simp: memmove_def rep_movsb_def image_iff)
next
  case False
  then have le: "unat src \<le> unat dest" by (simp add: word_le_nat_alt not_less)
  have "snd (memmove dest src n m) =
      fold (\<lambda>i m. m(dest + of_nat (unat n - 1 - i) := m (src + of_nat (unat n - 1 - i)))) [0..<unat n] m"
    using False by (auto simp: memmove_def rep_movsb_down_def down_position intro!: fold_cong)
  then show ?thesis using copy_downwards [OF assms le, of m] by simp
qed

theorem memmove_copies_witness:
  "snd (memmove 0x1001 0x1000 3 (\<lambda>a. ucast a)) 0x1003 = 0x02 \<and> snd (memmove 0x1001 0x1000 3 (\<lambda>a. ucast a)) 0x1004 = 0x04"
proof -
  have n: "unat (3 :: u32) = 3" "(2 :: nat) < 3" by simp_all
  have "\<forall>i < 3. (0x1004 :: u32) \<noteq> 0x1001 + of_nat i" by (simp add: numeral_3_eq_3 All_less_Suc)
  moreover have m: "(\<forall>i < 3. snd (memmove 0x1001 0x1000 3 (\<lambda>a. ucast a)) (0x1001 + of_nat i) = (ucast (0x1000 + of_nat i :: u32) :: u8)) \<and>
      (\<forall>a. (\<forall>i < 3. a \<noteq> 0x1001 + of_nat i) \<longrightarrow> snd (memmove 0x1001 0x1000 3 (\<lambda>a. ucast a)) a = (ucast a :: u8))"
    using memmove_copies [of "0x1000" 3 "0x1001" "\<lambda>a. ucast a"] unfolding n by simp
  ultimately have "snd (memmove 0x1001 0x1000 3 (\<lambda>a. ucast a)) 0x1004 = (ucast (0x1004 :: u32) :: u8)" by blast
  moreover have "snd (memmove 0x1001 0x1000 3 (\<lambda>a. ucast a)) (0x1001 + of_nat 2) = (ucast (0x1000 + of_nat 2 :: u32) :: u8)"
    using m n(2) by blast
  ultimately show ?thesis by simp
qed

text \<open>A terminated string is copied by \<open>strcpy\<close>, byte by byte upwards, with its terminator.\<close>

lemma copy_string_string:
  assumes "str_at m src cs" "\<And>i j. i < j \<Longrightarrow> j \<le> length cs \<Longrightarrow> dest + of_nat i \<noteq> src + of_nat j"
  shows "copy_string src dest m = Some (fold (\<lambda>i m. m(dest + of_nat i := m (src + of_nat i))) [0..<Suc (length cs)] m)"
  using assms
proof (induction cs arbitrary: src dest m)
  case Nil
  then show ?case by (subst copy_string.simps) simp
next
  case (Cons c cs)
  define m1 where "m1 = m(dest := m src)"
  have src: "m src = c" "c \<noteq> 0" "str_at m (src + 1) cs" using Cons.prems(1) by auto
  have "src + 1 + of_nat i \<noteq> dest" if "i \<le> length cs" for i
    using Cons.prems(2) [of 0 "Suc i"] that by (simp add: add.assoc)
  then have "str_at m1 (src + 1) cs" using src(3) by (simp add: str_at_def m1_def)
  moreover have "dest + 1 + of_nat i \<noteq> src + 1 + of_nat j" if "i < j" "j \<le> length cs" for i j
    using Cons.prems(2) [of "Suc i" "Suc j"] that by (simp add: add.assoc)
  ultimately have "copy_string (src + 1) (dest + 1) m1 =
      Some (fold (\<lambda>i m. m(dest + 1 + of_nat i := m (src + 1 + of_nat i))) [0..<Suc (length cs)] m1)" by (rule Cons.IH)
  moreover have "[0..<Suc (Suc (length cs))] = 0 # map Suc [0..<Suc (length cs)]" by (metis map_Suc_upt upt_conv_Cons zero_less_Suc)
  ultimately show ?case using src(1,2)
    by (subst copy_string.simps) (simp add: m1_def fold_map o_def add.assoc del: upt_Suc)
qed

text \<open>
  \<open>strcpy\<close> ends on every terminated string whose bytes it does not overwrite before reading them;
  it returns the destination, where the same string then stands, and changes nothing else.
\<close>

lemma strcpy_copies:
  assumes "str_at m src cs" "length cs < 4294967295"
    "\<And>i j. i < j \<Longrightarrow> j \<le> length cs \<Longrightarrow> dest + of_nat i \<noteq> src + of_nat j"
  shows "\<exists>m'. strcpy dest src m = Some (dest, m') \<and> str_at m' dest cs \<and>
    (\<forall>a. (\<forall>i \<le> length cs. a \<noteq> dest + of_nat i) \<longrightarrow> m' a = m a)"
proof -
  define m' where "m' = fold (\<lambda>i m. m(dest + of_nat i := m (src + of_nat i))) [0..<Suc (length cs)] m"
  have "strcpy dest src m = Some (dest, m')"
    using copy_string_string [OF assms(1,3)] by (simp add: strcpy_def m'_def)
  moreover have "dest + of_nat i \<noteq> dest + of_nat j" if "i < j" "j \<le> length cs" for i j
    using that assms(2) of_nat_u32_inj [of i j] by simp
  then have "sorted_wrt (\<lambda>i j. dest + of_nat i \<noteq> dest + of_nat j \<and> dest + of_nat i \<noteq> src + of_nat j) [0..<Suc (length cs)]"
    using assms(3) by (auto simp: sorted_wrt_iff_nth_less less_Suc_eq_le simp del: upt_Suc)
  note c = copy_fold [OF this, of m, folded m'_def]
  have "m' (dest + of_nat i) = m (src + of_nat i)" if "i \<le> length cs" for i using c that by (simp del: upt_Suc)
  then have "str_at m' dest cs" using assms(1) by (simp add: str_at_def)
  moreover have "m' a = m a" if "\<forall>i \<le> length cs. a \<noteq> dest + of_nat i" for a
    using c that by (auto simp: image_iff less_Suc_eq_le simp del: upt_Suc)
  ultimately show ?thesis by blast
qed

definition two_strings :: bytes where "two_strings = (\<lambda>_. 0)(0x100 := 0x61, 0x101 := 0xE9, 0x200 := 0x61, 0x201 := 0x62)"

lemma strcpy_copies_witness:
  "\<exists>m'. strcpy 0x300 0x100 two_strings = Some (0x300, m') \<and> m' 0x301 = 0xE9"
proof -
  have s: "str_at two_strings 0x100 [0x61, 0xE9]" by (simp add: two_strings_def)
  have "(0x300 :: u32) + of_nat i \<noteq> 0x100 + of_nat j" if "i < j" "j \<le> length [0x61, 0xE9 :: u8]" for i j
    using range_inj [of "0x300" 4 "0x100" i j] that by simp
  from strcpy_copies [OF s _ this] obtain m' where "strcpy 0x300 0x100 two_strings = Some (0x300, m')" "str_at m' 0x300 [0x61, 0xE9]"
    by auto
  then show ?thesis by simp
qed

section \<open>Comparing\<close>

text \<open>The order the comparisons use: bytes as signed numbers, the end of a string as zero.\<close>

fun signed_order :: "u8 list \<Rightarrow> u8 list \<Rightarrow> int" where
  "signed_order [] [] = 0"
| "signed_order (x # xs) [] = (if sint x > 0 then 1 else -1)"
| "signed_order [] (y # ys) = (if sint y < 0 then 1 else -1)"
| "signed_order (x # xs) (y # ys) = (if x = y then signed_order xs ys else if sint x > sint y then 1 else -1)"

lemma signed_order_0: "0 \<notin> set xs \<Longrightarrow> 0 \<notin> set ys \<Longrightarrow> signed_order xs ys = 0 \<longleftrightarrow> xs = ys"
  by (induction xs ys rule: signed_order.induct) auto

lemma byte_order_sint: "sint (byte_order a b) = (if sint b > sint a then 1 else -1)"
  by (simp add: byte_order_def word_sless_alt)

lemma strcmp_order:
  "str_at m cs xs \<Longrightarrow> str_at m ct ys \<Longrightarrow> \<exists>r. strcmp m cs ct = Some r \<and> sint r = signed_order xs ys"
proof (induction xs ys arbitrary: cs ct rule: signed_order.induct)
  case 1
  then show ?case by (subst strcmp.simps) simp
next
  case (2 x xs)
  then show ?case by (subst strcmp.simps) (auto simp: byte_order_sint)
next
  case (3 y ys)
  then show ?case by (subst strcmp.simps) (auto simp: byte_order_sint)
next
  case (4 x xs y ys)
  then show ?case by (subst strcmp.simps) (auto simp: byte_order_sint)
qed

text \<open>
  On two terminated strings \<open>strcmp\<close> always returns, and its result is the lexicographic order
  of the strings with bytes compared as signed numbers: 0 for equal strings, 1 when \<open>cs\<close> is the
  greater, -1 otherwise. A byte above 127 therefore sorts before every ASCII letter.
\<close>

lemma strcmp_is_signed_order:
  assumes "str_at m cs xs" "str_at m ct ys"
  shows "\<exists>r. strcmp m cs ct = Some r \<and> sint r = signed_order xs ys \<and> (r = 0 \<longleftrightarrow> xs = ys)"
proof -
  obtain r where r: "strcmp m cs ct = Some r" "sint r = signed_order xs ys" using strcmp_order [OF assms] by blast
  have "r = 0 \<longleftrightarrow> sint r = 0" by (metis sint_0 signed_word_eqI)
  moreover have "0 \<notin> set xs" "0 \<notin> set ys" using assms by (simp_all add: str_at_def)
  ultimately show ?thesis using r by (simp add: signed_order_0)
qed

lemma strcmp_is_signed_order_witness: "\<exists>r. strcmp two_strings 0x100 0x200 = Some r \<and> sint r = -1"
proof -
  have "str_at two_strings 0x100 [0x61, 0xE9]" "str_at two_strings 0x200 [0x61, 0x62]" by (simp_all add: two_strings_def)
  from strcmp_is_signed_order [OF this] show ?thesis by auto
qed

end
