(* ===== verification/Tty_Queue.thy ===== *)
theory Tty_Queue
  imports Kernel_Base
begin

text \<open>
  The character queues of include/linux/tty.h: a buffer of 1024 bytes with a head that every write
  advances and a tail that every read advances, both kept below 1024 by masking. The queues of a
  terminal (typed characters, cooked characters, output) are all of this kind. The contract of a
  bounded first-in first-out queue is the locale \<open>bounded_fifo\<close>; the ring is shown to meet it, and
  what its users rely on (many writes, many reads) is proved once from the contract.
\<close>

section \<open>The ring\<close>

type_synonym char8 = u8

definition TTY_BUF_SIZE :: nat where "TTY_BUF_SIZE = 1024"

text \<open>The array \<open>buf\<close> is a function of the index: \<open>queue_ok\<close> below keeps every index used under 1024.\<close>

record tty_queue =
  q_data :: u32
  q_head :: u32
  q_tail :: u32
  q_buf :: "u32 \<Rightarrow> char8"

definition ring_mask :: u32 where "ring_mask = of_nat TTY_BUF_SIZE - 1"

definition INC :: "u32 \<Rightarrow> u32" where "INC p = (p + 1) AND ring_mask"
definition DEC :: "u32 \<Rightarrow> u32" where "DEC p = (p - 1) AND ring_mask"

definition WRITE_SPACE :: "tty_queue \<Rightarrow> u32" where "WRITE_SPACE q = (q_tail q - q_head q - 1) AND ring_mask"
definition READ_SPACE :: "tty_queue \<Rightarrow> u32" where "READ_SPACE q = (q_head q - q_tail q) AND ring_mask"
definition EMPTY :: "tty_queue \<Rightarrow> bool" where "EMPTY q \<longleftrightarrow> READ_SPACE q = 0"
definition FULL :: "tty_queue \<Rightarrow> bool" where "FULL q \<longleftrightarrow> WRITE_SPACE q = 0"
definition LAST :: "tty_queue \<Rightarrow> char8" where "LAST q = q_buf q ((q_head q - 1) AND ring_mask)"

text \<open>
  The accesses the drivers make: \<open>buf[head] = c; INC(head)\<close>, \<open>c = buf[tail]; INC(tail)\<close> and
  \<open>DEC(head)\<close>. None of them looks at the space left.
\<close>

definition q_put :: "char8 \<Rightarrow> tty_queue \<Rightarrow> tty_queue" where
  "q_put c q = q\<lparr>q_buf := (q_buf q)(q_head q := c), q_head := INC (q_head q)\<rparr>"

definition q_get :: "tty_queue \<Rightarrow> char8 \<times> tty_queue" where
  "q_get q = (q_buf q (q_tail q), q\<lparr>q_tail := INC (q_tail q)\<rparr>)"

definition q_drop_last :: "tty_queue \<Rightarrow> tty_queue" where
  "q_drop_last q = q\<lparr>q_head := DEC (q_head q)\<rparr>"

definition empty_queue :: tty_queue where
  "empty_queue = \<lparr>q_data = 0, q_head = 0, q_tail = 0, q_buf = \<lambda>_. 0\<rparr>"

section \<open>What a queue holds\<close>

definition queue_ok :: "tty_queue \<Rightarrow> bool" where
  "queue_ok q \<longleftrightarrow> unat (q_head q) < TTY_BUF_SIZE \<and> unat (q_tail q) < TTY_BUF_SIZE"

definition contents :: "tty_queue \<Rightarrow> char8 list" where
  "contents q = map (\<lambda>i. q_buf q ((q_tail q + of_nat i) AND ring_mask)) [0..<unat (READ_SPACE q)]"

lemma ring_mask_eq: "ring_mask = mask 10"
  by (simp add: ring_mask_def TTY_BUF_SIZE_def mask_eq_exp_minus_1)

lemma ring_and: "(w :: u32) AND ring_mask = take_bit 10 w"
  by (simp add: ring_mask_eq take_bit_eq_mask)

lemma ring_of_nat [simp]: "(of_nat n :: u32) AND ring_mask = of_nat (n mod 1024)"
proof -
  have "take_bit 10 (of_nat n :: u32) = of_nat (take_bit 10 n)" by (rule take_bit_of_nat)
  also have "take_bit 10 n = n mod 1024" by (simp add: take_bit_eq_mod)
  finally show ?thesis by (simp only: ring_and)
qed

lemma ring_minus:
  assumes "n \<le> 1024"
  shows "(of_nat m - of_nat n) AND ring_mask = (of_nat ((m + (1024 - n)) mod 1024) :: u32)"
proof -
  obtain k where k: "(of_nat m - of_nat n :: u32) = of_nat k" by (metis word_nat_cases)
  have "(of_nat (m + (1024 - n)) :: u32) = of_nat m - of_nat n + 1024"
    using assms by (simp add: of_nat_diff)
  also have "\<dots> = of_nat (k + 1024)" by (simp add: k)
  finally have "(of_nat (m + (1024 - n)) :: u32) AND ring_mask = of_nat (k + 1024) AND ring_mask" by (rule arg_cong)
  then show ?thesis unfolding k ring_of_nat by simp
qed

lemma unat_ring [simp]: "unat (of_nat (n mod 1024) :: u32) = n mod 1024"
proof -
  have "n mod 1024 < 2 ^ LENGTH(32)" by (rule less_trans [of _ 1024]) simp_all
  then show ?thesis by (rule of_nat_inverse [OF refl])
qed

text \<open>Both ends as natural numbers: the form in which every fact about the ring is proved.\<close>

lemma queue_ok_cases:
  assumes "queue_ok q"
  obtains h t where "h < 1024" "t < 1024" "q_head q = of_nat h" "q_tail q = of_nat t"
proof (rule that [of "unat (q_head q)" "unat (q_tail q)"])
qed (use assms in \<open>simp_all add: queue_ok_def TTY_BUF_SIZE_def\<close>)

lemma READ_SPACE_nat:
  "q_head q = of_nat h \<Longrightarrow> q_tail q = of_nat t \<Longrightarrow> t < 1024 \<Longrightarrow> READ_SPACE q = of_nat ((h + (1024 - t)) mod 1024)"
  unfolding READ_SPACE_def by (simp only: ring_minus less_imp_le)

lemma WRITE_SPACE_nat:
  assumes "q_head q = of_nat h" "q_tail q = of_nat t" "h < 1024"
  shows "WRITE_SPACE q = of_nat ((t + (1023 - h)) mod 1024)"
proof -
  have "(of_nat t - of_nat h - 1 :: u32) = of_nat t - of_nat (Suc h)" by simp
  moreover have "1024 - Suc h = 1023 - h" by simp
  ultimately show ?thesis
    using assms ring_minus [of "Suc h" t] unfolding WRITE_SPACE_def by (simp only: Suc_leI)
qed

text \<open>What the ring holds, over the two ends.\<close>

lemma contents_nat:
  assumes "q_head q = of_nat h" "q_tail q = of_nat t" "t < 1024"
  shows "contents q = map (\<lambda>i. q_buf q (of_nat ((t + i) mod 1024))) [0..<(h + (1024 - t)) mod 1024]"
proof -
  have "(of_nat t + of_nat i :: u32) AND ring_mask = of_nat ((t + i) mod 1024)" for i
    using ring_of_nat [of "t + i"] by (simp only: of_nat_add)
  then show ?thesis
    unfolding contents_def READ_SPACE_nat [OF assms] unat_ring assms(2) by (simp only:)
qed

lemma length_contents: "length (contents q) = unat (READ_SPACE q)"
  by (simp add: contents_def)

lemma EMPTY_iff: "EMPTY q \<longleftrightarrow> contents q = []"
  by (simp add: EMPTY_def flip: length_contents length_0_conv) (simp add: length_contents unat_eq_0)

lemma unat_INC: "p = of_nat n \<Longrightarrow> INC p = of_nat (Suc n mod 1024)"
  unfolding INC_def using ring_of_nat [of "Suc n"] by (simp add: add.commute del: ring_of_nat)

lemma unat_DEC: "p = of_nat n \<Longrightarrow> DEC p = of_nat ((n + 1023) mod 1024)"
  unfolding DEC_def using ring_minus [of 1 n] by simp

lemma length_contents_nat:
  "q_head q = of_nat h \<Longrightarrow> q_tail q = of_nat t \<Longrightarrow> t < 1024 \<Longrightarrow> length (contents q) = (h + (1024 - t)) mod 1024"
  by (simp only: contents_nat length_map length_upt diff_zero)

lemma contents_bound: "queue_ok q \<Longrightarrow> length (contents q) < TTY_BUF_SIZE"
  by (erule queue_ok_cases) (simp add: length_contents_nat TTY_BUF_SIZE_def)

lemma mod_1024_cases: "n < 2048 \<Longrightarrow> n mod 1024 = (if n < 1024 then n else n - 1024)" for n :: nat
  by (simp add: mod_if)

lemma WRITE_SPACE_contents:
  assumes "queue_ok q"
  shows "unat (WRITE_SPACE q) = TTY_BUF_SIZE - 1 - length (contents q)"
proof -
  from assms obtain h t where q: "h < 1024" "t < 1024" "q_head q = of_nat h" "q_tail q = of_nat t" by (rule queue_ok_cases)
  have "unat (WRITE_SPACE q) = (t + (1023 - h)) mod 1024"
    using q by (simp only: WRITE_SPACE_nat unat_ring)
  moreover have "length (contents q) = (h + (1024 - t)) mod 1024" using q by (simp only: length_contents_nat)
  ultimately show ?thesis using q(1,2) by (auto simp: TTY_BUF_SIZE_def mod_1024_cases)
qed

lemma FULL_iff: "queue_ok q \<Longrightarrow> FULL q \<longleftrightarrow> length (contents q) = TTY_BUF_SIZE - 1"
  using WRITE_SPACE_contents [of q] contents_bound [of q]
  by (auto simp: FULL_def TTY_BUF_SIZE_def simp flip: unat_eq_0)

lemma queue_okI: "q_head q = of_nat (h mod 1024) \<Longrightarrow> q_tail q = of_nat (t mod 1024) \<Longrightarrow> queue_ok q"
  unfolding queue_ok_def TTY_BUF_SIZE_def by (simp only: unat_ring) simp

lemma of_nat_ring_inj: "a < 1024 \<Longrightarrow> b < 1024 \<Longrightarrow> (of_nat a :: u32) = of_nat b \<longleftrightarrow> a = b"
  using unat_ring [of a] unat_ring [of b] by (metis mod_less)

lemma q_put_fields [simp]:
  "q_data (q_put c q) = q_data q" "q_tail (q_put c q) = q_tail q" "q_head (q_put c q) = INC (q_head q)"
  by (simp_all add: q_put_def)

lemma queue_ok_put [simp]: "queue_ok q \<Longrightarrow> queue_ok (q_put c q)"
proof (erule queue_ok_cases)
  fix h t assume "h < (1024 :: nat)" "t < (1024 :: nat)" "q_head q = of_nat h" "q_tail q = of_nat t"
  then show ?thesis by (intro queue_okI [of _ "Suc h" t]) (simp_all add: unat_INC)
qed

lemma contents_put:
  assumes "queue_ok q" "length (contents q) < TTY_BUF_SIZE - 1"
  shows "contents (q_put c q) = contents q @ [c]"
proof -
  from assms(1) obtain h t where q: "h < 1024" "t < 1024" "q_head q = of_nat h" "q_tail q = of_nat t" by (rule queue_ok_cases)
  define n where "n = (h + (1024 - t)) mod 1024"
  have n: "length (contents q) = n" using q by (simp only: length_contents_nat n_def)
  have le: "n < 1023" using assms(2) unfolding n by (simp add: TTY_BUF_SIZE_def)
  have h: "h = (t + n) mod 1024" using q(1,2) by (auto simp: n_def mod_1024_cases)
  have "q_head (q_put c q) = of_nat (Suc h mod 1024)" by (simp add: unat_INC [OF q(3)])
  then have "contents (q_put c q) = map (\<lambda>i. q_buf (q_put c q) (of_nat ((t + i) mod 1024))) [0..<(Suc h mod 1024 + (1024 - t)) mod 1024]"
    using q by (intro contents_nat) auto
  moreover have "(Suc h mod 1024 + (1024 - t)) mod 1024 = Suc n"
    using q(1,2) le by (auto simp: n_def mod_1024_cases split: if_splits)
  moreover have "q_buf (q_put c q) (of_nat ((t + i) mod 1024)) = (if i = n then c else q_buf q (of_nat ((t + i) mod 1024)))"
    if "i < Suc n" for i
  proof -
    have "(t + i) mod 1024 = h \<longleftrightarrow> i = n" using that le q(1,2) unfolding h by (auto simp: mod_1024_cases split: if_splits)
    then have "(of_nat ((t + i) mod 1024) :: u32) = of_nat h \<longleftrightarrow> i = n" using q(1) by (simp add: of_nat_ring_inj)
    then show ?thesis by (simp add: q_put_def q(3))
  qed
  ultimately show ?thesis
    by (simp add: contents_nat [OF q(3,4,2)] flip: n_def)
qed

text \<open>A write to a full ring makes the head meet the tail: everything in the ring is lost.\<close>

lemma contents_put_full:
  assumes "queue_ok q" "length (contents q) = TTY_BUF_SIZE - 1"
  shows "contents (q_put c q) = []"
proof -
  from assms(1) obtain h t where q: "h < 1024" "t < 1024" "q_head q = of_nat h" "q_tail q = of_nat t" by (rule queue_ok_cases)
  have n: "(h + (1024 - t)) mod 1024 = 1023" using assms(2) q by (simp add: length_contents_nat TTY_BUF_SIZE_def)
  have "q_head (q_put c q) = of_nat (Suc h mod 1024)" by (simp add: unat_INC [OF q(3)])
  then have "length (contents (q_put c q)) = (Suc h mod 1024 + (1024 - t)) mod 1024"
    using q by (intro length_contents_nat) auto
  also have "\<dots> = 0" using n q(1,2) by (auto simp: mod_1024_cases split: if_splits)
  finally show ?thesis by simp
qed

lemma contents_get:
  assumes "queue_ok q" "contents q \<noteq> []"
  shows "fst (q_get q) = hd (contents q)" "contents (snd (q_get q)) = tl (contents q)" "queue_ok (snd (q_get q))"
proof -
  from assms(1) obtain h t where q: "h < 1024" "t < 1024" "q_head q = of_nat h" "q_tail q = of_nat t" by (rule queue_ok_cases)
  define n where "n = (h + (1024 - t)) mod 1024"
  have n: "n \<noteq> 0" using assms(2) q unfolding n_def by (metis length_contents_nat length_0_conv)
  have upt: "[0..<n] = 0 # map Suc [0..<n - 1]" using n by (metis map_Suc_upt upt_conv_Cons Suc_pred' neq0_conv)
  have c: "contents q = map (\<lambda>i. q_buf q (of_nat ((t + i) mod 1024))) [0..<n]" unfolding n_def by (rule contents_nat [OF q(3,4,2)])
  show "fst (q_get q) = hd (contents q)" unfolding c upt by (simp add: q_get_def q)
  have tail: "q_tail (snd (q_get q)) = of_nat (Suc t mod 1024)" by (simp add: q_get_def unat_INC [OF q(4)])
  have "contents (snd (q_get q)) = map (\<lambda>i. q_buf q (of_nat ((Suc t mod 1024 + i) mod 1024))) [0..<(h + (1024 - Suc t mod 1024)) mod 1024]"
    using contents_nat [OF _ tail, of h] q by (simp add: q_get_def)
  moreover have "(h + (1024 - Suc t mod 1024)) mod 1024 = n - 1"
    using n q(1,2) by (auto simp: n_def mod_1024_cases split: if_splits)
  moreover have "(Suc t mod 1024 + i) mod 1024 = (t + Suc i) mod 1024" for i by (simp add: mod_simps)
  ultimately show "contents (snd (q_get q)) = tl (contents q)" unfolding c upt by (simp add: o_def)
  show "queue_ok (snd (q_get q))" by (rule queue_okI [OF _ tail, of h]) (simp add: q_get_def q)
qed

lemma contents_drop_last:
  assumes "queue_ok q" "contents q \<noteq> []"
  shows "LAST q = last (contents q)" "contents (q_drop_last q) = butlast (contents q)" "queue_ok (q_drop_last q)"
proof -
  from assms(1) obtain h t where q: "h < 1024" "t < 1024" "q_head q = of_nat h" "q_tail q = of_nat t" by (rule queue_ok_cases)
  define n where "n = (h + (1024 - t)) mod 1024"
  have n: "n \<noteq> 0" using assms(2) q unfolding n_def by (metis length_contents_nat length_0_conv)
  have c: "contents q = map (\<lambda>i. q_buf q (of_nat ((t + i) mod 1024))) [0..<n]" unfolding n_def by (rule contents_nat [OF q(3,4,2)])
  have head: "q_head (q_drop_last q) = of_nat ((h + 1023) mod 1024)" by (simp add: q_drop_last_def unat_DEC [OF q(3)])
  have last_ix: "(t + (n - 1)) mod 1024 = (h + 1023) mod 1024" using n q(1,2) by (auto simp: n_def mod_1024_cases split: if_splits)
  have "LAST q = q_buf q (of_nat ((h + 1023) mod 1024))" using unat_DEC [OF q(3)] by (simp add: LAST_def DEC_def)
  then show "LAST q = last (contents q)" unfolding c using n last_ix by (simp add: last_map)
  have "contents (q_drop_last q) = map (\<lambda>i. q_buf q (of_nat ((t + i) mod 1024))) [0..<((h + 1023) mod 1024 + (1024 - t)) mod 1024]"
    using contents_nat [OF head, of t] q by (simp add: q_drop_last_def)
  moreover have "((h + 1023) mod 1024 + (1024 - t)) mod 1024 = n - 1"
    using n q(1,2) by (auto simp: n_def mod_1024_cases split: if_splits)
  ultimately show "contents (q_drop_last q) = butlast (contents q)" unfolding c using n by (cases n) simp_all
  show "queue_ok (q_drop_last q)" by (rule queue_okI [OF head, of t]) (simp add: q_drop_last_def q)
qed

lemma empty_queue_facts [simp]: "queue_ok empty_queue" "contents empty_queue = []"
  by (simp_all add: empty_queue_def queue_ok_def contents_def READ_SPACE_def TTY_BUF_SIZE_def)

lemma contents_data [simp]: "contents (q\<lparr>q_data := d\<rparr>) = contents q" "queue_ok (q\<lparr>q_data := d\<rparr>) = queue_ok q"
  by (simp_all add: contents_def READ_SPACE_def queue_ok_def)

section \<open>The contract of a bounded queue\<close>

locale bounded_fifo =
  fixes ok :: "'q \<Rightarrow> bool" and items :: "'q \<Rightarrow> 'a list" and room :: nat
    and put :: "'a \<Rightarrow> 'q \<Rightarrow> 'q" and get :: "'q \<Rightarrow> 'a \<times> 'q"
  assumes put_ok: "ok q \<Longrightarrow> ok (put c q)"
    and items_put: "ok q \<Longrightarrow> length (items q) < room \<Longrightarrow> items (put c q) = items q @ [c]"
    and get_ok: "ok q \<Longrightarrow> items q \<noteq> [] \<Longrightarrow> ok (snd (get q))"
    and fst_get: "ok q \<Longrightarrow> items q \<noteq> [] \<Longrightarrow> fst (get q) = hd (items q)"
    and items_get: "ok q \<Longrightarrow> items q \<noteq> [] \<Longrightarrow> items (snd (get q)) = tl (items q)"
begin

lemma ok_puts: "ok q \<Longrightarrow> ok (fold put cs q)"
  by (induction cs arbitrary: q) (simp_all add: put_ok)

lemma items_puts: "ok q \<Longrightarrow> length (items q) + length cs \<le> room \<Longrightarrow> items (fold put cs q) = items q @ cs"
  by (induction cs arbitrary: q) (simp_all add: put_ok items_put)

text \<open>Reading \<open>n\<close> items, the way a consumer does that first asks how many there are.\<close>

lemma gets:
  "ok q \<Longrightarrow> n \<le> length (items q) \<Longrightarrow>
     ok (((snd \<circ> get) ^^ n) q) \<and> items (((snd \<circ> get) ^^ n) q) = drop n (items q)"
proof (induction n)
  case 0
  then show ?case by simp
next
  case (Suc n)
  then have "items (((snd \<circ> get) ^^ n) q) \<noteq> []" by (auto simp: o_def)
  with Suc show ?case by (simp add: get_ok items_get drop_Suc tl_drop)
qed

lemma fifo:
  assumes "ok q" "items q = []" "length cs \<le> room" "n < length cs"
  shows "fst (get (((snd \<circ> get) ^^ n) (fold put cs q))) = cs ! n"
proof -
  have "items (fold put cs q) = cs" "ok (fold put cs q)" using assms by (simp_all add: items_puts ok_puts)
  moreover from this gets [of "fold put cs q" n] assms(4)
  have "ok (((snd \<circ> get) ^^ n) (fold put cs q))" "items (((snd \<circ> get) ^^ n) (fold put cs q)) = drop n cs" by simp_all
  ultimately show ?thesis using assms(4) by (simp add: fst_get hd_drop_conv_nth)
qed

end

interpretation ring: bounded_fifo queue_ok contents "TTY_BUF_SIZE - 1" q_put q_get
  by unfold_locales (simp_all add: contents_put contents_get)

text \<open>
  C30. The ring refines a bounded first-in first-out queue: up to 1023 characters written into an
  empty ring are held in order, reading the ring gives them back in order, and one character more
  empties the ring, since no write looks at the space left.
\<close>

theorem ring_refines_fifo:
  assumes "queue_ok q" "contents q = []" "length cs \<le> TTY_BUF_SIZE - 1"
  shows "contents (fold q_put cs q) = cs \<and>
    (\<forall>n < length cs. fst (q_get (((snd \<circ> q_get) ^^ n) (fold q_put cs q))) = cs ! n) \<and>
    (length cs = TTY_BUF_SIZE - 1 \<longleftrightarrow> FULL (fold q_put cs q)) \<and>
    (FULL (fold q_put cs q) \<longrightarrow> contents (q_put c (fold q_put cs q)) = [])"
proof (intro conjI allI impI)
  show c: "contents (fold q_put cs q) = cs" using assms by (simp add: ring.items_puts)
  have ok: "queue_ok (fold q_put cs q)" using assms(1) by (rule ring.ok_puts)
  show "fst (q_get (((snd \<circ> q_get) ^^ n) (fold q_put cs q))) = cs ! n" if "n < length cs" for n
    using assms that by (rule ring.fifo)
  show "length cs = TTY_BUF_SIZE - 1 \<longleftrightarrow> FULL (fold q_put cs q)" by (auto simp: FULL_iff ok c)
  show "contents (q_put c (fold q_put cs q)) = []" if "FULL (fold q_put cs q)"
    using that ok by (intro contents_put_full) (simp_all add: FULL_iff)
qed

theorem ring_refines_fifo_witness:
  "contents (fold q_put [104, 105] empty_queue) = [104, 105] \<and>
   fst (q_get (((snd \<circ> q_get) ^^ 1) (fold q_put [104, 105] empty_queue))) = 105 \<and>
   contents (q_put 1 (fold q_put (replicate 1023 7) empty_queue)) = []"
  using ring_refines_fifo [of empty_queue "[104, 105]" 1]
    ring_refines_fifo [of empty_queue "replicate 1023 7" 1]
  by (auto simp: TTY_BUF_SIZE_def)

end
