(* ===== verification/Ctype.thy ===== *)
theory Ctype
  imports Tty_Queue
begin

text \<open>
  The character classes of lib/ctype.c and include/ctype.h: a table of one byte of class bits per
  character, with an entry for EOF in front, and the macros that look a character up in it.
\<close>

section \<open>The table\<close>

definition C_U :: u8 where "C_U = 0x01"
definition C_L :: u8 where "C_L = 0x02"
definition C_D :: u8 where "C_D = 0x04"
definition C_C :: u8 where "C_C = 0x08"
definition C_P :: u8 where "C_P = 0x10"
definition C_S :: u8 where "C_S = 0x20"
definition C_X :: u8 where "C_X = 0x40"
definition C_SP :: u8 where "C_SP = 0x80"

definition ctype_table :: "u8 list" where
  "ctype_table =
     [0] @
     [C_C, C_C, C_C, C_C, C_C, C_C, C_C, C_C] @
     [C_C, C_C OR C_S, C_C OR C_S, C_C OR C_S, C_C OR C_S, C_C OR C_S, C_C, C_C] @
     replicate 8 C_C @
     replicate 8 C_C @
     [C_S OR C_SP, C_P, C_P, C_P, C_P, C_P, C_P, C_P] @
     replicate 8 C_P @
     replicate 8 C_D @
     [C_D, C_D, C_P, C_P, C_P, C_P, C_P, C_P] @
     [C_P, C_U OR C_X, C_U OR C_X, C_U OR C_X, C_U OR C_X, C_U OR C_X, C_U OR C_X, C_U] @
     replicate 8 C_U @
     replicate 8 C_U @
     [C_U, C_U, C_U, C_P, C_P, C_P, C_P, C_P] @
     [C_P, C_L OR C_X, C_L OR C_X, C_L OR C_X, C_L OR C_X, C_L OR C_X, C_L OR C_X, C_L] @
     replicate 8 C_L @
     replicate 8 C_L @
     [C_L, C_L, C_L, C_P, C_P, C_P, C_P, C_C] @
     replicate 128 0"

text \<open>\<open>(_ctype+1)[(unsigned char)c] & bits\<close>, the form of every class macro.\<close>

definition ctype_bits :: "char8 \<Rightarrow> u8" where "ctype_bits c = ctype_table ! (unat c + 1)"

definition isalnum :: "char8 \<Rightarrow> bool" where "isalnum c \<longleftrightarrow> ctype_bits c AND (C_U OR C_L OR C_D) \<noteq> 0"
definition isalpha :: "char8 \<Rightarrow> bool" where "isalpha c \<longleftrightarrow> ctype_bits c AND (C_U OR C_L) \<noteq> 0"
definition iscntrl :: "char8 \<Rightarrow> bool" where "iscntrl c \<longleftrightarrow> ctype_bits c AND C_C \<noteq> 0"
definition isdigit :: "char8 \<Rightarrow> bool" where "isdigit c \<longleftrightarrow> ctype_bits c AND C_D \<noteq> 0"
definition isgraph :: "char8 \<Rightarrow> bool" where "isgraph c \<longleftrightarrow> ctype_bits c AND (C_P OR C_U OR C_L OR C_D) \<noteq> 0"
definition islower :: "char8 \<Rightarrow> bool" where "islower c \<longleftrightarrow> ctype_bits c AND C_L \<noteq> 0"
definition isprint :: "char8 \<Rightarrow> bool" where "isprint c \<longleftrightarrow> ctype_bits c AND (C_P OR C_U OR C_L OR C_D OR C_SP) \<noteq> 0"
definition ispunct :: "char8 \<Rightarrow> bool" where "ispunct c \<longleftrightarrow> ctype_bits c AND C_P \<noteq> 0"
definition isspace :: "char8 \<Rightarrow> bool" where "isspace c \<longleftrightarrow> ctype_bits c AND C_S \<noteq> 0"
definition isupper :: "char8 \<Rightarrow> bool" where "isupper c \<longleftrightarrow> ctype_bits c AND C_U \<noteq> 0"
definition isxdigit :: "char8 \<Rightarrow> bool" where "isxdigit c \<longleftrightarrow> ctype_bits c AND (C_D OR C_X) \<noteq> 0"

text \<open>The result of \<open>tolower\<close> and \<open>toupper\<close> is stored back in a \<open>char\<close> everywhere: 8-bit arithmetic.\<close>

definition tolower :: "char8 \<Rightarrow> char8" where "tolower c = (if isupper c then c - (65 - 97) else c)"
definition toupper :: "char8 \<Rightarrow> char8" where "toupper c = (if islower c then c - (97 - 65) else c)"

section \<open>The classes are the ranges of ASCII\<close>

definition in_range :: "nat \<Rightarrow> nat \<Rightarrow> char8 \<Rightarrow> bool" where "in_range lo hi c \<longleftrightarrow> lo \<le> unat c \<and> unat c \<le> hi"

text \<open>The same table as runs of equal entries, and the entry of a character found by its run.\<close>

fun run_at :: "nat \<Rightarrow> (nat \<times> u8) list \<Rightarrow> nat \<Rightarrow> u8" where
  "run_at s [] i = 0"
| "run_at s ((n, b) # rs) i = (if i < s + n then b else run_at (s + n) rs i)"

definition ctype_runs :: "(nat \<times> u8) list" where
  "ctype_runs = [(1, 0), (9, C_C), (5, C_C OR C_S), (18, C_C), (1, C_S OR C_SP), (15, C_P), (10, C_D), (7, C_P),
     (6, C_U OR C_X), (20, C_U), (6, C_P), (6, C_L OR C_X), (20, C_L), (4, C_P), (1, C_C), (128, 0)]"

lemma ctype_table_runs: "ctype_table = concat (map (\<lambda>(n, b). replicate n b) ctype_runs)"
  by (simp add: ctype_table_def ctype_runs_def numeral_eq_Suc)

lemma concat_runs_nth:
  "s \<le> i \<Longrightarrow> i < s + sum_list (map fst rs) \<Longrightarrow> concat (map (\<lambda>(n, b). replicate n b) rs) ! (i - s) = run_at s rs i"
proof (induction rs arbitrary: s)
  case (Cons r rs)
  obtain n b where "r = (n, b)" by (cases r)
  then show ?case using Cons.IH [of "s + n"] Cons.prems by (auto simp: nth_append)
qed simp

lemma ctype_bits_runs: "ctype_bits c = run_at 0 ctype_runs (unat c + 1)"
proof -
  have "unat c + 1 < sum_list (map fst ctype_runs)"
    using unsigned_less [of c, where ?'a = nat] by (simp add: ctype_runs_def)
  then show ?thesis unfolding ctype_bits_def ctype_table_runs
    using concat_runs_nth [of 0 "unat c + 1" ctype_runs] by simp
qed

lemmas ctype_macros = isalnum_def isalpha_def iscntrl_def isdigit_def isgraph_def islower_def isprint_def
  ispunct_def isspace_def isupper_def isxdigit_def

text \<open>Each class macro over the number of the character.\<close>

lemma ctype_bits_ranges:
  "unat c = n \<Longrightarrow> ctype_bits c =
     (if n < 9 then C_C else if n < 14 then C_C OR C_S else if n < 32 then C_C else if n < 33 then C_S OR C_SP
      else if n < 48 then C_P else if n < 58 then C_D else if n < 65 then C_P else if n < 71 then C_U OR C_X
      else if n < 91 then C_U else if n < 97 then C_P else if n < 103 then C_L OR C_X else if n < 123 then C_L
      else if n < 127 then C_P else if n < 128 then C_C else 0)"
  by (simp add: ctype_bits_runs ctype_runs_def)

lemma ctype_ranges:
  assumes "unat c = n"
  shows "isupper c \<longleftrightarrow> 65 \<le> n \<and> n \<le> 90" "islower c \<longleftrightarrow> 97 \<le> n \<and> n \<le> 122"
    "isdigit c \<longleftrightarrow> 48 \<le> n \<and> n \<le> 57" "isspace c \<longleftrightarrow> 9 \<le> n \<and> n \<le> 13 \<or> n = 32"
    "iscntrl c \<longleftrightarrow> n \<le> 31 \<or> n = 127" "isgraph c \<longleftrightarrow> 33 \<le> n \<and> n \<le> 126"
    "isprint c \<longleftrightarrow> 32 \<le> n \<and> n \<le> 126"
    "isalpha c \<longleftrightarrow> isupper c \<or> islower c" "isalnum c \<longleftrightarrow> isupper c \<or> islower c \<or> isdigit c"
    "ispunct c \<longleftrightarrow> isgraph c \<and> \<not> isalnum c"
    "isxdigit c \<longleftrightarrow> 48 \<le> n \<and> n \<le> 57 \<or> 65 \<le> n \<and> n \<le> 70 \<or> 97 \<le> n \<and> n \<le> 102"
  unfolding ctype_macros ctype_bits_ranges [OF assms]
  by (simp_all add: C_U_def C_L_def C_D_def C_C_def C_P_def C_S_def C_X_def C_SP_def split: if_split)

text \<open>
  Each class macro holds exactly on the ASCII range of its class, no byte above 127 is in any
  class, and \<open>tolower\<close> and \<open>toupper\<close> are the reference case conversions.
\<close>

lemma ctype_is_ascii:
  "isupper c = in_range 65 90 c \<and> islower c = in_range 97 122 c \<and> isdigit c = in_range 48 57 c \<and>
   isalpha c = (isupper c \<or> islower c) \<and> isalnum c = (isalpha c \<or> isdigit c) \<and>
   isspace c = (in_range 9 13 c \<or> c = 32) \<and> iscntrl c = (in_range 0 31 c \<or> c = 127) \<and>
   isgraph c = in_range 33 126 c \<and> isprint c = in_range 32 126 c \<and>
   ispunct c = (isgraph c \<and> (isalnum c = False)) \<and>
   isxdigit c = (isdigit c \<or> in_range 65 70 c \<or> in_range 97 102 c) \<and>
   tolower c = (if in_range 65 90 c then c + 32 else c) \<and>
   toupper c = (if in_range 97 122 c then c - 32 else c)"
proof -
  obtain n where n: "unat c = n" by simp
  have eq: "c = 32 \<longleftrightarrow> n = 32" "c = 127 \<longleftrightarrow> n = 127" using n by (auto simp: word_unat_eq_iff)
  show ?thesis by (simp add: ctype_ranges [OF n] in_range_def n eq tolower_def toupper_def)
qed

end
