(* ===== verification/Console.thy ===== *)
theory Console
  imports Ctype
begin

text \<open>
  The text console of driver/console.c: an EGA text screen kept as a window of 25 lines in video
  memory, whose start (\<open>scroll_origin_mem\<close>) moves down one line with every scroll until the end of
  the memory is reached, when the window is copied back to the start; a cursor kept twice, as
  coordinates and as an address; and the parser of escape sequences. Video memory is a map from
  byte addresses; the values written to the ports of the display controller are recorded in order.
\<close>

section \<open>Video memory\<close>

type_synonym vmem = "u32 \<Rightarrow> u8"

definition rd16 :: "vmem \<Rightarrow> u32 \<Rightarrow> u16" where
  "rd16 m a = ucast (m a) OR push_bit 8 (ucast (m (a + 1)))"

definition wr16 :: "u32 \<Rightarrow> u16 \<Rightarrow> vmem \<Rightarrow> vmem" where
  "wr16 a v m = m(a := ucast v, a + 1 := ucast (drop_bit 8 v))"

definition BLANK :: u16 where "BLANK = 0x0720"

section \<open>State\<close>

datatype console_parse_state = NORMAL | ESI | CSI_1 | CSI_2 | CSI_3

record console =
  display_char_per_line :: u8
  size_per_line :: u32
  display_line_nr :: u8
  video_mem_start_addr :: u32
  video_mem_end_addr :: u32
  video_reg_port :: u16
  video_val_port :: u16
  video_type :: u8
  parse_state :: console_parse_state
  scroll_origin_mem :: u32
  scroll_end_mem :: u32
  cur_pos_mem :: u32
  cur_pos_x :: u8
  cur_pos_y :: u8
  saved_cur_pos_x :: u8
  saved_cur_pos_y :: u8
  video :: vmem
  port_log :: "(u16 \<times> u8) list"

definition VIDEO_TYPE_EGAC :: u8 where "VIDEO_TYPE_EGAC = 0x21"

definition out_b :: "u8 \<Rightarrow> u16 \<Rightarrow> console \<Rightarrow> console" where
  "out_b v p s = s\<lparr>port_log := port_log s @ [(p, v)]\<rparr>"

section \<open>The display controller\<close>

definition reg_hi :: "u32 \<Rightarrow> u8" where "reg_hi off = ucast (drop_bit 9 off AND 0xFF)"
definition reg_lo :: "u32 \<Rightarrow> u8" where "reg_lo off = ucast (drop_bit 1 off AND 0xFF)"

definition update_cursor :: "console \<Rightarrow> console" where
  "update_cursor s =
     (let off = cur_pos_mem s - video_mem_start_addr s;
          s1 = out_b 14 (video_reg_port s) s;
          s2 = out_b (reg_hi off) (video_val_port s) s1;
          s3 = out_b 15 (video_reg_port s) s2
      in out_b (reg_lo off) (video_val_port s) s3)"

definition update_scroll :: "console \<Rightarrow> console" where
  "update_scroll s =
     (let off = scroll_origin_mem s - video_mem_start_addr s;
          s1 = out_b 12 (video_reg_port s) s;
          s2 = out_b (reg_hi off) (video_val_port s) s1;
          s3 = out_b 13 (video_reg_port s) s2
      in out_b (reg_lo off) (video_val_port s) s3)"

section \<open>Moving the cursor\<close>

text \<open>The \<open>u8\<close> coordinates are promoted to \<open>int\<close> in comparisons and to 32 bits in addresses.\<close>

definition cur_goto_pos :: "u8 \<Rightarrow> u8 \<Rightarrow> console \<Rightarrow> u32 \<times> console" where
  "cur_goto_pos new_x new_y s =
     (if new_x > display_char_per_line s \<or> new_y > display_line_nr s then (0, s)
      else (1, s\<lparr>cur_pos_x := new_x, cur_pos_y := new_y,
                 cur_pos_mem := scroll_origin_mem s + size_per_line s * ucast new_y + ucast new_x * 2\<rparr>))"

definition cr :: "console \<Rightarrow> console" where
  "cr s = s\<lparr>cur_pos_mem := cur_pos_mem s - ucast (cur_pos_x s) * 2, cur_pos_x := 0\<rparr>"

section \<open>Scrolling\<close>

text \<open>\<open>for (i = 0; i < n; i++) f i;\<close> over video memory, and the two loop bodies of the scrolls.\<close>

definition copy_cell :: "u32 \<Rightarrow> u32 \<Rightarrow> nat \<Rightarrow> vmem \<Rightarrow> vmem" where
  "copy_cell dst src i m = wr16 (dst + 2 * of_nat i) (rd16 m (src + 2 * of_nat i)) m"

definition blank_cell :: "u32 \<Rightarrow> nat \<Rightarrow> vmem \<Rightarrow> vmem" where
  "blank_cell dst i m = wr16 (dst + 2 * of_nat i) BLANK m"

definition scroll_up :: "console \<Rightarrow> console" where
  "scroll_up s =
     (let cols = unat (display_char_per_line s); rows = unat (display_line_nr s) in
      if scroll_end_mem s + size_per_line s > video_mem_end_addr s then
        let src = scroll_origin_mem s + size_per_line s;
            v1 = fold (copy_cell (video_mem_start_addr s) src) [0..<cols * (rows - 1)] (video s);
            origin = video_mem_start_addr s;
            end_mem = origin + size_per_line s * ucast (display_line_nr s);
            v2 = fold (blank_cell (end_mem - size_per_line s)) [0..<cols] v1
        in update_scroll (s\<lparr>video := v2, scroll_origin_mem := origin, scroll_end_mem := end_mem,
             cur_pos_mem := origin + ucast (cur_pos_y s) * size_per_line s + ucast (cur_pos_x s) * 2\<rparr>)
      else
        update_scroll (s\<lparr>video := fold (blank_cell (scroll_end_mem s)) [0..<cols] (video s),
          scroll_origin_mem := scroll_origin_mem s + size_per_line s,
          scroll_end_mem := scroll_end_mem s + size_per_line s,
          cur_pos_mem := cur_pos_mem s + size_per_line s\<rparr>))"

definition scroll_down :: "console \<Rightarrow> console" where
  "scroll_down s =
     (let cols = unat (display_char_per_line s); rows = unat (display_line_nr s);
          v1 = fold (copy_cell (scroll_origin_mem s + 2 * of_nat cols) (scroll_origin_mem s))
                 (rev [0..<cols * (rows - 1)]) (video s)
      in s\<lparr>video := fold (blank_cell (scroll_origin_mem s)) [0..<cols] v1\<rparr>)"

definition lf :: "console \<Rightarrow> console" where
  "lf s = (if unat (cur_pos_y s) + 1 \<le> unat (display_line_nr s) - 1
           then s\<lparr>cur_pos_y := cur_pos_y s + 1, cur_pos_mem := cur_pos_mem s + size_per_line s\<rparr>
           else scroll_up s)"

definition ri :: "console \<Rightarrow> console" where
  "ri s = (if cur_pos_y s > 0
           then s\<lparr>cur_pos_y := cur_pos_y s - 1, cur_pos_mem := cur_pos_mem s - size_per_line s\<rparr>
           else scroll_down s)"

definition del :: "console \<Rightarrow> console" where
  "del s = (if cur_pos_x s = 0 then s
            else s\<lparr>cur_pos_x := cur_pos_x s - 1, cur_pos_mem := cur_pos_mem s - 2,
                   video := wr16 (cur_pos_mem s - 2) BLANK (video s)\<rparr>)"

section \<open>The terminal structure\<close>

text \<open>
  \<open>struct termios\<close> and \<open>struct tty_struct\<close> of include/termios.h and include/linux/tty.h. The function
  pointer \<open>write\<close> is left out: both terminals of the kernel are initialised with
  \<open>console_write\<close> and nothing assigns it.
\<close>

record termios =
  c_iflag :: u32
  c_oflag :: u32
  c_cflag :: u32
  c_lflag :: u32
  c_line :: u8
  c_cc :: "u8 list"

record tty_struct =
  tio :: termios
  pgrp :: u32
  stopped :: u32
  read_q :: tty_queue
  write_q :: tty_queue
  secondary :: tty_queue

definition V_ERASE :: nat where "V_ERASE = 2"

text \<open>
  A \<open>char\<close> is signed: compared with a control character (a \<open>uint8_t\<close>) or with a number it is
  promoted with its sign.
\<close>

definition ch_eq :: "char8 \<Rightarrow> u8 \<Rightarrow> bool" where "ch_eq c k \<longleftrightarrow> sint c = uint k"

section \<open>Interpreting one character\<close>

definition displayable :: "char8 \<Rightarrow> bool" where "displayable c \<longleftrightarrow> sint c > 0x1F \<and> sint c < 0x7F"

definition put_glyph :: "char8 \<Rightarrow> console \<Rightarrow> console" where
  "put_glyph c s =
     (let s1 = (if cur_pos_x s \<ge> display_char_per_line s
                then lf (s\<lparr>cur_pos_x := cur_pos_x s - display_char_per_line s,
                           cur_pos_mem := cur_pos_mem s - size_per_line s\<rparr>)
                else s)
      in s1\<lparr>video := wr16 (cur_pos_mem s1) (0x0700 + ucast c) (video s1),
            cur_pos_x := cur_pos_x s1 + 1, cur_pos_mem := cur_pos_mem s1 + 2\<rparr>)"

definition tab :: "console \<Rightarrow> console" where
  "tab s =
     (let off = 8 - (cur_pos_x s AND 7) in
      if unat (cur_pos_x s) + unat off > unat (display_char_per_line s)
      then lf (s\<lparr>cur_pos_x := cur_pos_x s - (display_char_per_line s - off),
                 cur_pos_mem := cur_pos_mem s - (ucast (display_char_per_line s) - ucast off) * 2\<rparr>)
      else s\<lparr>cur_pos_x := cur_pos_x s + off, cur_pos_mem := cur_pos_mem s + ucast off * 2\<rparr>)"

definition normal_char :: "u8 \<Rightarrow> char8 \<Rightarrow> console \<Rightarrow> console" where
  "normal_char erase c s =
     (if displayable c then put_glyph c s
      else if c = 0x1B then s\<lparr>parse_state := ESI\<rparr>
      else if c = 0x0A \<or> c = 0x0B \<or> c = 0x0C then lf s
      else if c = 0x0D then cr s
      else if ch_eq c erase then del s
      else if c = 0x8 then
        (if cur_pos_x s \<noteq> 0 then s\<lparr>cur_pos_x := cur_pos_x s - 1, cur_pos_mem := cur_pos_mem s - 2\<rparr> else s)
      else if c = 0x9 then tab s
      else s)"

definition esc_char :: "char8 \<Rightarrow> console \<Rightarrow> console" where
  "esc_char c s0 =
     (let s = s0\<lparr>parse_state := NORMAL\<rparr> in
      if c = 0x5B then s\<lparr>parse_state := CSI_1\<rparr>
      else if c = 0x45 then snd (cur_goto_pos 0 (cur_pos_y s + 1) s)
      else if c = 0x44 then lf s
      else if c = 0x4D then ri s
      else if c = 0x5A then s
      else if c = 0x37 then s\<lparr>saved_cur_pos_x := cur_pos_x s, saved_cur_pos_y := cur_pos_y s\<rparr>
      else if c = 0x38 then snd (cur_goto_pos (saved_cur_pos_x s) (saved_cur_pos_y s) s)
      else s)"

definition console_char :: "u8 \<Rightarrow> char8 \<Rightarrow> console \<Rightarrow> console" where
  "console_char erase c s =
     (case parse_state s of
        NORMAL \<Rightarrow> normal_char erase c s
      | ESI \<Rightarrow> esc_char c s
      | CSI_1 \<Rightarrow> s
      | CSI_2 \<Rightarrow> s
      | CSI_3 \<Rightarrow> s)"

section \<open>Draining the output queue\<close>

fun write_loop :: "nat \<Rightarrow> tty_struct \<times> console \<Rightarrow> tty_struct \<times> console" where
  "write_loop 0 (t, s) = (t, s)"
| "write_loop (Suc n) (t, s) =
     (let (c, q) = q_get (write_q t)
      in write_loop n (t\<lparr>write_q := q\<rparr>, console_char (c_cc (tio t) ! V_ERASE) c s))"

definition console_write :: "tty_struct \<times> console \<Rightarrow> tty_struct \<times> console" where
  "console_write ts =
     (let (t, s) = write_loop (unat (READ_SPACE (write_q (fst ts)))) ts in (t, update_cursor s))"

section \<open>Initialisation\<close>

text \<open>
  \<open>console_init\<close> reads the line width and the cursor position that setup.s saved from the BIOS,
  here the arguments. \<open>boot_console\<close> is the state of the static variables before it: all zero but the
  number of lines.
\<close>

definition boot_console :: "vmem \<Rightarrow> console" where
  "boot_console m = \<lparr>display_char_per_line = 0, size_per_line = 0, display_line_nr = 25,
     video_mem_start_addr = 0, video_mem_end_addr = 0, video_reg_port = 0, video_val_port = 0, video_type = 0,
     parse_state = NORMAL, scroll_origin_mem = 0, scroll_end_mem = 0, cur_pos_mem = 0,
     cur_pos_x = 0, cur_pos_y = 0, saved_cur_pos_x = 0, saved_cur_pos_y = 0, video = m, port_log = []\<rparr>"

definition brief_info :: "u8 list" where "brief_info = [0x45, 0x47, 0x41, 0x43]"

definition console_init :: "u8 \<Rightarrow> u8 \<Rightarrow> u8 \<Rightarrow> console \<Rightarrow> console" where
  "console_init bios_cols bios_x bios_y s =
     (let cols = ucast bios_cols :: u32;
          start = 0xB8000;
          m = fold (\<lambda>i m. m(start + cols * 2 - 4 * 2 + 2 * of_nat i := brief_info ! i)) [0..<4] (video s);
          s1 = s\<lparr>display_char_per_line := bios_cols, size_per_line := cols * 2,
                 video_mem_start_addr := start, video_mem_end_addr := 0xBC000,
                 video_reg_port := 0x3D4, video_val_port := 0x3D5, video_type := VIDEO_TYPE_EGAC,
                 video := m, scroll_origin_mem := start,
                 scroll_end_mem := start + cols * 2 * ucast (display_line_nr s)\<rparr>
      in snd (cur_goto_pos bios_x bios_y s1))"

end
