(* ===== verification/Terminal.thy ===== *)
theory Terminal
  imports Console
begin

text \<open>
  The specification of the console and the proof that driver/console.c meets it: a terminal is a
  grid of glyphs with a cursor; \<open>view\<close> reads it off the state of the driver. Under the invariant
  \<open>console_at\<close> every routine of the driver implements the terminal operation of its name, and so
  does \<open>console_write\<close> on a whole output queue.
\<close>

section \<open>Video memory by cells\<close>

text \<open>Cell \<open>n\<close> of video memory is at \<open>vaddr n\<close>; every address the driver forms is one of these.\<close>

definition vaddr :: "nat \<Rightarrow> u32" where "vaddr n = of_nat (0xB8000 + 2 * n)"

definition cell :: "vmem \<Rightarrow> nat \<Rightarrow> u16" where "cell m n = rd16 m (vaddr n)"

lemma vaddr_add [simp]: "vaddr n + 2 * of_nat i = vaddr (n + i)" "vaddr n + 160 = vaddr (n + 80)"
  "vaddr n + 2 = vaddr (Suc n)" "vaddr n + 4000 = vaddr (n + 2000)"
  by (simp_all add: vaddr_def)

lemma vaddr_sub [simp]: "1 \<le> n \<Longrightarrow> vaddr n - 2 = vaddr (n - 1)" "80 \<le> n \<Longrightarrow> vaddr n - 160 = vaddr (n - 80)"
  by (simp_all add: vaddr_def of_nat_diff)

lemma vaddr_sub_cols: "i \<le> n \<Longrightarrow> vaddr n - 2 * of_nat i = vaddr (n - i)"
  by (simp add: vaddr_def of_nat_diff)

lemma vaddr_byte_inj:
  assumes "i < 65536" "j < 65536"
  shows "vaddr i = vaddr j \<longleftrightarrow> i = j" "vaddr i + 1 = vaddr j \<longleftrightarrow> False" "vaddr i = vaddr j + 1 \<longleftrightarrow> False"
proof -
  have succ: "vaddr n + 1 = of_nat (0xB8001 + 2 * n)" for n by (simp add: vaddr_def)
  show "vaddr i = vaddr j \<longleftrightarrow> i = j" unfolding vaddr_def by (subst of_nat_u32_inj) (use assms in auto)
  have odd: "(of_nat (0xB8001 + 2 * m) :: u32) \<noteq> of_nat (0xB8000 + 2 * n)" if "m < 65536" "n < 65536" for m n
  proof -
    have "(of_nat (0xB8001 + 2 * m) :: u32) = of_nat (0xB8000 + 2 * n) \<longleftrightarrow> 0xB8001 + 2 * m = 0xB8000 + 2 * n"
      by (rule of_nat_u32_inj) (use that in simp_all)
    then show ?thesis by presburger
  qed
  show "vaddr i + 1 = vaddr j \<longleftrightarrow> False" "vaddr i = vaddr j + 1 \<longleftrightarrow> False"
    unfolding succ unfolding vaddr_def using odd [of i j] odd [of j i] assms by metis+
qed

lemma rd16_wr16_same: "rd16 (wr16 a v m) a = v"
proof (rule bit_word_eqI)
  fix n assume "n < LENGTH(16)"
  then show "bit (rd16 (wr16 a v m) a) n = bit v n"
    by (auto simp: rd16_def wr16_def bit_simps)
qed

lemma cell_wr16 [simp]:
  "i < 65536 \<Longrightarrow> j < 65536 \<Longrightarrow> cell (wr16 (vaddr i) v m) j = (if j = i then v else cell m j)"
  using vaddr_byte_inj [of i j] vaddr_byte_inj [of j i]
  by (cases "i = j") (auto simp: cell_def rd16_wr16_same, simp add: rd16_def wr16_def)

text \<open>The loops of the scrolls, over cells.\<close>

lemma cell_blank_loop:
  "j < 65536 \<Longrightarrow> d + n \<le> 65536 \<Longrightarrow>
     cell (fold (blank_cell (vaddr d)) [0..<n] m) j = (if d \<le> j \<and> j < d + n then BLANK else cell m j)"
  by (induction n) (auto simp: blank_cell_def)

lemma cell_copy_down_loop:
  assumes "d \<le> src" "src + n \<le> 65536" "j < 65536"
  shows "cell (fold (copy_cell (vaddr d) (vaddr src)) [0..<n] m) j =
    (if d \<le> j \<and> j < d + n then cell m (src + (j - d)) else cell m j)"
  using assms
proof (induction n arbitrary: j)
  case (Suc n)
  define m' where "m' = fold (copy_cell (vaddr d) (vaddr src)) [0..<n] m"
  have IH: "cell m' j = (if d \<le> j \<and> j < d + n then cell m (src + (j - d)) else cell m j)" if "j < 65536" for j
    unfolding m'_def using Suc.IH [of j] Suc.prems that by simp
  have "cell (copy_cell (vaddr d) (vaddr src) n m') j = (if j = d + n then cell m' (src + n) else cell m' j)"
    using Suc.prems by (simp add: copy_cell_def flip: cell_def)
  moreover have "cell m' (src + n) = cell m (src + n)" using Suc.prems IH [of "src + n"] by auto
  ultimately show ?case using Suc.prems by (auto simp: IH simp flip: m'_def)
qed auto

lemma cell_copy_up_loop:
  assumes "src \<le> d" "d + n \<le> 65536" "j < 65536"
  shows "cell (fold (copy_cell (vaddr d) (vaddr src)) (rev [0..<n]) m) j =
    (if d \<le> j \<and> j < d + n then cell m (src + (j - d)) else cell m j)"
  using assms
proof (induction n arbitrary: j m)
  case (Suc n)
  define m' where "m' = copy_cell (vaddr d) (vaddr src) n m"
  have m': "cell m' j = (if j = d + n then cell m (src + n) else cell m j)" if "j < 65536" for j
    using Suc.prems that by (simp add: m'_def copy_cell_def flip: cell_def)
  have "cell (fold (copy_cell (vaddr d) (vaddr src)) (rev [0..<n]) m') j =
      (if d \<le> j \<and> j < d + n then cell m' (src + (j - d)) else cell m' j)"
    using Suc by simp
  then show ?case using Suc.prems by (auto simp: m' simp flip: m'_def)
qed auto

section \<open>The screen as a grid\<close>

definition grid :: "(nat \<Rightarrow> u16) \<Rightarrow> u16 list list" where
  "grid f = map (\<lambda>r. map (\<lambda>c. f (80 * r + c)) [0..<80]) [0..<25]"

definition blank_row :: "u16 list" where "blank_row = replicate 80 BLANK"

lemma grid_cong: "(\<And>j. j < 2000 \<Longrightarrow> f j = g j) \<Longrightarrow> grid f = grid g"
  by (simp add: grid_def)

lemma length_grid [simp]: "length (grid f) = 25" by (simp add: grid_def)

lemma grid_nth: "r < 25 \<Longrightarrow> grid f ! r = map (\<lambda>c. f (80 * r + c)) [0..<80]"
  by (simp add: grid_def del: upt_rec_numeral)

lemma grid_eqI:
  assumes "length g = 25" "\<And>r. r < 25 \<Longrightarrow> length (g ! r) = 80"
    "\<And>r c. r < 25 \<Longrightarrow> c < 80 \<Longrightarrow> f (80 * r + c) = g ! r ! c"
  shows "grid f = g"
proof (rule nth_equalityI)
  fix r assume "r < length (grid f)"
  then have r: "r < 25" by simp
  show "grid f ! r = g ! r"
    by (rule nth_equalityI) (use assms r in \<open>simp_all add: grid_nth del: upt_rec_numeral\<close>)
qed (use assms in simp)

lemma grid_put:
  assumes "c < 80"
  shows "grid (f(80 * r + c := g)) = (grid f)[r := (grid f ! r)[c := g]]"
proof (rule grid_eqI)
  fix r' c' assume rc: "r' < (25 :: nat)" "c' < (80 :: nat)"
  have eq: "80 * r' + c' = 80 * r + c \<longleftrightarrow> r' = r \<and> c' = c"
    using assms rc by (cases r' r rule: linorder_cases) linarith+
  have row: "grid f ! r' ! c' = f (80 * r' + c')" using rc by (simp add: grid_nth del: upt_rec_numeral)
  have len: "length (grid f ! r') = 80" using rc by (simp add: grid_nth del: upt_rec_numeral)
  show "(f(80 * r + c := g)) (80 * r' + c') = (grid f)[r := (grid f ! r)[c := g]] ! r' ! c'"
    unfolding fun_upd_apply eq using rc assms len row by (cases "r' = r"; cases "c' = c") auto
next
  fix r' assume "r' < (25 :: nat)"
  then have "length (grid f ! r') = 80" by (simp add: grid_nth del: upt_rec_numeral)
  then show "length ((grid f)[r := (grid f ! r)[c := g]] ! r') = 80" using \<open>r' < 25\<close> by (cases "r' = r") simp_all
qed simp

lemma grid_scroll:
  "grid (\<lambda>j. if j < 1920 then f (j + 80) else BLANK) = tl (grid f) @ [blank_row]"
  by (rule grid_eqI) (auto simp: nth_append nth_tl grid_nth blank_row_def add.commute algebra_simps simp del: upt_rec_numeral)

lemma grid_scroll_back:
  "grid (\<lambda>j. if j < 80 then BLANK else f (j - 80)) = blank_row # butlast (grid f)"
proof (rule grid_eqI)
  fix r c assume rc: "r < (25 :: nat)" "c < (80 :: nat)"
  show "(if 80 * r + c < 80 then BLANK else f (80 * r + c - 80)) = (blank_row # butlast (grid f)) ! r ! c"
  proof (cases r)
    case 0
    then show ?thesis using rc by (simp add: blank_row_def)
  next
    case (Suc r')
    then show ?thesis using rc by (simp add: nth_butlast grid_nth del: upt_rec_numeral)
  qed
qed (auto simp: nth_Cons nth_butlast grid_nth blank_row_def simp del: upt_rec_numeral split: nat.split)

section \<open>The terminal a user sees\<close>

text \<open>
  The specification: a grid of 25 rows of 80 glyphs, a cursor that may rest one column beyond the
  last and one row below the last, and the state of the escape parser. A glyph written below the
  last row is not seen.
\<close>

record terminal =
  glyphs :: "u16 list list"
  t_col :: nat
  t_row :: nat
  t_saved :: "nat \<times> nat"
  t_mode :: console_parse_state

definition t_lf :: "terminal \<Rightarrow> terminal" where
  "t_lf t = (if t_row t < 24 then t\<lparr>t_row := t_row t + 1\<rparr> else t\<lparr>glyphs := tl (glyphs t) @ [blank_row]\<rparr>)"

definition t_ri :: "terminal \<Rightarrow> terminal" where
  "t_ri t = (if 0 < t_row t then t\<lparr>t_row := t_row t - 1\<rparr> else t\<lparr>glyphs := blank_row # butlast (glyphs t)\<rparr>)"

definition t_write :: "u16 \<Rightarrow> terminal \<Rightarrow> terminal" where
  "t_write g t = t\<lparr>glyphs := (glyphs t)[t_row t := (glyphs t ! t_row t)[t_col t := g]]\<rparr>"

definition t_put :: "char8 \<Rightarrow> terminal \<Rightarrow> terminal" where
  "t_put c t =
     (let t1 = (if 80 \<le> t_col t then t_lf (t\<lparr>t_col := 0\<rparr>) else t);
          t2 = t_write (0x0700 + ucast c) t1
      in t2\<lparr>t_col := t_col t2 + 1\<rparr>)"

definition t_tab :: "terminal \<Rightarrow> terminal" where
  "t_tab t = (if t_col t = 80 then t_lf (t\<lparr>t_col := 8\<rparr>) else t\<lparr>t_col := (t_col t div 8 + 1) * 8\<rparr>)"

definition t_del :: "terminal \<Rightarrow> terminal" where
  "t_del t = (if t_col t = 0 then t else t_write BLANK (t\<lparr>t_col := t_col t - 1\<rparr>))"

definition t_goto :: "nat \<Rightarrow> nat \<Rightarrow> terminal \<Rightarrow> terminal" where
  "t_goto x y t = (if 80 < x \<or> 25 < y then t else t\<lparr>t_col := x, t_row := y\<rparr>)"

definition t_normal :: "u8 \<Rightarrow> char8 \<Rightarrow> terminal \<Rightarrow> terminal" where
  "t_normal erase c t =
     (if displayable c then t_put c t
      else if c = 0x1B then t\<lparr>t_mode := ESI\<rparr>
      else if c \<in> {0x0A, 0x0B, 0x0C} then t_lf t
      else if c = 0x0D then t\<lparr>t_col := 0\<rparr>
      else if ch_eq c erase then t_del t
      else if c = 8 then t\<lparr>t_col := t_col t - 1\<rparr>
      else if c = 9 then t_tab t
      else t)"

definition t_esc :: "char8 \<Rightarrow> terminal \<Rightarrow> terminal" where
  "t_esc c t0 =
     (let t = t0\<lparr>t_mode := NORMAL\<rparr> in
      if c = 0x5B then t\<lparr>t_mode := CSI_1\<rparr>
      else if c = 0x45 then t_goto 0 (t_row t + 1) t
      else if c = 0x44 then t_lf t
      else if c = 0x4D then t_ri t
      else if c = 0x37 then t\<lparr>t_saved := (t_col t, t_row t)\<rparr>
      else if c = 0x38 then t_goto (fst (t_saved t)) (snd (t_saved t)) t
      else t)"

definition t_char :: "u8 \<Rightarrow> char8 \<Rightarrow> terminal \<Rightarrow> terminal" where
  "t_char erase c t =
     (if t_mode t = NORMAL then t_normal erase c t else if t_mode t = ESI then t_esc c t else t)"

definition view :: "console \<Rightarrow> terminal" where
  "view s = \<lparr>glyphs = grid (\<lambda>j. rd16 (video s) (scroll_origin_mem s + 2 * of_nat j)),
             t_col = unat (cur_pos_x s), t_row = unat (cur_pos_y s),
             t_saved = (unat (saved_cur_pos_x s), unat (saved_cur_pos_y s)), t_mode = parse_state s\<rparr>"

section \<open>The console invariant\<close>

definition console_at :: "console \<Rightarrow> nat \<Rightarrow> nat \<Rightarrow> nat \<Rightarrow> bool" where
  "console_at s k x y \<longleftrightarrow>
     k \<le> 77 \<and> x \<le> 80 \<and> y \<le> 25 \<and>
     display_char_per_line s = 80 \<and> size_per_line s = 160 \<and> display_line_nr s = 25 \<and>
     video_mem_start_addr s = vaddr 0 \<and> video_mem_end_addr s = vaddr 8192 \<and>
     scroll_origin_mem s = vaddr (80 * k) \<and> scroll_end_mem s = vaddr (80 * k + 2000) \<and>
     cur_pos_mem s = vaddr (80 * k + 80 * y + x) \<and> cur_pos_x s = of_nat x \<and> cur_pos_y s = of_nat y"

text \<open>The bytes the console may write: its 16 KB and, with the cursor below a screen at their end, the 96 bytes after them.\<close>

definition video_bytes :: "u32 set" where "video_bytes = {a. 0xB8000 \<le> a \<and> a < 0xBC060}"

definition same_outside :: "vmem \<Rightarrow> vmem \<Rightarrow> bool" where
  "same_outside m m' \<longleftrightarrow> (\<forall>a. a \<notin> video_bytes \<longrightarrow> m' a = m a)"

definition console_ok :: "vmem \<Rightarrow> console \<Rightarrow> bool" where
  "console_ok m s \<longleftrightarrow> (\<exists>k x y. console_at s k x y) \<and> same_outside m (video s)"

lemma same_outside_refl [simp]: "same_outside m m" by (simp add: same_outside_def)

lemma vaddr_video: "n < 8240 \<Longrightarrow> vaddr n \<in> video_bytes \<and> vaddr n + 1 \<in> video_bytes"
proof -
  assume n: "n < 8240"
  have "unat (vaddr n) = 0xB8000 + 2 * n" unfolding vaddr_def by (rule unat_of_nat_small) (use n in simp)
  moreover have "vaddr n + 1 = of_nat (0xB8001 + 2 * n)" by (simp add: vaddr_def)
  then have "unat (vaddr n + 1) = 0xB8001 + 2 * n" by (simp only:) (rule unat_of_nat_small, use n in simp)
  ultimately show ?thesis using n by (simp add: video_bytes_def word_le_nat_alt word_less_nat_alt)
qed

lemma same_outside_wr16: "n < 8240 \<Longrightarrow> same_outside m m' \<Longrightarrow> same_outside m (wr16 (vaddr n) v m')"
  using vaddr_video [of n] by (auto simp: same_outside_def wr16_def)

lemma same_outside_fold:
  "(\<And>i m'. i \<in> set is \<Longrightarrow> same_outside m m' \<Longrightarrow> same_outside m (f i m')) \<Longrightarrow> same_outside m m' \<Longrightarrow> same_outside m (fold f is m')"
  by (induction "is" arbitrary: m') simp_all

lemma same_outside_blank: "d + n \<le> 8240 \<Longrightarrow> same_outside m m' \<Longrightarrow> same_outside m (fold (blank_cell (vaddr d)) [0..<n] m')"
  by (rule same_outside_fold) (auto simp: blank_cell_def intro: same_outside_wr16)

lemma same_outside_copy:
  "d + n \<le> 8240 \<Longrightarrow> set is \<subseteq> {..<n} \<Longrightarrow> same_outside m m' \<Longrightarrow> same_outside m (fold (copy_cell (vaddr d) a) is m')"
  by (rule same_outside_fold) (auto simp: copy_cell_def intro!: same_outside_wr16)

section \<open>The console implements the terminal\<close>

lemma unat_u8: "n < 256 \<Longrightarrow> unat (of_nat n :: u8) = n"
  by (simp only: unat_of_nat) simp

lemma console_at_fields:
  assumes "console_at s k x y"
  shows "k \<le> 77" "x \<le> 80" "y \<le> 25" "display_char_per_line s = 80" "size_per_line s = 160" "display_line_nr s = 25"
    "video_mem_start_addr s = vaddr 0" "video_mem_end_addr s = vaddr 8192" "scroll_origin_mem s = vaddr (80 * k)"
    "scroll_end_mem s = vaddr (80 * k + 2000)" "cur_pos_mem s = vaddr (80 * k + 80 * y + x)"
    "cur_pos_x s = of_nat x" "cur_pos_y s = of_nat y" "unat (cur_pos_x s) = x" "unat (cur_pos_y s) = y"
  using assms unfolding console_at_def by (simp_all add: unat_u8)

lemma view_at:
  "console_at s k x y \<Longrightarrow> view s = \<lparr>glyphs = grid (\<lambda>j. cell (video s) (80 * k + j)), t_col = x, t_row = y,
     t_saved = (unat (saved_cur_pos_x s), unat (saved_cur_pos_y s)), t_mode = parse_state s\<rparr>"
  using console_at_fields(14,15) [of s k x y] by (simp add: view_def console_at_fields(9) cell_def)

lemma view_at_pos: "console_at s k x y \<Longrightarrow> t_col (view s) = x" "console_at s k x y \<Longrightarrow> t_row (view s) = y"
  by (simp_all add: view_at)

lemma port_log_irrelevant [simp]:
  "console_at (s\<lparr>port_log := l\<rparr>) k x y = console_at s k x y" "view (s\<lparr>port_log := l\<rparr>) = view s"
  by (simp_all add: console_at_def view_def)

lemma update_scroll_eq: "\<exists>l. update_scroll s = s\<lparr>port_log := l\<rparr>"
  by (simp add: update_scroll_def out_b_def Let_def) blast

lemma update_cursor_eq: "\<exists>l. update_cursor s = s\<lparr>port_log := l\<rparr>"
  by (simp add: update_cursor_def out_b_def Let_def) blast

lemma update_ports [simp]:
  "console_at (update_scroll s) k x y = console_at s k x y" "view (update_scroll s) = view s"
  "video (update_scroll s) = video s"
  "console_at (update_cursor s) k x y = console_at s k x y" "view (update_cursor s) = view s"
  "video (update_cursor s) = video s"
  using update_scroll_eq [of s] update_cursor_eq [of s] by auto

text \<open>One scroll: the window moves by a line, or is copied to the start of video memory when it is at the end.\<close>

lemma window_at_end: "k \<le> 77 \<Longrightarrow> vaddr (80 * k + 2000) + 160 > vaddr 8192 \<longleftrightarrow> k = 77"
proof -
  assume k: "k \<le> 77"
  have "unat (vaddr n) = 0xB8000 + 2 * n" if "n < 65536" for n
    unfolding vaddr_def by (rule unat_of_nat_small) (use that in simp)
  then show ?thesis using k by (auto simp: word_less_nat_alt)
qed

lemma scroll_up_at:
  assumes "console_at s k x y" "same_outside m (video s)"
  shows "console_at (scroll_up s) (if k = 77 then 0 else Suc k) x y \<and> same_outside m (video (scroll_up s)) \<and>
    view (scroll_up s) = (view s)\<lparr>glyphs := tl (glyphs (view s)) @ [blank_row]\<rparr>"
proof (cases "k = 77")
  case False
  note s = console_at_fields [OF assms(1)]
  have "\<not> vaddr (80 * k + 2000) + 160 > vaddr 8192" using window_at_end [OF s(1)] False by simp
  then have eq: "scroll_up s = update_scroll (s\<lparr>video := fold (blank_cell (vaddr (80 * k + 2000))) [0..<80] (video s),
      scroll_origin_mem := vaddr (80 * k + 80), scroll_end_mem := vaddr (2080 + 80 * k), cur_pos_mem := vaddr (80 * k + 80 * y + x + 80)\<rparr>)"
    (is "_ = update_scroll ?s")
    by (simp add: scroll_up_def s Let_def del: upt_rec_numeral)
  have at: "console_at ?s (Suc k) x y" using assms(1) False by (simp add: console_at_def algebra_simps)
  have "cell (video ?s) (80 * Suc k + j) = (if j < 1920 then cell (video s) (80 * k + (j + 80)) else BLANK)" if "j < 2000" for j
    using s(1) that by (simp add: cell_blank_loop algebra_simps del: upt_rec_numeral)
  then have "grid (\<lambda>j. cell (video ?s) (80 * Suc k + j)) = grid (\<lambda>j. if j < 1920 then cell (video s) (80 * k + (j + 80)) else BLANK)"
    by (rule grid_cong)
  then have "view ?s = (view s)\<lparr>glyphs := tl (glyphs (view s)) @ [blank_row]\<rparr>"
    unfolding view_at [OF at] view_at [OF assms(1)] using grid_scroll [of "\<lambda>j. cell (video s) (80 * k + j)"] by simp
  then show ?thesis using at False assms(2) s(1) unfolding eq by (simp add: same_outside_blank del: upt_rec_numeral)
next
  case True
  note s = console_at_fields [OF assms(1)]
  have "vaddr (80 * k + 2000) + 160 > vaddr 8192" using window_at_end [OF s(1)] True by simp
  moreover define v1 where "v1 = fold (copy_cell (vaddr 0) (vaddr (80 * k + 80))) [0..<1920] (video s)"
  ultimately have eq: "scroll_up s = update_scroll (s\<lparr>video := fold (blank_cell (vaddr 1920)) [0..<80] v1,
      scroll_origin_mem := vaddr 0, scroll_end_mem := vaddr 2000, cur_pos_mem := vaddr (80 * y + x)\<rparr>)"
    (is "_ = update_scroll ?s")
  proof -
    have "3840 + vaddr 0 = vaddr 1920" "vaddr 0 + 160 * 25 = vaddr 2000" by (simp_all add: vaddr_def)
    moreover have "vaddr 0 + of_nat y * 160 + of_nat x * 2 = vaddr (80 * y + x)" by (simp add: vaddr_def algebra_simps)
    moreover have "(ucast (of_nat n :: u8) :: u32) = of_nat n" if "n < 256" for n
      using that by (metis unat_u8 of_nat_unat)
    ultimately show ?thesis
      using \<open>vaddr (80 * k + 2000) + 160 > vaddr 8192\<close> s(1,2,3)
      by (simp add: scroll_up_def s(4-13) Let_def v1_def del: upt_rec_numeral)
  qed
  have at: "console_at ?s 0 x y" using assms(1) True by (simp add: console_at_def algebra_simps)
  have "cell (video ?s) j = (if j < 1920 then cell (video s) (80 * k + (j + 80)) else BLANK)" if "j < 2000" for j
    using that True by (simp add: cell_blank_loop cell_copy_down_loop v1_def algebra_simps del: upt_rec_numeral)
  then have "grid (\<lambda>j. cell (video ?s) (80 * 0 + j)) = grid (\<lambda>j. if j < 1920 then cell (video s) (80 * k + (j + 80)) else BLANK)"
    by (intro grid_cong) simp
  then have "view ?s = (view s)\<lparr>glyphs := tl (glyphs (view s)) @ [blank_row]\<rparr>"
    unfolding view_at [OF at] view_at [OF assms(1)] using grid_scroll [of "\<lambda>j. cell (video s) (80 * k + j)"] by simp
  moreover have "same_outside m (video ?s)" using assms(2)
    by (simp add: v1_def del: upt_rec_numeral) (intro same_outside_blank same_outside_copy [where n = 1920], auto)
  ultimately show ?thesis using at True unfolding eq by simp
qed

lemma ucast_u8_nat: "n < 256 \<Longrightarrow> (ucast (of_nat n :: u8) :: u32) = of_nat n"
  by (metis unat_u8 of_nat_unat)

lemma scroll_down_at:
  assumes "console_at s k x y" "same_outside m (video s)"
  shows "console_at (scroll_down s) k x y \<and> same_outside m (video (scroll_down s)) \<and>
    view (scroll_down s) = (view s)\<lparr>glyphs := blank_row # butlast (glyphs (view s))\<rparr>"
proof -
  note s = console_at_fields [OF assms(1)]
  define v1 where "v1 = fold (copy_cell (vaddr (80 * k + 80)) (vaddr (80 * k))) (rev [0..<1920]) (video s)"
  have eq: "scroll_down s = s\<lparr>video := fold (blank_cell (vaddr (80 * k))) [0..<80] v1\<rparr>" (is "_ = ?s")
    by (simp add: scroll_down_def s Let_def v1_def del: upt_rec_numeral)
  have at: "console_at ?s k x y" using assms(1) by (simp add: console_at_def)
  have "cell (video ?s) (80 * k + j) = (if j < 80 then BLANK else cell (video s) (80 * k + (j - 80)))" if "j < 2000" for j
    using s(1) that by (auto simp: cell_blank_loop cell_copy_up_loop v1_def algebra_simps simp del: upt_rec_numeral)
  then have "grid (\<lambda>j. cell (video ?s) (80 * k + j)) = grid (\<lambda>j. if j < 80 then BLANK else cell (video s) (80 * k + (j - 80)))"
    by (rule grid_cong)
  then have "view ?s = (view s)\<lparr>glyphs := blank_row # butlast (glyphs (view s))\<rparr>"
    unfolding view_at [OF at] view_at [OF assms(1)] using grid_scroll_back [of "\<lambda>j. cell (video s) (80 * k + j)"] by simp
  moreover have "same_outside m (video ?s)" using assms(2) s(1)
    by (simp add: v1_def del: upt_rec_numeral) (intro same_outside_blank same_outside_copy [where n = 1920], auto)
  ultimately show ?thesis using at unfolding eq by simp
qed

text \<open>What an operation of the driver must do: keep the invariant and follow the terminal.\<close>

definition implements :: "(console \<Rightarrow> console) \<Rightarrow> (terminal \<Rightarrow> terminal) \<Rightarrow> bool" where
  "implements f g \<longleftrightarrow> (\<forall>m s. console_ok m s \<longrightarrow> console_ok m (f s) \<and> view (f s) = g (view s))"

lemma implementsI:
  assumes "\<And>m s k x y. console_at s k x y \<Longrightarrow> same_outside m (video s) \<Longrightarrow>
    (\<exists>k' x' y'. console_at (f s) k' x' y') \<and> same_outside m (video (f s)) \<and> view (f s) = g (view s)"
  shows "implements f g"
  using assms unfolding implements_def console_ok_def by blast

lemma implementsD: "implements f g \<Longrightarrow> console_ok m s \<Longrightarrow> console_ok m (f s)"
  "implements f g \<Longrightarrow> console_ok m s \<Longrightarrow> view (f s) = g (view s)"
  by (simp_all add: implements_def)

lemma console_okI: "console_at s k x y \<Longrightarrow> same_outside m (video s) \<Longrightarrow> console_ok m s"
  by (auto simp: console_ok_def)

lemma lf_implements: "implements lf t_lf"
proof (rule implementsI)
  fix m s k x y assume a: "console_at s k x y" "same_outside m (video s)"
  note s = console_at_fields [OF a(1)]
  show "(\<exists>k' x' y'. console_at (lf s) k' x' y') \<and> same_outside m (video (lf s)) \<and> view (lf s) = t_lf (view s)"
  proof (cases "y < 24")
    case True
    then have eq: "lf s = s\<lparr>cur_pos_y := of_nat y + 1, cur_pos_mem := vaddr (80 * k + 80 * y + x + 80)\<rparr>" (is "_ = ?s")
      using s by (simp add: lf_def)
    have "console_at ?s k x (Suc y)" using a(1) True by (simp add: console_at_def algebra_simps)
    then show ?thesis unfolding eq using a True by (auto simp: view_at [OF a(1)] view_at t_lf_def)
  next
    case False
    then have "lf s = scroll_up s" "t_lf (view s) = (view s)\<lparr>glyphs := tl (glyphs (view s)) @ [blank_row]\<rparr>"
      using s(14,15) by (simp_all add: lf_def s(6) t_lf_def view_at [OF a(1)])
    then show ?thesis using scroll_up_at [OF a] by auto
  qed
qed

lemma ri_implements: "implements ri t_ri"
proof (rule implementsI)
  fix m s k x y assume a: "console_at s k x y" "same_outside m (video s)"
  note s = console_at_fields [OF a(1)]
  have pos: "cur_pos_y s > 0 \<longleftrightarrow> 0 < y" using s(15) by (simp add: word_less_nat_alt)
  show "(\<exists>k' x' y'. console_at (ri s) k' x' y') \<and> same_outside m (video (ri s)) \<and> view (ri s) = t_ri (view s)"
  proof (cases y)
    case (Suc y')
    then have eq: "ri s = s\<lparr>cur_pos_y := of_nat y', cur_pos_mem := vaddr (80 * k + 80 * y' + x)\<rparr>" (is "_ = ?s")
      using s(13) pos by (simp add: ri_def s(11) s(5) algebra_simps)
    have "console_at ?s k x y'" using a(1) Suc by (simp add: console_at_def)
    then show ?thesis unfolding eq using a Suc by (auto simp: view_at [OF a(1)] view_at t_ri_def)
  next
    case 0
    then have "ri s = scroll_down s" "t_ri (view s) = (view s)\<lparr>glyphs := blank_row # butlast (glyphs (view s))\<rparr>"
      using pos by (simp_all add: ri_def t_ri_def view_at [OF a(1)])
    then show ?thesis using scroll_down_at [OF a] by auto
  qed
qed

text \<open>Moving the cursor within the line, and writing a cell under it.\<close>

lemma column_at:
  assumes "console_at s k x y" "x' \<le> 80"
  shows "console_at (s\<lparr>cur_pos_x := of_nat x', cur_pos_mem := vaddr (80 * k + 80 * y + x')\<rparr>) k x' y"
    "view (s\<lparr>cur_pos_x := of_nat x', cur_pos_mem := vaddr (80 * k + 80 * y + x')\<rparr>) = (view s)\<lparr>t_col := x'\<rparr>"
proof -
  show at: "console_at (s\<lparr>cur_pos_x := of_nat x', cur_pos_mem := vaddr (80 * k + 80 * y + x')\<rparr>) k x' y"
    using assms by (simp add: console_at_def)
  show "view (s\<lparr>cur_pos_x := of_nat x', cur_pos_mem := vaddr (80 * k + 80 * y + x')\<rparr>) = (view s)\<lparr>t_col := x'\<rparr>"
    by (simp add: view_at [OF at] view_at [OF assms(1)])
qed

lemma write_at:
  assumes "console_at s k x y" "x < 80" "same_outside m (video s)"
  shows "console_at (s\<lparr>video := wr16 (cur_pos_mem s) g (video s)\<rparr>) k x y"
    "view (s\<lparr>video := wr16 (cur_pos_mem s) g (video s)\<rparr>) = t_write g (view s)"
    "same_outside m (wr16 (cur_pos_mem s) g (video s))"
proof -
  note s = console_at_fields [OF assms(1)]
  show at: "console_at (s\<lparr>video := wr16 (cur_pos_mem s) g (video s)\<rparr>) k x y"
    using assms(1) by (simp add: console_at_def)
  have "cell (wr16 (cur_pos_mem s) g (video s)) (80 * k + j) = ((\<lambda>j. cell (video s) (80 * k + j))(80 * y + x := g)) j" if "j < 2000" for j
    using s(1-3) that by (simp add: s(11))
  then have "grid (\<lambda>j. cell (wr16 (cur_pos_mem s) g (video s)) (80 * k + j)) = grid ((\<lambda>j. cell (video s) (80 * k + j))(80 * y + x := g))"
    by (rule grid_cong)
  then show "view (s\<lparr>video := wr16 (cur_pos_mem s) g (video s)\<rparr>) = t_write g (view s)"
    by (simp add: view_at [OF at] view_at [OF assms(1)] t_write_def grid_put assms(2))
  show "same_outside m (wr16 (cur_pos_mem s) g (video s))"
    unfolding s(11) using assms(2,3) s(1,3) by (intro same_outside_wr16) auto
qed

lemma u8_of_nat_eq: "a < 256 \<Longrightarrow> b < 256 \<Longrightarrow> (of_nat a :: u8) = of_nat b \<longleftrightarrow> a = b"
  by (metis unat_u8)

lemma cr_implements: "implements cr (\<lambda>t. t\<lparr>t_col := 0\<rparr>)"
proof (rule implementsI)
  fix m s k x y assume a: "console_at s k x y" "same_outside m (video s)"
  note s = console_at_fields [OF a(1)]
  have "cr s = s\<lparr>cur_pos_x := of_nat 0, cur_pos_mem := vaddr (80 * k + 80 * y + 0)\<rparr>"
    using s(2) vaddr_sub_cols [of x "80 * k + 80 * y + x"] by (simp add: cr_def s(11,12) ucast_u8_nat mult.commute)
  then show "(\<exists>k' x' y'. console_at (cr s) k' x' y') \<and> same_outside m (video (cr s)) \<and> view (cr s) = (view s)\<lparr>t_col := 0\<rparr>"
    using column_at [OF a(1), of 0] a(2) by auto
qed

definition backspace :: "console \<Rightarrow> console" where
  "backspace s = (if cur_pos_x s \<noteq> 0 then s\<lparr>cur_pos_x := cur_pos_x s - 1, cur_pos_mem := cur_pos_mem s - 2\<rparr> else s)"

lemma backspace_at:
  assumes "console_at s k x y"
  shows "backspace s = (if x = 0 then s else s\<lparr>cur_pos_x := of_nat (x - 1), cur_pos_mem := vaddr (80 * k + 80 * y + (x - 1))\<rparr>)"
proof -
  note s = console_at_fields [OF assms]
  have "cur_pos_x s = 0 \<longleftrightarrow> x = 0" using s(2,12) u8_of_nat_eq [of x 0] by simp
  then show ?thesis by (cases x) (simp_all add: backspace_def s(11,12))
qed

lemma backspace_implements: "implements backspace (\<lambda>t. t\<lparr>t_col := t_col t - 1\<rparr>)"
proof (rule implementsI)
  fix m s k x y assume a: "console_at s k x y" "same_outside m (video s)"
  note s = console_at_fields [OF a(1)]
  have "t_col (view s) = x" by (simp add: view_at [OF a(1)])
  then show "(\<exists>k' x' y'. console_at (backspace s) k' x' y') \<and> same_outside m (video (backspace s)) \<and>
      view (backspace s) = (view s)\<lparr>t_col := t_col (view s) - 1\<rparr>"
    using column_at [OF a(1), of "x - 1"] a s(2) unfolding backspace_at [OF a(1)] by (cases x) auto
qed

lemma del_implements: "implements del t_del"
proof (rule implementsI)
  fix m s k x y assume a: "console_at s k x y" "same_outside m (video s)"
  note s = console_at_fields [OF a(1)]
  have x: "t_col (view s) = x" by (simp add: view_at [OF a(1)])
  show "(\<exists>k' x' y'. console_at (del s) k' x' y') \<and> same_outside m (video (del s)) \<and> view (del s) = t_del (view s)"
  proof (cases x)
    case 0
    then show ?thesis using a x s(12) by (auto simp: del_def t_del_def)
  next
    case (Suc x')
    define s1 where "s1 = s\<lparr>cur_pos_x := of_nat x', cur_pos_mem := vaddr (80 * k + 80 * y + x')\<rparr>"
    have s1: "console_at s1 k x' y" "view s1 = (view s)\<lparr>t_col := x'\<rparr>" "video s1 = video s"
      using column_at [OF a(1), of x'] s(2) Suc by (simp_all add: s1_def)
    have "cur_pos_x s \<noteq> 0" using s(2,12) u8_of_nat_eq [of x 0] Suc by simp
    then have eq: "del s = s1\<lparr>video := wr16 (cur_pos_mem s1) BLANK (video s1)\<rparr>"
      by (simp add: del_def s1_def s(11,12) Suc)
    show ?thesis unfolding eq using write_at [OF s1(1), of m BLANK] s1 a(2) Suc s(2) x by (auto simp: t_del_def)
  qed
qed

lemma goto_implements:
  "implements (\<lambda>s. snd (cur_goto_pos a b s)) (t_goto (unat a) (unat b))"
proof (rule implementsI)
  fix m s k x y assume at: "console_at s k x y" "same_outside m (video s)"
  note s = console_at_fields [OF at(1)]
  have c: "a > 80 \<or> b > 25 \<longleftrightarrow> 80 < unat a \<or> 25 < unat b" by (simp add: word_less_nat_alt)
  let ?s = "snd (cur_goto_pos a b s)"
  show "(\<exists>k' x' y'. console_at ?s k' x' y') \<and> same_outside m (video ?s) \<and> view ?s = t_goto (unat a) (unat b) (view s)"
  proof (cases "80 < unat a \<or> 25 < unat b")
    case True
    then show ?thesis using at c by (auto simp: cur_goto_pos_def s(4,6) t_goto_def)
  next
    case False
    obtain p q where pq: "a = of_nat p" "b = of_nat q" "unat a = p" "unat b = q" by (metis of_nat_unat ucast_id)
    have "vaddr (80 * k) + 160 * of_nat q + of_nat p * 2 = vaddr (80 * k + 80 * q + p)" by (simp add: vaddr_def algebra_simps)
    then have eq: "?s = s\<lparr>cur_pos_x := of_nat p, cur_pos_y := of_nat q, cur_pos_mem := vaddr (80 * k + 80 * q + p)\<rparr>" (is "_ = ?t")
      using False c pq s by (simp add: cur_goto_pos_def ucast_u8_nat)
    have "console_at ?t k p q" using at(1) False pq by (simp add: console_at_def)
    then show ?thesis unfolding eq using at False pq by (auto simp: view_at [OF at(1)] view_at t_goto_def)
  qed
qed

lemma newline_at:
  assumes "console_at s k x y" "same_outside m (video s)" "x' \<le> 80"
  shows "\<exists>k' y'. console_at (lf (s\<lparr>cur_pos_x := of_nat x', cur_pos_mem := vaddr (80 * k + 80 * y + x')\<rparr>)) k' x' y'"
    (is "\<exists>k' y'. console_at (lf ?s) k' x' y'")
    and "same_outside m (video (lf (s\<lparr>cur_pos_x := of_nat x', cur_pos_mem := vaddr (80 * k + 80 * y + x')\<rparr>)))"
    and "view (lf (s\<lparr>cur_pos_x := of_nat x', cur_pos_mem := vaddr (80 * k + 80 * y + x')\<rparr>)) = t_lf ((view s)\<lparr>t_col := x'\<rparr>)"
proof -
  note c = column_at [OF assms(1,3)]
  have ok: "console_ok m ?s" using c(1) assms(2) by (intro console_okI) simp_all
  from lf_implements ok have "console_ok m (lf ?s)" and v: "view (lf ?s) = t_lf (view ?s)" by (rule implementsD)+
  then obtain k1 x1 y1 where at: "console_at (lf ?s) k1 x1 y1" and "same_outside m (video (lf ?s))" by (auto simp: console_ok_def)
  then show "same_outside m (video (lf ?s))" by simp
  have "t_col (t_lf (view ?s)) = x'" by (simp add: c(2) t_lf_def)
  then have "x1 = x'" using view_at_pos(1) [OF at] by (simp only: v)
  then show "\<exists>k' y'. console_at (lf ?s) k' x' y'" using at by auto
  show "view (lf ?s) = t_lf ((view s)\<lparr>t_col := x'\<rparr>)" by (simp only: v c(2))
qed

lemma ge_80: "n < 256 \<Longrightarrow> (80 :: u8) \<le> of_nat n \<longleftrightarrow> 80 \<le> n"
  by (simp add: word_le_nat_alt unat_u8)

lemma put_glyph_implements: "implements (put_glyph c) (t_put c)"
proof (rule implementsI)
  fix m s k x y assume a: "console_at s k x y" "same_outside m (video s)"
  note s = console_at_fields [OF a(1)]
  define s1 where "s1 = (if 80 \<le> x then lf (s\<lparr>cur_pos_x := of_nat 0, cur_pos_mem := vaddr (80 * k + 80 * y + 0)\<rparr>) else s)"
  define t1 where "t1 = (if 80 \<le> t_col (view s) then t_lf ((view s)\<lparr>t_col := 0\<rparr>) else view s)"
  have x: "t_col (view s) = x" by (simp add: view_at [OF a(1)])
  have m1: "same_outside m (video s1)" and v1: "view s1 = t1"
    using newline_at(2,3) [OF a, of 0] a by (simp_all add: s1_def t1_def x)
  have "\<exists>k1 x1 y1. console_at s1 k1 x1 y1 \<and> x1 < 80"
  proof (cases "80 \<le> x")
    case True
    then show ?thesis using newline_at(1) [OF a, of 0] unfolding s1_def by fastforce
  next
    case False
    then have "console_at s1 k x y \<and> x < 80" using a by (simp add: s1_def)
    then show ?thesis by blast
  qed
  then obtain k1 x1 y1 where at1: "console_at s1 k1 x1 y1" "x1 < 80" by blast
  define s2 where "s2 = s1\<lparr>video := wr16 (cur_pos_mem s1) (0x0700 + ucast c) (video s1)\<rparr>"
  note w = write_at [OF at1 m1, of "0x0700 + ucast c", folded s2_def]
  have eq0: "put_glyph c s = s2\<lparr>cur_pos_x := cur_pos_x s2 + 1, cur_pos_mem := cur_pos_mem s2 + 2\<rparr>"
  proof (cases "80 \<le> x")
    case True
    then have "x = 80" using s(2) by simp
    moreover have "vaddr (80 * k + 80 * y + 80) - 160 = vaddr (80 * k + 80 * y)" by simp
    ultimately show ?thesis using True by (simp add: put_glyph_def s2_def s1_def s(4,5,11,12) ge_80 Let_def)
  next
    case False
    then show ?thesis using s(2) by (simp add: put_glyph_def s2_def s1_def s(4,12) ge_80 Let_def)
  qed
  have eq: "put_glyph c s = s2\<lparr>cur_pos_x := of_nat (Suc x1), cur_pos_mem := vaddr (80 * k1 + 80 * y1 + Suc x1)\<rparr>"
    unfolding eq0 using console_at_fields(11,12) [OF w(1)] by (simp add: add.commute [of "1 :: u8"])
  have "t_put c (view s) = (t_write (0x0700 + ucast c) t1)\<lparr>t_col := Suc x1\<rparr>"
    using v1 view_at_pos(1) [OF at1(1)] by (simp add: t_put_def Let_def t1_def [symmetric] t_write_def)
  moreover have "video s2 = wr16 (cur_pos_mem s1) (0x0700 + ucast c) (video s1)" by (simp add: s2_def)
  ultimately show "(\<exists>k' x' y'. console_at (put_glyph c s) k' x' y') \<and> same_outside m (video (put_glyph c s)) \<and>
      view (put_glyph c s) = t_put c (view s)"
    using column_at [OF w(1), of "Suc x1"] at1(2) w v1 unfolding eq by auto
qed

lemma tab_offset: "n < 256 \<Longrightarrow> unat (8 - ((of_nat n :: u8) AND 7)) = 8 - n mod 8"
proof -
  assume n: "n < 256"
  have "(of_nat n :: u8) AND 7 = of_nat (n mod 8)"
  proof -
    have "(7 :: u8) = mask 3" by (simp add: mask_eq_exp_minus_1)
    then have "(of_nat n :: u8) AND 7 = take_bit 3 (of_nat n)" by (simp add: take_bit_eq_mask)
    also have "\<dots> = of_nat (take_bit 3 n)" by (rule take_bit_of_nat)
    finally show ?thesis by (simp add: take_bit_eq_mod)
  qed
  then have "(8 :: u8) - (of_nat n AND 7) = of_nat (8 - n mod 8)" by (simp add: of_nat_diff)
  then show ?thesis by (simp only:) (rule unat_u8, simp)
qed

lemma tab_implements: "implements tab t_tab"
proof (rule implementsI)
  fix m s k x y assume a: "console_at s k x y" "same_outside m (video s)"
  note s = console_at_fields [OF a(1)]
  define d where "d = 8 - x mod 8"
  have "unat (8 - (cur_pos_x s AND 7)) = d" using s(2) by (simp add: s(12) tab_offset d_def)
  then have off: "8 - (cur_pos_x s AND 7) = of_nat d" by (metis of_nat_unat ucast_id)
  have d: "d < 256" by (simp add: d_def)
  show "(\<exists>k' x' y'. console_at (tab s) k' x' y') \<and> same_outside m (video (tab s)) \<and> view (tab s) = t_tab (view s)"
  proof (cases "x = 80")
    case True
    have "vaddr (80 * k + 80 * y + 80) - 2 * of_nat 72 = vaddr (80 * k + 80 * y + 80 - 72)" by (rule vaddr_sub_cols) simp
    then have "tab s = lf (s\<lparr>cur_pos_x := of_nat 8, cur_pos_mem := vaddr (80 * k + 80 * y + 8)\<rparr>)"
      using s(14) off True by (simp add: tab_def Let_def s(4,11,12) d_def add.commute [of "8 :: nat"])
    then show ?thesis using newline_at [OF a, of 8] view_at_pos(1) [OF a(1)] True by (auto simp: t_tab_def)
  next
    case False
    then have lt: "x < 80" using s(2) by simp
    then have le: "x + d \<le> 80" unfolding d_def by presburger
    have stop: "x + d = (x div 8 + 1) * 8" unfolding d_def by presburger
    have "tab s = s\<lparr>cur_pos_x := cur_pos_x s + of_nat d, cur_pos_mem := cur_pos_mem s + 2 * of_nat d\<rparr>"
      using le by (simp add: tab_def Let_def off s(4,14) unat_u8 [OF d] ucast_u8_nat [OF d] mult.commute)
    also have "\<dots> = s\<lparr>cur_pos_x := of_nat ((x div 8 + 1) * 8), cur_pos_mem := vaddr (80 * k + 80 * y + (x div 8 + 1) * 8)\<rparr>"
      unfolding s(11,12) vaddr_add(1) of_nat_add [symmetric] stop [symmetric] by (simp only: add.assoc)
    finally show ?thesis using column_at [OF a(1), of "(x div 8 + 1) * 8"] a(2) le False view_at_pos(1) [OF a(1)]
      unfolding stop by (auto simp: t_tab_def)
  qed
qed

text \<open>The fields that only the escape parser uses.\<close>

lemma parse_state_frame [simp]:
  "console_ok m (s\<lparr>parse_state := p\<rparr>) = console_ok m s" "view (s\<lparr>parse_state := p\<rparr>) = (view s)\<lparr>t_mode := p\<rparr>"
  "console_ok m (s\<lparr>saved_cur_pos_x := a, saved_cur_pos_y := b\<rparr>) = console_ok m s"
  "view (s\<lparr>saved_cur_pos_x := a, saved_cur_pos_y := b\<rparr>) = (view s)\<lparr>t_saved := (unat a, unat b)\<rparr>"
  by (simp_all add: console_ok_def console_at_def view_def)

lemmas driver_ops = lf_implements ri_implements cr_implements backspace_implements del_implements
  put_glyph_implements tab_implements goto_implements

lemmas driver_ok = driver_ops [THEN implementsD(1)]
lemmas driver_view = driver_ops [THEN implementsD(2)]

lemma normal_char_implements: "implements (normal_char e c) (t_normal e c)"
  unfolding implements_def normal_char_def t_normal_def backspace_def [symmetric]
  by (auto simp: driver_view intro: driver_ok)

lemma esc_char_implements: "implements (esc_char c) (t_esc c)"
proof -
  have "unat (cur_pos_y s + 1) = t_row (view s) + 1" if "console_ok m s" for m s
  proof -
    from that obtain k x y where at: "console_at s k x y" by (auto simp: console_ok_def)
    then have "cur_pos_y s + 1 = of_nat (Suc y)" by (simp add: console_at_fields add.commute)
    then show ?thesis using console_at_fields(3) [OF at] view_at_pos(2) [OF at] unat_u8 [of "Suc y"] by (simp add: add.commute [of "1 :: u8"])
  qed
  moreover have "t_col (view s) = unat (cur_pos_x s)" "t_row (view s) = unat (cur_pos_y s)"
    "t_saved (view s) = (unat (saved_cur_pos_x s), unat (saved_cur_pos_y s))" for s by (simp_all add: view_def)
  ultimately show ?thesis
    unfolding implements_def esc_char_def t_esc_def Let_def
    by (auto simp: driver_view intro: driver_ok)
qed

lemma console_char_implements: "implements (console_char e c) (t_char e c)"
proof -
  have "t_mode (view s) = parse_state s" for s by (simp add: view_def)
  then show ?thesis
    using normal_char_implements [of e c] esc_char_implements [of c]
    by (auto simp: implements_def console_char_def t_char_def split: console_parse_state.split)
qed

section \<open>From one character to a whole output queue\<close>

text \<open>The contract between a driver and its specification: one step each, kept in step by \<open>look\<close>.\<close>

locale simulation =
  fixes good :: "'s \<Rightarrow> bool" and look :: "'s \<Rightarrow> 't"
    and step :: "'c \<Rightarrow> 's \<Rightarrow> 's" and spec :: "'c \<Rightarrow> 't \<Rightarrow> 't"
  assumes good_step: "good s \<Longrightarrow> good (step c s)"
    and look_step: "good s \<Longrightarrow> look (step c s) = spec c (look s)"
begin

lemma good_steps: "good s \<Longrightarrow> good (fold step cs s)"
  by (induction cs arbitrary: s) (simp_all add: good_step)

lemma look_steps: "good s \<Longrightarrow> look (fold step cs s) = fold spec cs (look s)"
  by (induction cs arbitrary: s) (simp_all add: good_step look_step)

end

interpretation driver: simulation "console_ok m" view "console_char e" "t_char e" for m e
  by unfold_locales (simp_all add: implementsD [OF console_char_implements])

lemma write_loop_fold:
  "queue_ok (write_q t) \<Longrightarrow> n = length (contents (write_q t)) \<Longrightarrow>
     snd (write_loop n (t, s)) = fold (console_char (c_cc (tio t) ! V_ERASE)) (contents (write_q t)) s \<and>
     queue_ok (write_q (fst (write_loop n (t, s)))) \<and> contents (write_q (fst (write_loop n (t, s)))) = [] \<and>
     (\<exists>q. fst (write_loop n (t, s)) = t\<lparr>write_q := q\<rparr>)"
proof (induction n arbitrary: t s)
  case 0
  then show ?case by simp (metis tty_struct.surjective tty_struct.update_convs(5))
next
  case (Suc n)
  obtain c q where cq: "q_get (write_q t) = (c, q)" by (cases "q_get (write_q t)")
  have ne: "contents (write_q t) \<noteq> []" using Suc.prems(2) by auto
  then obtain cs where cs: "contents (write_q t) = c # cs" "contents q = cs" "queue_ok q"
    using contents_get [OF Suc.prems(1)] cq by (cases "contents (write_q t)") auto
  show ?case using Suc.IH [of "t\<lparr>write_q := q\<rparr>" "console_char (c_cc (tio t) ! V_ERASE) c s"] Suc.prems(2) cs
    by (auto simp: cq)
qed

lemma console_write_eq:
  assumes "queue_ok (write_q t)"
  shows "\<exists>q. console_write (t, s) =
    (t\<lparr>write_q := q\<rparr>, update_cursor (fold (console_char (c_cc (tio t) ! V_ERASE)) (contents (write_q t)) s)) \<and>
    queue_ok q \<and> contents q = []"
proof -
  obtain t' s' where w: "write_loop (unat (READ_SPACE (write_q t))) (t, s) = (t', s')" by fastforce
  show ?thesis using write_loop_fold [OF assms length_contents [symmetric], of s] w
    by (auto simp: console_write_def)
qed

text \<open>
  C12. \<open>console_write\<close> refines the terminal: it takes every character out of the output queue, what
  the user sees afterwards is what the terminal specification shows for those characters, the
  invariant holds again, and no byte below 0xB8000 or from 0xBC060 on has changed. That is the console's video memory, which ends at
  0xBC000, and 96 bytes behind it: they can be written, since the cursor can stand below the last row.
\<close>

theorem console_write_refines_terminal:
  assumes "console_ok m s" "queue_ok (write_q t)"
  shows "view (snd (console_write (t, s))) = fold (t_char (c_cc (tio t) ! V_ERASE)) (contents (write_q t)) (view s) \<and>
    contents (write_q (fst (console_write (t, s)))) = [] \<and> console_ok m (snd (console_write (t, s)))"
proof -
  from console_write_eq [OF assms(2), of s] obtain q where
    q: "console_write (t, s) = (t\<lparr>write_q := q\<rparr>, update_cursor (fold (console_char (c_cc (tio t) ! V_ERASE)) (contents (write_q t)) s))"
    "contents q = []" by blast
  have "console_ok m (update_cursor s') = console_ok m s'" for s' by (simp add: console_ok_def)
  then show ?thesis using assms(1) by (simp add: q driver.look_steps driver.good_steps)
qed

text \<open>A console as setup.s and the BIOS leave it, and a terminal with text to show.\<close>

definition demo_console :: console where "demo_console = console_init 80 0 24 (boot_console (\<lambda>_. 0))"

definition demo_termios :: termios where
  "demo_termios = \<lparr>c_iflag = 0x400, c_oflag = 5, c_cflag = 0, c_lflag = 0x5013, c_line = 0,
     c_cc = [0x03, 0x1C, 0x7F, 0x15, 0x04, 0x00, 0x01, 0x00, 0x11, 0x13, 0x1A, 0x00, 0x12, 0x0F, 0x17, 0x16, 0x00]\<rparr>"

definition demo_tty :: "char8 list \<Rightarrow> tty_struct" where
  "demo_tty cs = \<lparr>tio = demo_termios, pgrp = 0, stopped = 0, read_q = empty_queue,
     write_q = fold q_put cs empty_queue, secondary = empty_queue\<rparr>"

lemma console_init_at:
  assumes "x \<le> 80" "y \<le> 25"
  shows "console_at (console_init 80 (of_nat x) (of_nat y) (boot_console m)) 0 x y"
proof -
  have le: "(of_nat x :: u8) > 80 \<longleftrightarrow> False" "(of_nat y :: u8) > 25 \<longleftrightarrow> False"
    using assms unat_u8 [of x] unat_u8 [of y] by (simp_all only: word_less_nat_alt) simp_all
  have mem: "0xB8000 + 160 * of_nat y + of_nat x * 2 = vaddr (80 * 0 + 80 * y + x)" by (simp add: vaddr_def)
  have ends: "0xB8000 = vaddr (80 * 0)" "0xBC000 = vaddr 8192" "vaddr (80 * 0) + 160 * 25 = vaddr (80 * 0 + 2000)" by (simp_all add: vaddr_def)
  have y32: "(ucast (of_nat y :: u8) :: u32) = of_nat y" "(ucast (of_nat x :: u8) :: u32) = of_nat x"
    using assms by (simp_all add: ucast_u8_nat)
  define m' where "m' = fold (\<lambda>i m. m(0xB8000 + ucast (80 :: u8) * 2 - 4 * 2 + 2 * of_nat i := brief_info ! i)) [0..<4] m"
  have "console_init 80 (of_nat x) (of_nat y) (boot_console m) = (boot_console m)\<lparr>display_char_per_line := 80, size_per_line := 160,
     video_mem_start_addr := 0xB8000, video_mem_end_addr := 0xBC000, video_reg_port := 0x3D4, video_val_port := 0x3D5,
     video_type := VIDEO_TYPE_EGAC, video := m', scroll_origin_mem := 0xB8000, scroll_end_mem := 0xB8000 + 160 * 25,
     cur_pos_x := of_nat x, cur_pos_y := of_nat y, cur_pos_mem := 0xB8000 + 160 * of_nat y + of_nat x * 2\<rparr>"
    unfolding console_init_def Let_def cur_goto_pos_def boot_console_def m'_def
    by (simp only: console.simps le if_False simp_thms snd_conv y32) simp
  then show ?thesis unfolding mem unfolding ends using assms by (simp add: console_at_def boot_console_def)
qed

lemma console_init_outside: "same_outside m (video (console_init 80 x y (boot_console m)))"
proof -
  have "video (console_init 80 x y (boot_console m)) =
      fold (\<lambda>i m. m(0xB8000 + ucast (80 :: u8) * 2 - 4 * 2 + 2 * of_nat i := brief_info ! i)) [0..<4] m"
    by (simp add: console_init_def Let_def cur_goto_pos_def boot_console_def del: upt_rec_numeral)
  moreover have "same_outside m (fold (\<lambda>i m. m(0xB8000 + ucast (80 :: u8) * 2 - 4 * 2 + 2 * of_nat i := brief_info ! i)) [0..<4] m)"
  proof (rule same_outside_fold)
    fix i m' assume i: "i \<in> set [0..<4]" "same_outside m m'"
    have "0xB8000 + ucast (80 :: u8) * 2 - 4 * 2 + 2 * of_nat i = vaddr (76 + i)" by (simp add: vaddr_def)
    moreover have "vaddr (76 + i) \<in> video_bytes" using i(1) vaddr_video [of "76 + i"] by simp
    ultimately show "same_outside m (m'(0xB8000 + ucast (80 :: u8) * 2 - 4 * 2 + 2 * of_nat i := brief_info ! i))"
      using i(2) by (auto simp: same_outside_def)
  qed simp
  ultimately show ?thesis by simp
qed

lemma demo_console_at: "console_at demo_console 0 0 24"
  using console_init_at [of 0 24 "\<lambda>_. 0"] by (simp add: demo_console_def)

lemma demo_console_ok: "console_ok (\<lambda>_. 0) demo_console"
  using demo_console_at console_init_outside [of "\<lambda>_. 0" 0 24] by (auto simp: console_ok_def demo_console_def)

lemma demo_console_view: "t_col (view demo_console) = 0" "t_row (view demo_console) = 24" "t_mode (view demo_console) = NORMAL"
    "length (glyphs (view demo_console)) = 25" "length (glyphs (view demo_console) ! 24) = 80"
  using view_at [OF demo_console_at]
  by (simp_all add: grid_nth del: upt_rec_numeral) (simp_all add: demo_console_def console_init_def cur_goto_pos_def boot_console_def Let_def)

lemma demo_tty_facts:
  "length cs \<le> 1023 \<Longrightarrow> contents (write_q (demo_tty cs)) = cs" "queue_ok (write_q (demo_tty cs))"
  "c_cc (tio (demo_tty cs)) ! V_ERASE = 0x7F"
  by (simp_all add: demo_tty_def demo_termios_def V_ERASE_def ring.items_puts ring.ok_puts TTY_BUF_SIZE_def)

theorem console_write_refines_terminal_witness:
  "glyphs (view (snd (console_write (demo_tty [0x48, 0x69], demo_console)))) ! 24 ! 1 = 0x0769 \<and>
   t_col (view (snd (console_write (demo_tty [0x48, 0x69], demo_console)))) = 2 \<and>
   contents (write_q (fst (console_write (demo_tty [0x48, 0x69], demo_console)))) = []"
proof -
  let ?g = "glyphs (view demo_console)"
  have "fold (t_char 0x7F) [0x48, 0x69] (view demo_console) =
      (view demo_console)\<lparr>glyphs := ?g[24 := ((?g ! 24)[0 := 0x0748])[1 := 0x0769]], t_col := 2\<rparr>"
    using demo_console_view by (simp add: t_char_def t_normal_def displayable_def t_put_def t_write_def Let_def)
  then show ?thesis
    using console_write_refines_terminal [OF demo_console_ok demo_tty_facts(2) [of "[0x48, 0x69]"]] demo_console_view
    by (simp add: demo_tty_facts)
qed

text \<open>
  A control sequence ends the output for good: after the two characters ESC [ the parser
  stays in the state CSI_1, and every later character, however many, is thrown away.
\<close>

lemma control_sequence_ends_output:
  assumes "parse_state s = NORMAL"
  shows "fold (console_char e) ([0x1B, 0x5B] @ cs) s = s\<lparr>parse_state := CSI_1\<rparr>"
proof -
  have "fold (console_char e) cs s' = s'" if "parse_state s' = CSI_1" for s'
    using that by (induction cs arbitrary: s') (simp_all add: console_char_def)
  then show ?thesis using assms by (simp add: console_char_def normal_char_def esc_char_def displayable_def)
qed

lemma control_sequence_ends_output_witness:
  "fold (console_char 0x7F) ([0x1B, 0x5B] @ [0x31, 0x6D, 0x48]) demo_console = demo_console\<lparr>parse_state := CSI_1\<rparr>"
  using demo_console_view(3) by (intro control_sequence_ends_output) (simp add: view_def)

text \<open>Text that fits in the line the cursor is on.\<close>

lemma t_char_text:
  assumes "t_mode t = NORMAL" "length (glyphs t) = 25" "t_row t = 25" "list_all displayable cs" "t_col t + length cs \<le> 80"
  shows "fold (t_char e) cs t = t\<lparr>t_col := t_col t + length cs\<rparr>"
  using assms
proof (induction cs arbitrary: t)
  case (Cons c cs)
  have "t_char e c t = t\<lparr>t_col := Suc (t_col t)\<rparr>"
    using Cons.prems by (cases t) (simp add: t_char_def t_normal_def t_put_def Let_def t_write_def list_update_beyond)
  then show ?case using Cons.IH [of "t\<lparr>t_col := Suc (t_col t)\<rparr>"] Cons.prems by simp
qed simp

text \<open>
  The next-line sequence (ESC E) on the last row puts the cursor on row 25, below the screen,
  since \<open>cur_goto_pos\<close> admits the coordinate 25: the screen does not scroll, and a line of text
  written then is not seen.
\<close>

lemma next_line_leaves_screen:
  assumes "console_ok m s" "parse_state s = NORMAL" "t_row (view s) = 24" "list_all displayable cs" "length cs \<le> 80"
  shows "view (fold (console_char e) ([0x1B, 0x45] @ cs) s) = (view s)\<lparr>t_col := length cs, t_row := 25\<rparr>"
proof -
  have "t_mode (view s) = NORMAL" "length (glyphs (view s)) = 25" using assms(2) by (simp_all add: view_def)
  then have "fold (t_char e) [0x1B, 0x45] (view s) = (view s)\<lparr>t_col := 0, t_row := 25\<rparr>"
    using assms(3) by (simp add: t_char_def t_normal_def t_esc_def displayable_def t_goto_def)
  moreover have "fold (t_char e) cs ((view s)\<lparr>t_col := 0, t_row := 25\<rparr>) = (view s)\<lparr>t_col := length cs, t_row := 25\<rparr>"
    using t_char_text [of "(view s)\<lparr>t_col := 0, t_row := 25\<rparr>" cs e] assms(4,5) \<open>t_mode (view s) = NORMAL\<close> \<open>length (glyphs (view s)) = 25\<close> by simp
  ultimately show ?thesis using driver.look_steps [OF assms(1), of e "[0x1B, 0x45] @ cs"] by simp
qed

lemma next_line_leaves_screen_witness:
  "view (fold (console_char 0x7F) ([0x1B, 0x45] @ [0x48, 0x69]) demo_console) = (view demo_console)\<lparr>t_col := 2, t_row := 25\<rparr>"
proof -
  have "list_all displayable [0x48, 0x69]" by (simp add: displayable_def)
  then show ?thesis
    using next_line_leaves_screen [OF demo_console_ok, of "[0x48, 0x69]" "0x7F"] demo_console_view by (simp add: view_def)
qed

section \<open>The display registers\<close>

lemma reg_bytes:
  assumes "n < 65536"
  shows "unat (reg_hi (2 * of_nat n)) = n div 256" "unat (reg_lo (2 * of_nat n)) = n mod 256"
proof -
  have e: "(2 * of_nat n :: u32) = of_nat (2 * n)" by simp
  have low: "(of_nat k AND 0xFF :: u32) = of_nat (k mod 256)" for k
  proof -
    have "(0xFF :: u32) = mask 8" by (simp add: mask_eq_exp_minus_1)
    then have "(of_nat k AND 0xFF :: u32) = take_bit 8 (of_nat k)" by (simp add: take_bit_eq_mask)
    also have "\<dots> = of_nat (take_bit 8 k)" by (rule take_bit_of_nat)
    finally show ?thesis by (simp add: take_bit_eq_mod)
  qed
  have small: "unat (of_nat (2 * n) :: u32) = 2 * n" by (rule unat_of_nat_small) (use assms in simp)
  have shift: "drop_bit j (of_nat (2 * n) :: u32) = of_nat (2 * n div 2 ^ j)" for j
  proof -
    have "unat (drop_bit j (of_nat (2 * n) :: u32)) = 2 * n div 2 ^ j"
      by (simp only: unat_drop_bit_u32 small)
    then show ?thesis by (metis of_nat_unat ucast_id)
  qed
  have u: "unat (ucast (of_nat (k mod 256) :: u32) :: u8) = k mod 256" for k
  proof -
    have "unat (ucast (of_nat (k mod 256) :: u32) :: u8) = take_bit 8 (unat (of_nat (k mod 256) :: u32))"
      by (simp add: unsigned_ucast_eq)
    also have "unat (of_nat (k mod 256) :: u32) = k mod 256"
      by (rule unat_of_nat_small) (rule less_trans [of _ 256], simp_all)
    finally show ?thesis by (simp add: take_bit_eq_mod)
  qed
  show "unat (reg_hi (2 * of_nat n)) = n div 256"
    unfolding reg_hi_def e shift low u using assms by simp
  show "unat (reg_lo (2 * of_nat n)) = n mod 256"
    unfolding reg_lo_def e shift low u by simp
qed

text \<open>
  The cursor registers of the display controller (14 and 15) always receive the cell the
  console writes to next: read as one 16-bit number, they are the distance of \<open>cur_pos_mem\<close> from the
  start of video memory, in cells.
\<close>

lemma cursor_registers:
  assumes "console_at s k x y"
  shows "\<exists>hi lo. port_log (update_cursor s) = port_log s @
      [(video_reg_port s, 14), (video_val_port s, hi), (video_reg_port s, 15), (video_val_port s, lo)] \<and>
    cur_pos_mem s = video_mem_start_addr s + 2 * of_nat (256 * unat hi + unat lo) \<and>
    256 * unat hi + unat lo = 80 * (k + y) + x"
proof -
  note s = console_at_fields [OF assms]
  define n where "n = 80 * k + 80 * y + x"
  have n: "n < 65536" using s(1-3) by (simp add: n_def)
  have off: "cur_pos_mem s - video_mem_start_addr s = 2 * of_nat n"
    by (simp add: s(7,11) vaddr_def n_def algebra_simps)
  have cell: "256 * unat (reg_hi (2 * of_nat n)) + unat (reg_lo (2 * of_nat n)) = n"
    using reg_bytes [OF n] by simp
  have log: "port_log (update_cursor s) = port_log s @ [(video_reg_port s, 14), (video_val_port s, reg_hi (2 * of_nat n)),
      (video_reg_port s, 15), (video_val_port s, reg_lo (2 * of_nat n))]"
    by (simp add: update_cursor_def Let_def out_b_def off)
  have "cur_pos_mem s = video_mem_start_addr s + 2 * of_nat n" using off by (simp add: algebra_simps)
  then show ?thesis using log cell by (intro exI conjI) (assumption, simp_all only: n_def add_mult_distrib2)
qed

lemma cursor_registers_witness:
  "\<exists>hi lo. port_log (update_cursor demo_console) = port_log demo_console @
      [(video_reg_port demo_console, 14), (video_val_port demo_console, hi), (video_reg_port demo_console, 15), (video_val_port demo_console, lo)] \<and>
    cur_pos_mem demo_console = video_mem_start_addr demo_console + 2 * of_nat (256 * unat hi + unat lo) \<and>
    256 * unat hi + unat lo = 80 * (0 + 24) + 0"
  by (rule cursor_registers [OF demo_console_at])

end
