(* ===== verification/Tty.thy ===== *)
theory Tty
  imports Terminal
begin

text \<open>
  The terminal layer of driver/tty_io.c: the line discipline that turns typed characters (the read
  queue) into cooked ones (the secondary queue) with echo into the output queue, and the write of
  the kernel's own messages to the console.
\<close>

section \<open>Flags and control characters\<close>

definition I_CRNL :: u32 where "I_CRNL = 0x400"
definition I_IGNCR :: u32 where "I_IGNCR = 0x200"
definition I_NLCR :: u32 where "I_NLCR = 0x100"
definition I_UCLC :: u32 where "I_UCLC = 0x1000"

definition O_POST :: u32 where "O_POST = 0x001"
definition O_LCUC :: u32 where "O_LCUC = 0x002"
definition O_CRNL :: u32 where "O_CRNL = 0x010"
definition O_NLRET :: u32 where "O_NLRET = 0x040"
definition O_NLCR :: u32 where "O_NLCR = 0x004"

definition L_ISIG :: u32 where "L_ISIG = 0x001"
definition L_ICANON :: u32 where "L_ICANON = 0x002"
definition L_ECHO :: u32 where "L_ECHO = 0x010"
definition L_ECHOCTL :: u32 where "L_ECHOCTL = 0x1000"
definition L_ECHOKE :: u32 where "L_ECHOKE = 0x4000"

definition V_KILL :: nat where "V_KILL = 3"
definition V_EOF :: nat where "V_EOF = 4"
definition V_START :: nat where "V_START = 8"
definition V_STOP :: nat where "V_STOP = 9"

definition ASC_CR :: char8 where "ASC_CR = 0x0D"
definition ASC_NL :: char8 where "ASC_NL = 0x0A"
definition ASC_DEL :: char8 where "ASC_DEL = 0x1F"

definition flag :: "u32 \<Rightarrow> u32 \<Rightarrow> bool" where "flag fs f \<longleftrightarrow> fs AND f \<noteq> 0"

section \<open>The two terminals\<close>

text \<open>\<open>kernel_tty\<close> and the only entry of \<open>tty_table\<close> start with the same settings.\<close>

definition init_termios :: termios where
  "init_termios = \<lparr>c_iflag = I_CRNL, c_oflag = O_NLCR OR O_POST, c_cflag = 0,
     c_lflag = L_ISIG OR L_ICANON OR L_ECHO OR L_ECHOCTL OR L_ECHOKE, c_line = 0,
     c_cc = [0x03, 0x1C, 0x7F, 0x15, 0x04, 0x00, 0x01, 0x00, 0x11, 0x13, 0x1A, 0x00, 0x12, 0x0F, 0x17, 0x16, 0x00]\<rparr>"

definition init_tty :: tty_struct where
  "init_tty = \<lparr>tio = init_termios, pgrp = 0, stopped = 0, read_q = empty_queue, write_q = empty_queue, secondary = empty_queue\<rparr>"

record tty_state =
  kernel_tty :: tty_struct
  tty_table :: "tty_struct list"
  the_console :: console

definition tty_init :: "u8 \<Rightarrow> u8 \<Rightarrow> u8 \<Rightarrow> tty_state \<Rightarrow> tty_state" where
  "tty_init bios_cols bios_x bios_y s = s\<lparr>the_console := console_init bios_cols bios_x bios_y (the_console s)\<rparr>"

section \<open>The line discipline\<close>

text \<open>A character put into the output queue, without a look at the room left there.\<close>

definition echo :: "char8 \<Rightarrow> tty_struct \<Rightarrow> tty_struct" where
  "echo c t = t\<lparr>write_q := q_put c (write_q t)\<rparr>"

definition line_end :: "termios \<Rightarrow> char8 \<Rightarrow> bool" where
  "line_end tm c \<longleftrightarrow> c = ASC_NL \<or> ch_eq c (c_cc tm ! V_EOF)"

text \<open>Taking back the last cooked character: one or two DEL are echoed, and the queue is flushed.\<close>

definition take_back :: "tty_struct \<times> console \<Rightarrow> tty_struct \<times> console" where
  "take_back ts =
     (let (t, s) = ts; c = LAST (secondary t); t1 = t\<lparr>secondary := q_drop_last (secondary t)\<rparr> in
      if flag (c_lflag (tio t)) L_ECHO
      then console_write (echo ASC_DEL (if sint c < 0x20 then echo ASC_DEL t1 else t1), s)
      else (t1, s))"

definition at_line_start :: "tty_struct \<Rightarrow> bool" where
  "at_line_start t \<longleftrightarrow> EMPTY (secondary t) \<or> line_end (tio t) (LAST (secondary t))"

lemma write_loop_frame: "\<exists>q. fst (write_loop n (t, s)) = t\<lparr>write_q := q\<rparr>"
proof (induction n arbitrary: t s)
  case 0
  then show ?case by simp (metis tty_struct.surjective tty_struct.update_convs(5))
next
  case (Suc n)
  obtain c q where "q_get (write_q t) = (c, q)" by fastforce
  then show ?case using Suc [of "t\<lparr>write_q := q\<rparr>"] by auto
qed

lemma console_write_frame: "\<exists>q. fst (console_write (t, s)) = t\<lparr>write_q := q\<rparr>"
proof -
  obtain t' s' where w: "write_loop (unat (READ_SPACE (write_q t))) (t, s) = (t', s')" by fastforce
  then show ?thesis using write_loop_frame [of "unat (READ_SPACE (write_q t))" t s] by (auto simp: console_write_def)
qed

lemma take_back_frame: "\<exists>q. fst (take_back (t, s)) = t\<lparr>secondary := q_drop_last (secondary t), write_q := q\<rparr>"
proof -
  have "\<exists>q. t1 = t1\<lparr>write_q := q\<rparr>" for t1 :: tty_struct by (metis tty_struct.surjective tty_struct.update_convs(5))
  moreover have "\<exists>q. fst (console_write (echo c t1, s)) = t1\<lparr>write_q := q\<rparr>" for c t1
    using console_write_frame [of "echo c t1" s] by (auto simp: echo_def)
  moreover have "\<exists>q. fst (console_write (echo c (echo c' t1), s)) = t1\<lparr>write_q := q\<rparr>" for c c' t1
    using console_write_frame [of "echo c (echo c' t1)" s] by (auto simp: echo_def)
  ultimately show ?thesis by (simp add: take_back_def Let_def)
qed

text \<open>One step of a ring position, whatever the positions are.\<close>

lemma ring_step_back: "w AND ring_mask \<noteq> 0 \<Longrightarrow> unat ((w - 1) AND ring_mask) = unat (w AND ring_mask) - 1"
proof -
  assume ne: "w AND ring_mask \<noteq> 0"
  obtain n where n: "w = of_nat n" by (metis word_nat_cases)
  have r: "w AND ring_mask = of_nat (n mod 1024)" by (simp only: n ring_of_nat)
  have nz: "n mod 1024 \<noteq> 0"
  proof
    assume "n mod 1024 = 0"
    then show False using ne by (simp only: r of_nat_0) simp
  qed
  obtain k where k1: "n = Suc k" using nz by (cases n) simp_all
  then have k: "n = Suc k" "Suc k mod 1024 = Suc (k mod 1024)"
    using nz mod_Suc [of k 1024] by (simp_all split: if_splits)
  then have "(w - 1) AND ring_mask = of_nat (k mod 1024)" using ring_of_nat [of k] by (simp add: n)
  then have "unat ((w - 1) AND ring_mask) = k mod 1024" by (simp only: unat_ring)
  moreover have "unat (w AND ring_mask) = Suc (k mod 1024)" unfolding r unat_ring unfolding k ..
  ultimately show ?thesis by simp
qed

lemma ring_mask_absorb:
  "((a AND ring_mask) - b) AND ring_mask = (a - b) AND ring_mask"
  "(a - (b AND ring_mask)) AND ring_mask = (a - b) AND ring_mask"
proof -
  have l: "take_bit 10 (take_bit 10 x + y) = take_bit 10 (x + y)" for x y :: u32
  proof -
    obtain m n where xy: "x = of_nat m" "y = of_nat n" by (metis word_nat_cases)
    have "of_nat (m mod 1024) + (of_nat n :: u32) = of_nat (m mod 1024 + n)" "(of_nat m :: u32) + of_nat n = of_nat (m + n)" by simp_all
    moreover have "take_bit 10 (of_nat k :: u32) = of_nat (k mod 1024)" for k by (simp only: ring_of_nat flip: ring_and)
    ultimately show ?thesis by (simp only: xy) (simp add: mod_add_left_eq)
  qed
  show "((a AND ring_mask) - b) AND ring_mask = (a - b) AND ring_mask"
    using l [of a "- b"] by (simp add: ring_and)
  define x where "x = a - take_bit 10 b"
  have "take_bit 10 x = take_bit 10 ((x + b) + - b)" by simp
  also have "\<dots> = take_bit 10 (take_bit 10 (x + b) + - b)" by (rule l [symmetric])
  also have "take_bit 10 (x + b) = take_bit 10 a" using l [of b x] by (simp add: x_def add.commute)
  also have "take_bit 10 (take_bit 10 a + - b) = take_bit 10 (a + - b)" by (rule l)
  finally show "(a - (b AND ring_mask)) AND ring_mask = (a - b) AND ring_mask" by (simp add: ring_and x_def)
qed

lemma READ_SPACE_drop_last: "\<not> EMPTY q \<Longrightarrow> unat (READ_SPACE (q_drop_last q)) = unat (READ_SPACE q) - 1"
  using ring_step_back [of "q_head q - q_tail q"] ring_mask_absorb(1) [of "q_head q - 1" "q_tail q"]
  by (simp add: EMPTY_def READ_SPACE_def q_drop_last_def DEC_def algebra_simps)

lemma READ_SPACE_get: "\<not> EMPTY q \<Longrightarrow> unat (READ_SPACE (snd (q_get q))) = unat (READ_SPACE q) - 1"
  using ring_step_back [of "q_head q - q_tail q"] ring_mask_absorb(2) [of "q_head q" "q_tail q + 1"]
  by (simp add: EMPTY_def READ_SPACE_def q_get_def INC_def algebra_simps)

lemma not_EMPTY_pos: "\<not> EMPTY q \<Longrightarrow> 0 < unat (READ_SPACE q)"
  by (simp add: EMPTY_def unat_gt_0)

text \<open>The kill loop: take back characters to the start of the line. It ends since the queue shrinks.\<close>

function kill_line :: "tty_struct \<times> console \<Rightarrow> tty_struct \<times> console" where
  "kill_line ts = (if at_line_start (fst ts) then ts else kill_line (take_back ts))"
  by pat_completeness auto
termination
proof (relation "measure (\<lambda>(t, s). unat (READ_SPACE (secondary t)))")
  fix ts :: "tty_struct \<times> console" assume a: "\<not> at_line_start (fst ts)"
  obtain t s where ts: "ts = (t, s)" by fastforce
  obtain q where "fst (take_back ts) = t\<lparr>secondary := q_drop_last (secondary t), write_q := q\<rparr>"
    using take_back_frame [of t s] ts by auto
  then show "(take_back ts, ts) \<in> measure (\<lambda>(t, s). unat (READ_SPACE (secondary t)))"
    using a READ_SPACE_drop_last [of "secondary t"] not_EMPTY_pos [of "secondary t"]
    by (cases "take_back ts") (auto simp: ts at_line_start_def)
qed simp

declare kill_line.simps [simp del]

text \<open>Carriage returns, newlines and capitals on input; \<open>None\<close> when the character is ignored.\<close>

definition input_char :: "termios \<Rightarrow> char8 \<Rightarrow> char8 option" where
  "input_char tm c =
     (let c1 = (if c = ASC_CR then
                  (if flag (c_iflag tm) I_CRNL then Some ASC_NL
                   else if flag (c_iflag tm) I_IGNCR then None else Some c)
                else if c = ASC_NL \<and> flag (c_iflag tm) I_NLCR then Some ASC_CR
                else Some c)
      in map_option (\<lambda>c. if flag (c_iflag tm) I_UCLC then tolower c else c) c1)"

text \<open>A character that is kept: counted if it ends a line, echoed, put into the secondary queue.\<close>

definition echo_char :: "char8 \<Rightarrow> tty_struct \<Rightarrow> tty_struct" where
  "echo_char c t =
     (if \<not> flag (c_lflag (tio t)) L_ECHO then t
      else if c = ASC_NL then
        (if flag (c_oflag (tio t)) O_NLCR then echo ASC_CR (echo ASC_NL t) else echo ASC_NL t)
      else if sint c < 0x20 then echo (c + 0x40) (echo 0x5E t)
      else echo c t)"

definition deliver :: "char8 \<Rightarrow> tty_struct \<Rightarrow> tty_struct" where
  "deliver c t =
     (let t1 = (if line_end (tio t) c then t\<lparr>secondary := (secondary t)\<lparr>q_data := q_data (secondary t) + 1\<rparr>\<rparr> else t);
          t2 = echo_char c t1
      in t2\<lparr>secondary := q_put c (secondary t2)\<rparr>)"

definition cook_char :: "char8 \<Rightarrow> tty_struct \<times> console \<Rightarrow> tty_struct \<times> console" where
  "cook_char c0 ts =
     (let (t, s) = ts; cc = c_cc (tio t) in
      case input_char (tio t) c0 of None \<Rightarrow> (t, s) | Some c \<Rightarrow>
      if flag (c_iflag (tio t)) L_ICANON \<and> ch_eq c (cc ! V_KILL) then kill_line (t, s)
      else if flag (c_iflag (tio t)) L_ICANON \<and> ch_eq c (cc ! V_ERASE) then
        (if at_line_start t then (t, s) else take_back (t, s))
      else if flag (c_iflag (tio t)) L_ICANON \<and> ch_eq c (cc ! V_STOP) then (t\<lparr>stopped := 1\<rparr>, s)
      else if flag (c_iflag (tio t)) L_ICANON \<and> ch_eq c (cc ! V_START) then (t\<lparr>stopped := 0\<rparr>, s)
      else (deliver c t, s))"

lemma take_back_keeps [simp]:
  "read_q (fst (take_back ts)) = read_q (fst ts)" "tio (fst (take_back ts)) = tio (fst ts)"
  "secondary (fst (take_back ts)) = q_drop_last (secondary (fst ts))"
  using take_back_frame [of "fst ts" "snd ts"] by auto

lemma kill_line_keeps [simp]:
  "read_q (fst (kill_line ts)) = read_q (fst ts)" "tio (fst (kill_line ts)) = tio (fst ts)"
  by (induction ts rule: kill_line.induct) (subst kill_line.simps, simp)+

lemma echo_char_keeps [simp]:
  "read_q (echo_char c t) = read_q t" "tio (echo_char c t) = tio t" "secondary (echo_char c t) = secondary t"
  by (simp_all add: echo_char_def echo_def)

lemma cook_char_keeps [simp]:
  "read_q (fst (cook_char c ts)) = read_q (fst ts)" "tio (fst (cook_char c ts)) = tio (fst ts)"
  by (cases ts, simp add: cook_char_def deliver_def Let_def split: option.split)+

function copy_to_cooked :: "tty_struct \<times> console \<Rightarrow> tty_struct \<times> console" where
  "copy_to_cooked (t, s) =
     (if EMPTY (read_q t) \<or> FULL (secondary t) then (t, s)
      else copy_to_cooked (cook_char (fst (q_get (read_q t))) (t\<lparr>read_q := snd (q_get (read_q t))\<rparr>, s)))"
  by pat_completeness auto
termination
proof (relation "measure (\<lambda>(t, s). unat (READ_SPACE (read_q t)))")
  fix t :: tty_struct and s :: console
  assume a: "\<not> (EMPTY (read_q t) \<or> FULL (secondary t))"
  let ?ts = "cook_char (fst (q_get (read_q t))) (t\<lparr>read_q := snd (q_get (read_q t))\<rparr>, s)"
  have "read_q (fst ?ts) = snd (q_get (read_q t))" by simp
  then show "(?ts, (t, s)) \<in> measure (\<lambda>(t, s). unat (READ_SPACE (read_q t)))"
    using a READ_SPACE_get [of "read_q t"] not_EMPTY_pos [of "read_q t"]
    by (simp add: case_prod_beta)
qed simp

declare copy_to_cooked.simps [simp del]

definition do_tty_interrupt :: "nat \<Rightarrow> tty_state \<Rightarrow> tty_state kresult" where
  "do_tty_interrupt i s =
     (if length (tty_table s) \<le> i then Inl (Wild_Access ''tty_table'')
      else let (t, con) = copy_to_cooked (tty_table s ! i, the_console s)
           in Inr (s\<lparr>tty_table := (tty_table s)[i := t], the_console := con\<rparr>))"

section \<open>Messages of the kernel\<close>

text \<open>The characters one character of a message becomes, in the order they enter the output queue.\<close>

definition post_char :: "termios \<Rightarrow> char8 \<Rightarrow> char8 list" where
  "post_char tm c =
     (if flag (c_oflag tm) O_POST then
        let c1 = (if c = 0x0D \<and> flag (c_oflag tm) O_CRNL then 0x0A
                  else if c = 0x0A \<and> flag (c_oflag tm) O_NLRET then 0x0D else c);
            pre = (if c1 = 0x0A \<and> flag (c_oflag tm) O_NLCR then [ASC_CR] else [])
        in pre @ [if flag (c_oflag tm) O_LCUC then toupper c1 else c1]
      else [c])"

text \<open>
  \<open>buf\<close> is the memory at the argument \<open>buf\<close>, of at least \<open>nr\<close> bytes. The loop counts \<open>nr\<close> down to 0,
  which is what the function returns.
\<close>

definition kernel_tty_write :: "char8 list \<Rightarrow> u32 \<Rightarrow> tty_state \<Rightarrow> u32 \<times> tty_state" where
  "kernel_tty_write buf nr s =
     (if TTY_BUF_SIZE \<le> unat nr then (0, s)
      else let t = kernel_tty s;
               t1 = fold (\<lambda>c t. fold echo (post_char (tio t) c) t) (take (unat nr) buf) t;
               (t2, con) = console_write (t1, the_console s)
           in (0, s\<lparr>kernel_tty := t2, the_console := con\<rparr>))"

section \<open>The line discipline on lists\<close>

text \<open>
  The specification: a line being edited is a list of characters. A kill character takes it back to
  the last line end, an erase character takes back one character of the line.
\<close>

definition edit_line :: "termios \<Rightarrow> char8 \<Rightarrow> char8 list \<Rightarrow> char8 list" where
  "edit_line tm c0 line =
     (let canonical = flag (c_iflag tm) L_ICANON; key = (\<lambda>c v. canonical \<and> ch_eq c (c_cc tm ! v)) in
      case input_char tm c0 of
        None \<Rightarrow> line
      | Some c \<Rightarrow>
          if key c V_KILL then rev (dropWhile (\<lambda>c. \<not> line_end tm c) (rev line))
          else if key c V_ERASE then (if line = [] \<or> line_end tm (last line) then line else butlast line)
          else if key c V_STOP \<or> key c V_START then line
          else line @ [c])"

fun discipline :: "termios \<Rightarrow> char8 list \<Rightarrow> char8 list \<Rightarrow> char8 list \<times> char8 list" where
  "discipline tm [] line = ([], line)"
| "discipline tm (c # cs) line =
     (if length line = TTY_BUF_SIZE - 1 then (c # cs, line) else discipline tm cs (edit_line tm c line))"

lemma at_line_start_iff:
  "queue_ok (secondary t) \<Longrightarrow>
     at_line_start t \<longleftrightarrow> contents (secondary t) = [] \<or> line_end (tio t) (last (contents (secondary t)))"
  by (cases "contents (secondary t) = []") (simp_all add: at_line_start_def EMPTY_iff contents_drop_last)

lemma kill_line_contents:
  "queue_ok (secondary (fst ts)) \<Longrightarrow>
     contents (secondary (fst (kill_line ts))) =
       rev (dropWhile (\<lambda>c. \<not> line_end (tio (fst ts)) c) (rev (contents (secondary (fst ts))))) \<and>
     queue_ok (secondary (fst (kill_line ts)))"
proof (induction ts rule: kill_line.induct)
  case (1 ts)
  let ?l = "contents (secondary (fst ts))"
  show ?case
  proof (cases "at_line_start (fst ts)")
    case True
    then have "kill_line ts = ts" by (subst kill_line.simps) simp
    moreover have "dropWhile (\<lambda>c. \<not> line_end (tio (fst ts)) c) (rev ?l) = rev ?l"
      using True at_line_start_iff [OF "1.prems"] by (cases ?l rule: rev_cases) auto
    ultimately show ?thesis using "1.prems" by simp
  next
    case False
    then have ne: "?l \<noteq> []" and last_in: "\<not> line_end (tio (fst ts)) (last ?l)" using at_line_start_iff [OF "1.prems"] by auto
    have "kill_line ts = kill_line (take_back ts)" using False by (subst kill_line.simps) simp
    then show ?thesis using "1.IH" [OF False] contents_drop_last [OF "1.prems" ne] ne last_in
      by (cases ?l rule: rev_cases) auto
  qed
qed

lemma deliver_secondary:
  assumes "queue_ok (secondary t)" "length (contents (secondary t)) < TTY_BUF_SIZE - 1"
  shows "contents (secondary (deliver c t)) = contents (secondary t) @ [c] \<and> queue_ok (secondary (deliver c t))"
  using assms by (simp add: deliver_def Let_def contents_put)

lemma cook_char_contents:
  assumes "queue_ok (secondary (fst ts))" "length (contents (secondary (fst ts))) < TTY_BUF_SIZE - 1"
  shows "contents (secondary (fst (cook_char c ts))) = edit_line (tio (fst ts)) c (contents (secondary (fst ts))) \<and>
    queue_ok (secondary (fst (cook_char c ts)))"
proof -
  obtain t s where ts: "ts = (t, s)" by fastforce
  note ok = assms(1)[unfolded ts fst_conv]
  have "contents (secondary t) \<noteq> []" if "\<not> at_line_start t" using that at_line_start_iff [OF ok] by auto
  then have taken: "contents (secondary (fst (take_back (t, s)))) = butlast (contents (secondary t)) \<and> queue_ok (secondary (fst (take_back (t, s))))"
    if "\<not> at_line_start t" using that contents_drop_last [OF ok] by simp
  show ?thesis
    using taken kill_line_contents [of ts] deliver_secondary [of t] assms at_line_start_iff [OF ok]
    by (auto simp: ts cook_char_def edit_line_def Let_def split: option.split)
qed

text \<open>
  C13. The line discipline refines its specification on lists: \<open>copy_to_cooked\<close> always ends, and it
  leaves in the read and the secondary queue exactly what editing the line with the typed
  characters, one after the other until the secondary queue is full, leaves.
\<close>

theorem line_discipline_refines:
  assumes "queue_ok (read_q t)" "queue_ok (secondary t)"
  shows "(contents (read_q (fst (copy_to_cooked (t, s)))), contents (secondary (fst (copy_to_cooked (t, s))))) =
    discipline (tio t) (contents (read_q t)) (contents (secondary t))"
proof -
  have "(contents (read_q (fst (copy_to_cooked ts))), contents (secondary (fst (copy_to_cooked ts)))) =
      discipline (tio (fst ts)) (contents (read_q (fst ts))) (contents (secondary (fst ts)))"
    if "queue_ok (read_q (fst ts))" "queue_ok (secondary (fst ts))" for ts
    using that
  proof (induction ts rule: copy_to_cooked.induct)
    case (1 t s)
    show ?case
    proof (cases "EMPTY (read_q t) \<or> FULL (secondary t)")
      case True
      then have "copy_to_cooked (t, s) = (t, s)" by (subst copy_to_cooked.simps) simp
      then show ?thesis using True "1.prems" by (cases "contents (read_q t)") (auto simp: EMPTY_iff FULL_iff)
    next
      case False
      let ?ts = "cook_char (fst (q_get (read_q t))) (t\<lparr>read_q := snd (q_get (read_q t))\<rparr>, s)"
      have ne: "contents (read_q t) \<noteq> []" and len: "length (contents (secondary t)) < TTY_BUF_SIZE - 1"
        using False "1.prems" contents_bound [of "secondary t"] by (auto simp: EMPTY_iff FULL_iff)
      have eq: "copy_to_cooked (t, s) = copy_to_cooked ?ts" using False by (subst copy_to_cooked.simps) simp
      have read: "read_q (fst ?ts) = snd (q_get (read_q t))" "tio (fst ?ts) = tio t" by simp_all
      have sec: "contents (secondary (fst ?ts)) = edit_line (tio t) (hd (contents (read_q t))) (contents (secondary t))"
        "queue_ok (secondary (fst ?ts))"
        using cook_char_contents [of "(t\<lparr>read_q := snd (q_get (read_q t))\<rparr>, s)" "fst (q_get (read_q t))"] "1.prems" len
          contents_get [OF _ ne] by simp_all
      have "(contents (read_q (fst (copy_to_cooked ?ts))), contents (secondary (fst (copy_to_cooked ?ts)))) =
          discipline (tio t) (tl (contents (read_q t))) (edit_line (tio t) (hd (contents (read_q t))) (contents (secondary t)))"
        using "1.IH" [OF False] sec read contents_get [OF _ ne] "1.prems" by simp
      then show ?thesis using ne len unfolding eq by (cases "contents (read_q t)") simp_all
    qed
  qed
  then show ?thesis using assms by fastforce
qed

definition typed :: "termios \<Rightarrow> char8 list \<Rightarrow> tty_struct" where
  "typed tm cs = init_tty\<lparr>tio := tm, read_q := fold q_put cs empty_queue\<rparr>"

lemma typed_facts:
  "length cs \<le> 1023 \<Longrightarrow> contents (read_q (typed tm cs)) = cs" "queue_ok (read_q (typed tm cs))"
  "contents (secondary (typed tm cs)) = []" "queue_ok (secondary (typed tm cs))" "tio (typed tm cs) = tm"
  by (simp_all add: typed_def init_tty_def ring.items_puts ring.ok_puts TTY_BUF_SIZE_def)

lemmas termios_flags = I_CRNL_def I_IGNCR_def I_NLCR_def I_UCLC_def O_POST_def O_LCUC_def O_CRNL_def O_NLRET_def
  O_NLCR_def L_ISIG_def L_ICANON_def L_ECHO_def L_ECHOCTL_def L_ECHOKE_def

lemma init_flags:
  "flag (c_iflag init_termios) L_ICANON = False" "flag (c_iflag init_termios) I_CRNL = True"
  "flag (c_iflag init_termios) I_NLCR = False" "flag (c_iflag init_termios) I_UCLC = False"
  "flag (c_oflag init_termios) O_POST = True" "flag (c_oflag init_termios) O_NLCR = True"
  "flag (c_oflag init_termios) O_CRNL = False" "flag (c_oflag init_termios) O_NLRET = False"
  "flag (c_oflag init_termios) O_LCUC = False" "c_cc init_termios ! V_ERASE = 0x7F"
  by (simp_all add: init_termios_def flag_def termios_flags V_ERASE_def)

theorem line_discipline_refines_witness:
  "(contents (read_q (fst (copy_to_cooked (typed (init_termios\<lparr>c_iflag := I_CRNL OR L_ICANON\<rparr>) [0x61, 0x62, 0x7F, 0x0D], demo_console)))),
    contents (secondary (fst (copy_to_cooked (typed (init_termios\<lparr>c_iflag := I_CRNL OR L_ICANON\<rparr>) [0x61, 0x62, 0x7F, 0x0D], demo_console))))) =
   ([], [0x61, 0x0A])"
proof -
  define tm where "tm = init_termios\<lparr>c_iflag := I_CRNL OR L_ICANON\<rparr>"
  have "flag (c_iflag tm) L_ICANON = True" "flag (c_iflag tm) I_CRNL = True" "flag (c_iflag tm) I_NLCR = False"
    "flag (c_iflag tm) I_UCLC = False" "c_cc tm ! V_KILL = 0x15" "c_cc tm ! V_ERASE = 0x7F" "c_cc tm ! V_STOP = 0x13"
    "c_cc tm ! V_START = 0x11" "c_cc tm ! V_EOF = 0x04"
    by (simp_all add: tm_def init_termios_def flag_def termios_flags V_KILL_def V_ERASE_def V_STOP_def V_START_def V_EOF_def)
  then have "discipline tm [0x61, 0x62, 0x7F, 0x0D] [] = ([], [0x61, 0x0A])"
    by (simp add: edit_line_def input_char_def ch_eq_def line_end_def ASC_CR_def ASC_NL_def Let_def TTY_BUF_SIZE_def)
  then show ?thesis unfolding tm_def [symmetric]
    using line_discipline_refines [of "typed tm [0x61, 0x62, 0x7F, 0x0D]" demo_console, OF typed_facts(2,4)]
    by (simp add: typed_facts)
qed

section \<open>Typing is silent\<close>

lemma cook_char_console: "flag (c_iflag (tio (fst ts))) L_ICANON = False \<Longrightarrow> snd (cook_char c ts) = snd ts"
  by (cases ts) (simp add: cook_char_def Let_def split: option.split)

lemma copy_to_cooked_console:
  "flag (c_iflag (tio (fst ts))) L_ICANON = False \<Longrightarrow> snd (copy_to_cooked ts) = snd ts"
proof (induction ts rule: copy_to_cooked.induct)
  case (1 t s)
  then show ?case by (subst copy_to_cooked.simps) (simp add: cook_char_console)
qed

definition cr_to_nl :: "char8 \<Rightarrow> char8" where "cr_to_nl c = (if c = ASC_CR then ASC_NL else c)"

lemma discipline_init:
  "length line + length cs \<le> TTY_BUF_SIZE - 1 \<Longrightarrow> discipline init_termios cs line = ([], line @ map cr_to_nl cs)"
proof (induction cs arbitrary: line)
  case (Cons c cs)
  have "edit_line init_termios c line = line @ [cr_to_nl c]"
    by (simp add: edit_line_def input_char_def init_flags cr_to_nl_def)
  then show ?case using Cons by simp
qed simp

text \<open>
  With the settings the kernel starts with, typing is silent and nothing typed can be taken
  back: a keyboard interrupt changes neither the screen nor the kernel's terminal (the echo stays
  in the output queue of the typing terminal), and every typed character, the erase and kill
  characters among them, is added to the secondary queue, carriage returns as newlines. The cause is
  that \<open>copy_to_cooked\<close> looks for \<open>L_ICANON\<close> in the input flags and never writes after an echo.
\<close>

lemma typing_is_silent:
  assumes "tty_table s = [t]" "tio t = init_termios" "queue_ok (read_q t)" "queue_ok (secondary t)"
    "length (contents (secondary t)) + length (contents (read_q t)) \<le> TTY_BUF_SIZE - 1"
  shows "\<exists>t'. do_tty_interrupt 0 s = Inr (s\<lparr>tty_table := [t']\<rparr>) \<and> contents (read_q t') = [] \<and>
    contents (secondary t') = contents (secondary t) @ map cr_to_nl (contents (read_q t))"
proof -
  obtain t' con where c: "copy_to_cooked (t, the_console s) = (t', con)" by fastforce
  have "con = the_console s" using copy_to_cooked_console [of "(t, the_console s)"] assms(2) by (simp add: c init_flags)
  then have "do_tty_interrupt 0 s = Inr (s\<lparr>tty_table := [t']\<rparr>)" by (simp add: do_tty_interrupt_def assms(1) c)
  moreover have "(contents (read_q t'), contents (secondary t')) = ([], contents (secondary t) @ map cr_to_nl (contents (read_q t)))"
    using line_discipline_refines [OF assms(3,4), of "the_console s"] discipline_init assms(2,5) by (simp add: c)
  ultimately show ?thesis by auto
qed

definition demo_ttys :: "char8 list \<Rightarrow> tty_state" where
  "demo_ttys cs = \<lparr>kernel_tty = init_tty, tty_table = [typed init_termios cs], the_console = demo_console\<rparr>"

lemma typing_is_silent_witness:
  "\<exists>t'. do_tty_interrupt 0 (demo_ttys [0x61, 0x7F, 0x0D]) = Inr ((demo_ttys [0x61, 0x7F, 0x0D])\<lparr>tty_table := [t']\<rparr>) \<and>
    contents (read_q t') = [] \<and> contents (secondary t') = [0x61, 0x7F, 0x0A]"
  using typing_is_silent [of "demo_ttys [0x61, 0x7F, 0x0D]" "typed init_termios [0x61, 0x7F, 0x0D]"]
  by (simp add: demo_ttys_def typed_facts TTY_BUF_SIZE_def cr_to_nl_def ASC_CR_def ASC_NL_def)

section \<open>Messages of the kernel reach the screen\<close>

lemma post_fold:
  "fold (\<lambda>c t. fold echo (post_char (tio t) c) t) cs t =
     t\<lparr>write_q := fold q_put (concat (map (post_char (tio t)) cs)) (write_q t)\<rparr>"
proof (induction cs arbitrary: t)
  case (Cons c cs)
  have "fold echo xs t = t\<lparr>write_q := fold q_put xs (write_q t)\<rparr>" for xs
    by (induction xs arbitrary: t) (simp_all add: echo_def)
  then show ?case by (simp add: Cons.IH)
qed simp

definition crlf :: "char8 \<Rightarrow> char8 list" where "crlf c = (if c = ASC_NL then [ASC_CR, ASC_NL] else [c])"

lemma post_char_init: "post_char init_termios = crlf"
  by (rule ext) (simp add: post_char_def init_flags crlf_def ASC_NL_def)

definition tty_ready :: "vmem \<Rightarrow> tty_state \<Rightarrow> bool" where
  "tty_ready m s \<longleftrightarrow> tio (kernel_tty s) = init_termios \<and> queue_ok (write_q (kernel_tty s)) \<and>
     contents (write_q (kernel_tty s)) = [] \<and> console_ok m (the_console s)"

text \<open>What any message shorter than 1024 characters does, whatever the ring makes of it.\<close>

lemma kernel_tty_write_view:
  assumes "tty_ready m s" "length cs < TTY_BUF_SIZE" "r = kernel_tty_write cs (of_nat (length cs)) s"
  shows "fst r = 0 \<and> tty_ready m (snd r) \<and> tty_table (snd r) = tty_table s \<and>
    view (the_console (snd r)) =
      fold (t_char 0x7F) (contents (fold q_put (concat (map crlf cs)) (write_q (kernel_tty s)))) (view (the_console s))"
proof -
  note s = assms(1)[unfolded tty_ready_def]
  define t1 where "t1 = (kernel_tty s)\<lparr>write_q := fold q_put (concat (map crlf cs)) (write_q (kernel_tty s))\<rparr>"
  have n: "unat (of_nat (length cs) :: u32) = length cs" using assms(2) by (intro unat_of_nat_small) (simp add: TTY_BUF_SIZE_def)
  have post: "fold (\<lambda>c t. fold echo (post_char (tio t) c) t) cs (kernel_tty s) = t1"
    using s by (simp add: post_fold t1_def post_char_init)
  have ok: "queue_ok (write_q t1)" using s by (simp add: t1_def ring.ok_puts)
  obtain q con where w: "console_write (t1, the_console s) = (t1\<lparr>write_q := q\<rparr>, con)" "queue_ok q" "contents q = []"
    using console_write_eq [OF ok, of "the_console s"] by blast
  have "r = (0, s\<lparr>kernel_tty := t1\<lparr>write_q := q\<rparr>, the_console := con\<rparr>)"
    using assms(2) by (simp add: assms(3) kernel_tty_write_def n post w)
  moreover have "console_write (t1, the_console s) =
      (t1\<lparr>write_q := q\<rparr>, update_cursor (fold (console_char 0x7F) (contents (write_q t1)) (the_console s)))"
    using console_write_eq [OF ok, of "the_console s"] w s by (auto simp: t1_def init_flags)
  then have "con = update_cursor (fold (console_char 0x7F) (contents (write_q t1)) (the_console s))" using w by simp
  moreover have "console_ok m (update_cursor s') = console_ok m s'" for s' by (simp add: console_ok_def)
  ultimately show ?thesis using w s driver.look_steps [of m "the_console s"] driver.good_steps [of m "the_console s"]
    by (simp add: tty_ready_def t1_def)
qed

text \<open>
  A message of the kernel is shown in full, newlines as carriage return and newline, when its
  characters with the added returns number at most 1023; the function returns 0 all the same.
\<close>

lemma kernel_message_shown:
  assumes "tty_ready m s" "length (concat (map crlf cs)) \<le> TTY_BUF_SIZE - 1"
  shows "\<exists>s'. kernel_tty_write cs (of_nat (length cs)) s = (0, s') \<and> tty_ready m s' \<and>
    view (the_console s') = fold (t_char 0x7F) (concat (map crlf cs)) (view (the_console s))"
proof -
  have "length cs \<le> length (concat (map crlf cs))" by (induction cs) (simp_all add: crlf_def)
  then have short: "length cs < TTY_BUF_SIZE" using assms(2) by (simp add: TTY_BUF_SIZE_def)
  have "contents (fold q_put (concat (map crlf cs)) (write_q (kernel_tty s))) = concat (map crlf cs)"
    using assms by (simp add: tty_ready_def ring.items_puts)
  then show ?thesis using kernel_tty_write_view [OF assms(1) short refl] by (metis prod.collapse)
qed

lemma demo_ttys_ready: "tty_ready (\<lambda>_. 0) (demo_ttys cs)"
  using demo_console_ok by (simp add: tty_ready_def demo_ttys_def init_tty_def)

lemma kernel_message_shown_witness:
  "\<exists>s'. kernel_tty_write [0x48, 0x69, 0x0A] (of_nat (length [0x48, 0x69, 0x0A :: char8])) (demo_ttys []) = (0, s') \<and> tty_ready (\<lambda>_. 0) s' \<and>
    view (the_console s') = fold (t_char 0x7F) (concat (map crlf [0x48, 0x69, 0x0A])) (view (the_console (demo_ttys [])))"
  by (rule kernel_message_shown [OF demo_ttys_ready]) (simp add: crlf_def ASC_CR_def ASC_NL_def TTY_BUF_SIZE_def)

lemma ring_overrun:
  assumes "queue_ok q" "contents q = []" "TTY_BUF_SIZE \<le> length cs" "length cs < 2 * TTY_BUF_SIZE"
  shows "contents (fold q_put cs q) = drop TTY_BUF_SIZE cs"
proof -
  define a c b where "a = take 1023 cs" and "c = cs ! 1023" and "b = drop 1024 cs"
  have cs: "cs = a @ c # b" using assms(3) id_take_nth_drop [of 1023 cs] by (simp add: a_def b_def c_def TTY_BUF_SIZE_def)
  have la: "length a = TTY_BUF_SIZE - 1" using assms(3) by (simp add: a_def TTY_BUF_SIZE_def)
  have "contents (fold q_put a q) = a" "queue_ok (fold q_put a q)"
    using assms(1,2) la by (simp_all add: ring.items_puts ring.ok_puts)
  then have "contents (q_put c (fold q_put a q)) = []" "queue_ok (q_put c (fold q_put a q))"
    using la by (simp_all add: contents_put_full)
  then have "contents (fold q_put b (q_put c (fold q_put a q))) = b"
    using assms(3,4) by (simp add: ring.items_puts b_def TTY_BUF_SIZE_def)
  then show ?thesis by (simp add: cs la TTY_BUF_SIZE_def)
qed

text \<open>
  A message of 1024 characters or more is dropped without a trace; one that is shorter but grows
  to 1024 or more with the added carriage returns overruns the output queue, and only what follows
  its first 1024 characters is shown.
\<close>

lemma long_message_loses_its_start:
  assumes "tty_ready m s" "TTY_BUF_SIZE \<le> length (concat (map crlf cs))"
  shows "if TTY_BUF_SIZE \<le> length cs
    then length cs < 4294967296 \<longrightarrow> kernel_tty_write cs (of_nat (length cs)) s = (0, s)
    else \<exists>s'. kernel_tty_write cs (of_nat (length cs)) s = (0, s') \<and> tty_ready m s' \<and>
      view (the_console s') = fold (t_char 0x7F) (drop TTY_BUF_SIZE (concat (map crlf cs))) (view (the_console s))"
proof (cases "TTY_BUF_SIZE \<le> length cs")
  case True
  then show ?thesis by (simp add: kernel_tty_write_def unat_of_nat_small)
next
  case False
  have "length (concat (map crlf cs)) \<le> 2 * length cs" by (induction cs) (simp_all add: crlf_def)
  then have "contents (fold q_put (concat (map crlf cs)) (write_q (kernel_tty s))) = drop TTY_BUF_SIZE (concat (map crlf cs))"
    using assms False by (intro ring_overrun) (simp_all add: tty_ready_def)
  then show ?thesis using kernel_tty_write_view [OF assms(1) _ refl, of cs] False by (simp add: not_le) (metis prod.collapse)
qed

lemma long_message_loses_its_start_witness:
  "\<exists>s'. kernel_tty_write (replicate 600 0x0A) 600 (demo_ttys []) = (0, s') \<and> tty_ready (\<lambda>_. 0) s' \<and>
    view (the_console s') = fold (t_char 0x7F) (drop TTY_BUF_SIZE (concat (replicate 600 [0x0D, 0x0A]))) (view (the_console (demo_ttys [])))"
proof -
  have m: "crlf 0x0A = [0x0D, 0x0A]" by (simp add: crlf_def ASC_NL_def ASC_CR_def)
  have "length (concat (replicate 600 [0x0D, 0x0A :: char8])) = 1200" by (simp add: length_concat sum_list_replicate)
  then show ?thesis
    using long_message_loses_its_start [OF demo_ttys_ready, of "replicate 600 0x0A" "[]"] by (simp add: m TTY_BUF_SIZE_def)
qed

end
