(* ===== verification/Format.thy ===== *)
theory Format
  imports C_String Tty
begin

text \<open>
  Formatted output: \<open>number\<close> and \<open>vsprintf\<close> of kernel/vsprintf.c and \<open>printk\<close> and \<open>panic\<close> of
  kernel/printk.c. A format is the list of its bytes without the terminating zero, the arguments are
  the words of the stack that \<open>va_arg\<close> reads one after the other, and the characters stored from
  \<open>buf\<close> on are a list that grows at its end. \<open>int\<close> values are 32-bit words.
\<close>

section \<open>Flags\<close>

definition ZEROPAD :: u32 where "ZEROPAD = 1"
definition SIGN :: u32 where "SIGN = 2"
definition PLUS :: u32 where "PLUS = 4"
definition SPACE :: u32 where "SPACE = 8"
definition LEFT :: u32 where "LEFT = 16"
definition SPECIAL :: u32 where "SPECIAL = 32"
definition SMALL :: u32 where "SMALL = 64"

definition is_digit :: "u8 \<Rightarrow> bool" where "is_digit c \<longleftrightarrow> sint c \<ge> 48 \<and> sint c \<le> 57"

section \<open>Numbers\<close>

text \<open>The 36 digits; \<open>do_div\<close> is the unsigned division instruction.\<close>

definition digits :: "u32 \<Rightarrow> u8 list" where
  "digits type = map of_nat ([48..<58] @ (if flag type SMALL then [97..<123] else [65..<91]))"

function digit_loop :: "u8 list \<Rightarrow> u32 \<Rightarrow> u32 \<Rightarrow> u8 list" where
  "digit_loop ds base num =
     (if num = 0 \<or> base < 2 then [] else ds ! unat (num mod base) # digit_loop ds base (num div base))"
  by pat_completeness auto
termination
proof (relation "measure (\<lambda>(ds, base, num). unat num)")
  fix ds :: "u8 list" and base num :: u32 assume a: "\<not> (num = 0 \<or> base < 2)"
  then have "1 < unat base" "0 < unat num" by (auto simp: word_less_nat_alt unat_gt_0)
  then have "unat num div unat base < unat num" by (intro div_less_dividend) simp_all
  then show "((ds, base, num div base), ds, base, num) \<in> measure (\<lambda>(ds, base, num). unat num)"
    by (simp add: unat_div_distrib)
qed simp

declare digit_loop.simps [simp del]

text \<open>\<open>while (size-- > 0) *str++ = c;\<close>: what is stored, and \<open>size\<close> afterwards.\<close>

definition pad_loop :: "u8 \<Rightarrow> i32 \<Rightarrow> u8 list \<times> i32" where
  "pad_loop c sz = (replicate (nat (sint sz)) c, if 0 <s sz then - 1 else sz - 1)"

text \<open>The sign character (0 for none) and the number that is left to print.\<close>

definition sign_char :: "i32 \<Rightarrow> u32 \<Rightarrow> u8" where
  "sign_char num type =
     (if flag type SIGN \<and> num <s 0 then 45 else if flag type PLUS then 43 else if flag type SPACE then 32 else 0)"

definition unsigned_num :: "i32 \<Rightarrow> u32 \<Rightarrow> u32" where
  "unsigned_num num type = (if flag type SIGN \<and> num <s 0 then - num else num)"

text \<open>What the prefix of a base takes off the width, and the prefix.\<close>

definition special_size :: "i32 \<Rightarrow> u32 \<Rightarrow> i32 \<Rightarrow> i32" where
  "special_size base type sz =
     (if flag type SPECIAL then (if base = 16 then sz - 2 else if base = 8 then sz - 1 else sz) else sz)"

definition special_prefix :: "i32 \<Rightarrow> u32 \<Rightarrow> u8 list \<Rightarrow> u8 list" where
  "special_prefix base type ds =
     (if flag type SPECIAL then (if base = 8 then [48] else if base = 16 then [48, ds ! 33] else []) else [])"

text \<open>Everything stored: blanks, sign and prefix, padding, the digits, blanks.\<close>

definition store_number :: "u32 \<Rightarrow> i32 \<Rightarrow> u8 list \<Rightarrow> u8 list \<Rightarrow> u8 list" where
  "store_number type sz before body =
     (let c = (if flag type ZEROPAD then 48 else 32);
          (blanks, size4) = (if \<not> flag type (ZEROPAD + LEFT) then pad_loop 32 sz else ([], sz));
          (padding, size5) = (if \<not> flag type LEFT then pad_loop c size4 else ([], size4));
          (trailing, size6) = pad_loop 32 size5
      in blanks @ before @ padding @ body @ trailing)"

text \<open>The characters \<open>number\<close> stores, or \<open>None\<close> when it returns 0 for a base it does not know.\<close>

definition number :: "i32 \<Rightarrow> i32 \<Rightarrow> i32 \<Rightarrow> i32 \<Rightarrow> u32 \<Rightarrow> u8 list option" where
  "number num base sz precision type0 =
     (let ds = digits type0;
          type = (if flag type0 LEFT then type0 AND NOT ZEROPAD else type0) in
      if base <s 2 \<or> 36 <s base then None else
      let sign = sign_char num type;
          num1 = unsigned_num num type;
          size1 = (if sign \<noteq> 0 then sz - 1 else sz);
          size2 = special_size base type size1;
          tmp = (if num1 = 0 then [48] else digit_loop ds base num1);
          precision1 = (if int (length tmp) > sint precision then of_nat (length tmp) else precision);
          size3 = size2 - precision1;
          zeros = replicate (nat (sint precision1 - int (length tmp))) 48
      in Some (store_number type size3 ((if sign \<noteq> 0 then [sign] else []) @ special_prefix base type ds) (zeros @ rev tmp)))"

section \<open>Formats\<close>

text \<open>\<open>*fmt\<close> and \<open>++fmt\<close>: at the end of the format stands a zero.\<close>

definition peek :: "u8 list \<Rightarrow> u8" where "peek fmt = (case fmt of [] \<Rightarrow> 0 | c # _ \<Rightarrow> c)"

fun skip_atoi :: "u8 list \<Rightarrow> i32 \<Rightarrow> i32 \<times> u8 list" where
  "skip_atoi [] i = (i, [])"
| "skip_atoi (c # fmt) i = (if is_digit c then skip_atoi fmt (i * 10 + ucast c - 48) else (i, c # fmt))"

fun skip_flags :: "u8 list \<Rightarrow> u32 \<Rightarrow> u32 \<times> u8 list" where
  "skip_flags [] flags = (flags, [])"
| "skip_flags (c # fmt) flags =
     (if c = 0x2D then skip_flags fmt (flags OR LEFT)
      else if c = 0x2B then skip_flags fmt (flags OR PLUS)
      else if c = 0x20 then skip_flags fmt (flags OR SPACE)
      else if c = 0x23 then skip_flags fmt (flags OR SPECIAL)
      else if c = 0x30 then skip_flags fmt (flags OR ZEROPAD)
      else (flags, c # fmt))"

type_synonym va_list = "nat \<Rightarrow> u32"

record spec_state =
  sp_flags :: u32
  sp_width :: i32
  sp_precision :: i32
  sp_arg :: nat
  sp_fmt :: "u8 list"

text \<open>The width: a number, or \<open>*\<close> and the next argument. After a \<open>*\<close> the format moves on only when the argument is negative.\<close>

definition parse_width :: "va_list \<Rightarrow> spec_state \<Rightarrow> spec_state" where
  "parse_width args s =
     (if is_digit (peek (sp_fmt s)) then
        let (w, fmt) = skip_atoi (sp_fmt s) 0 in s\<lparr>sp_width := w, sp_fmt := fmt\<rparr>
      else if peek (sp_fmt s) = 0x2A then
        let w = args (sp_arg s); s1 = s\<lparr>sp_arg := sp_arg s + 1\<rparr> in
        if w <s 0 then s1\<lparr>sp_fmt := tl (sp_fmt s), sp_width := - w, sp_flags := sp_flags s OR LEFT\<rparr>
        else s1\<lparr>sp_width := w\<rparr>
      else s)"

definition parse_precision :: "va_list \<Rightarrow> spec_state \<Rightarrow> spec_state" where
  "parse_precision args s =
     (if peek (sp_fmt s) = 0x2E then
        let s1 = s\<lparr>sp_fmt := tl (sp_fmt s)\<rparr>;
            s2 = (if is_digit (peek (sp_fmt s1)) then
                    let (p, fmt) = skip_atoi (sp_fmt s1) 0 in s1\<lparr>sp_precision := p, sp_fmt := fmt\<rparr>
                  else if peek (sp_fmt s1) = 0x2A then
                    s1\<lparr>sp_fmt := tl (sp_fmt s1), sp_precision := args (sp_arg s1), sp_arg := sp_arg s1 + 1\<rparr>
                  else s1)
        in if sp_precision s2 <s 0 then s2\<lparr>sp_precision := 0\<rparr> else s2
      else s)"

definition parse_qualifier :: "spec_state \<Rightarrow> spec_state" where
  "parse_qualifier s =
     (if peek (sp_fmt s) \<in> {0x68, 0x6C, 0x4C} then s\<lparr>sp_fmt := tl (sp_fmt s)\<rparr> else s)"

definition parse_spec :: "va_list \<Rightarrow> u8 list \<Rightarrow> nat \<Rightarrow> spec_state" where
  "parse_spec args fmt k =
     (let (flags, fmt1) = skip_flags fmt 0
      in parse_qualifier (parse_precision args (parse_width args
           \<lparr>sp_flags = flags, sp_width = - 1, sp_precision = - 1, sp_arg = k, sp_fmt = fmt1\<rparr>)))"

section \<open>Conversions\<close>

text \<open>\<open>while (--w > 0) *str++ = ' ';\<close> and \<open>while (len < w--) *str++ = ' ';\<close>: the blanks, and \<open>w\<close> afterwards.\<close>

definition predec_loop :: "i32 \<Rightarrow> u8 list \<times> i32" where
  "predec_loop w = (replicate (nat (sint (w - 1))) 32, if 0 <s w - 1 then 0 else w - 1)"

definition upto_loop :: "i32 \<Rightarrow> i32 \<Rightarrow> u8 list \<times> i32" where
  "upto_loop len w = (replicate (nat (sint w - sint len)) 32, if len <s w then len - 1 else w - 1)"

text \<open>Bytes read from memory.\<close>

definition take_bytes :: "bytes \<Rightarrow> u32 \<Rightarrow> nat \<Rightarrow> u8 list" where
  "take_bytes m a n = map (\<lambda>i. m (a + of_nat i)) [0..<n]"

text \<open>What a call of \<open>vsprintf\<close> has done so far: characters stored, arguments read, words stored through \<open>%n\<close>.\<close>

record printer =
  stored :: "u8 list"
  next_arg :: nat
  stores :: "(u32 \<times> i32) list"

definition emit :: "u8 list \<Rightarrow> printer \<Rightarrow> printer" where
  "emit cs p = p\<lparr>stored := stored p @ cs\<rparr>"

definition convert_char :: "va_list \<Rightarrow> spec_state \<Rightarrow> printer \<Rightarrow> printer" where
  "convert_char args s p =
     (let (before, w1) = (if flag (sp_flags s) LEFT then ([], sp_width s) else predec_loop (sp_width s));
          (after, w2) = predec_loop w1
      in emit (before @ [ucast (args (next_arg p))] @ after) (p\<lparr>next_arg := next_arg p + 1\<rparr>))"

definition convert_string :: "va_list \<Rightarrow> bytes \<Rightarrow> spec_state \<Rightarrow> printer \<Rightarrow> printer" where
  "convert_string args m s p =
     (let a = args (next_arg p);
          len0 = strlen m a;
          len = (if sp_precision s <s 0 then len0 else if sp_precision s <s len0 then sp_precision s else len0);
          (before, w1) = (if flag (sp_flags s) LEFT then ([], sp_width s) else upto_loop len (sp_width s));
          (after, w2) = upto_loop len w1
      in emit (before @ take_bytes m a (nat (sint len)) @ after) (p\<lparr>next_arg := next_arg p + 1\<rparr>))"

definition convert_number :: "va_list \<Rightarrow> i32 \<Rightarrow> u32 \<Rightarrow> i32 \<Rightarrow> spec_state \<Rightarrow> printer \<Rightarrow> printer" where
  "convert_number args base flags width s p =
     (case number (args (next_arg p)) base width (sp_precision s) flags of
        None \<Rightarrow> p\<lparr>next_arg := next_arg p + 1\<rparr>
      | Some cs \<Rightarrow> emit cs (p\<lparr>next_arg := next_arg p + 1\<rparr>))"

text \<open>One conversion: the printer after it and the format after its letter.\<close>

definition convert :: "va_list \<Rightarrow> bytes \<Rightarrow> spec_state \<Rightarrow> printer \<Rightarrow> printer \<times> u8 list" where
  "convert args m s p0 =
     (let p = p0\<lparr>next_arg := sp_arg s\<rparr>; c = peek (sp_fmt s); fl = sp_flags s; rest = tl (sp_fmt s) in
      if c = 0x63 then (convert_char args s p, rest)
      else if c = 0x73 then (convert_string args m s p, rest)
      else if c = 0x6F then (convert_number args 8 fl (sp_width s) s p, rest)
      else if c = 0x70 then
        (if sp_width s = - 1 then convert_number args 16 (fl OR ZEROPAD) 8 s p
         else convert_number args 16 fl (sp_width s) s p, rest)
      else if c = 0x78 then (convert_number args 16 (fl OR SMALL) (sp_width s) s p, rest)
      else if c = 0x58 then (convert_number args 16 fl (sp_width s) s p, rest)
      else if c = 0x64 \<or> c = 0x69 then (convert_number args 10 (fl OR SIGN) (sp_width s) s p, rest)
      else if c = 0x75 then (convert_number args 10 fl (sp_width s) s p, rest)
      else if c = 0x6E then
        (p\<lparr>stores := stores p @ [(args (next_arg p), of_nat (length (stored p)))], next_arg := next_arg p + 1\<rparr>, rest)
      else (emit ((if c \<noteq> 0x25 then [0x25] else []) @ (if c \<noteq> 0 then [c] else [])) p, rest))"

text \<open>The conversions never lengthen the format, so the loop over it ends.\<close>

lemma length_skip_atoi: "length (snd (skip_atoi fmt i)) \<le> length fmt"
  by (induction fmt i rule: skip_atoi.induct) auto

lemma length_skip_flags: "length (snd (skip_flags fmt fl)) \<le> length fmt"
  by (induction fmt fl rule: skip_flags.induct) auto

lemma length_parse:
  "length (sp_fmt (parse_width args s)) \<le> length (sp_fmt s)"
  "length (sp_fmt (parse_precision args s)) \<le> length (sp_fmt s)"
  "length (sp_fmt (parse_qualifier s)) \<le> length (sp_fmt s)"
  using length_skip_atoi [of "sp_fmt s" 0] length_skip_atoi [of "tl (sp_fmt s)" 0]
  by (auto simp: parse_width_def parse_precision_def parse_qualifier_def Let_def split: prod.splits)

lemma length_parse_spec: "length (sp_fmt (parse_spec args fmt k)) \<le> length fmt"
proof -
  obtain fl f where f: "skip_flags fmt 0 = (fl, f)" by fastforce
  let ?s = "\<lparr>sp_flags = fl, sp_width = - 1, sp_precision = - 1, sp_arg = k, sp_fmt = f\<rparr> :: spec_state"
  have "length (sp_fmt (parse_qualifier (parse_precision args (parse_width args ?s)))) \<le> length f"
    using length_parse(3) [of "parse_precision args (parse_width args ?s)"] length_parse(2) [of args "parse_width args ?s"]
      length_parse(1) [of args ?s] by simp
  then show ?thesis using length_skip_flags [of fmt 0] by (simp add: parse_spec_def f)
qed

lemma snd_convert: "snd (convert args m s p) = tl (sp_fmt s)"
  by (simp add: convert_def Let_def)

function vs_loop :: "va_list \<Rightarrow> bytes \<Rightarrow> u8 list \<Rightarrow> printer \<Rightarrow> printer" where
  "vs_loop args m fmt p =
     (case fmt of
        [] \<Rightarrow> p
      | c # rest \<Rightarrow>
          if c \<noteq> 0x25 then vs_loop args m rest (emit [c] p)
          else let (p1, fmt1) = convert args m (parse_spec args rest (next_arg p)) p in vs_loop args m fmt1 p1)"
  by pat_completeness auto
termination
proof (relation "measure (\<lambda>(args, m, fmt, p). length fmt)", goal_cases)
  case (3 args m fmt p c rest pf p1 fmt1)
  then have "fmt1 = snd (convert args m (parse_spec args rest (next_arg p)) p)" by (metis snd_conv)
  then show ?case using 3 length_parse_spec [of args rest "next_arg p"] by (simp add: snd_convert)
qed auto

declare vs_loop.simps [simp del]

definition vsprintf :: "u8 list \<Rightarrow> va_list \<Rightarrow> bytes \<Rightarrow> printer" where
  "vsprintf fmt args m = vs_loop args m fmt \<lparr>stored = [], next_arg = 0, stores = []\<rparr>"

section \<open>printk and panic\<close>

text \<open>
  The buffer of \<open>printk\<close> has 1024 bytes and the terminating zero is stored too: a longer text
  runs over what lies behind it. The result is the length of the text.
\<close>

definition printk :: "u8 list \<Rightarrow> va_list \<Rightarrow> bytes \<Rightarrow> tty_state \<Rightarrow> (i32 \<times> tty_state) kresult" where
  "printk fmt args m s =
     (let text = stored (vsprintf fmt args m); i = of_nat (length text) in
      if 1024 \<le> length text then Inl (Wild_Access ''printk buf'')
      else Inr (i, snd (kernel_tty_write text i s)))"

definition panic_format :: "u8 list" where
  "panic_format = [0x4B, 0x65, 0x72, 0x6E, 0x65, 0x6C, 0x20, 0x70, 0x61, 0x6E, 0x69, 0x63, 0x3A, 0x20, 0x25, 0x73, 0x0A]"

text \<open>\<open>panic\<close> prints and then spins: its result is the state it spins in.\<close>

definition panic :: "u32 \<Rightarrow> bytes \<Rightarrow> tty_state \<Rightarrow> tty_state kresult" where
  "panic msg m s = rbind (printk panic_format (\<lambda>_. msg) m s) (\<lambda>(i, s'). Inr s')"

section \<open>The digits of a number\<close>

text \<open>Reading a number in a base: the inverse of printing it.\<close>

definition digit_value :: "u8 \<Rightarrow> nat" where
  "digit_value c = (let n = unat c in if n < 58 then n - 48 else if n < 91 then n - 55 else n - 87)"

definition read_digits :: "nat \<Rightarrow> u8 list \<Rightarrow> nat" where
  "read_digits b cs = foldl (\<lambda>n c. n * b + digit_value c) 0 cs"

lemma read_digits_snoc: "read_digits b (cs @ [c]) = read_digits b cs * b + digit_value c"
  by (simp add: read_digits_def)

lemma unat_u8_small: "n < 256 \<Longrightarrow> unat (of_nat n :: u8) = n"
  by (rule unat_u8)

lemma digit_value_digits: "d < 36 \<Longrightarrow> digit_value (digits type ! d) = d"
proof -
  assume d: "d < 36"
  have "digits type ! d = of_nat (if d < 10 then 48 + d else if flag type SMALL then 87 + d else 55 + d)"
    using d by (auto simp: digits_def nth_append simp del: upt_rec_numeral)
  then show ?thesis using d by (simp add: digit_value_def Let_def unat_u8)
qed

lemma digit_loop_step:
  "num \<noteq> 0 \<Longrightarrow> 2 \<le> unat base \<Longrightarrow> digit_loop ds base num = ds ! (unat num mod unat base) # digit_loop ds base (num div base)"
  by (subst digit_loop.simps) (auto simp: word_less_nat_alt unat_mod_distrib)

lemma digit_loop_0 [simp]: "digit_loop ds base 0 = []"
  by (subst digit_loop.simps) simp

lemma digit_loop_facts:
  "ds = digits type \<Longrightarrow> 2 \<le> unat base \<Longrightarrow> unat base \<le> 36 \<Longrightarrow>
     read_digits (unat base) (rev (digit_loop ds base num)) = unat num \<and>
     (num \<noteq> 0 \<longrightarrow> digit_loop ds base num \<noteq> [] \<and> unat base ^ (length (digit_loop ds base num) - 1) \<le> unat num)"
proof (induction ds base num rule: digit_loop.induct)
  case (1 ds base num)
  show ?case
  proof (cases "num = 0")
    case True
    then show ?thesis by (simp add: read_digits_def)
  next
    case False
    let ?q = "num div base" and ?b = "unat base"
    have q: "unat ?q = unat num div ?b" by (rule unat_div_distrib)
    have IH: "read_digits ?b (rev (digit_loop ds base ?q)) = unat ?q"
      "?q \<noteq> 0 \<longrightarrow> digit_loop ds base ?q \<noteq> [] \<and> ?b ^ (length (digit_loop ds base ?q) - 1) \<le> unat ?q"
      using "1.IH" "1.prems" False by (simp_all add: word_less_nat_alt)
    have d: "digit_value (ds ! (unat num mod ?b)) = unat num mod ?b"
      unfolding "1.prems"(1) using "1.prems"(2,3) by (intro digit_value_digits) (metis less_le_trans mod_less_divisor not_less_eq_eq numeral_2_eq_2 less_eq_Suc_le Suc_leD)
    have step: "digit_loop ds base num = ds ! (unat num mod ?b) # digit_loop ds base ?q"
      using False "1.prems"(2) by (rule digit_loop_step)
    have "unat num div ?b * ?b + unat num mod ?b = unat num" by (rule div_mult_mod_eq)
    then have "read_digits ?b (rev (digit_loop ds base num)) = unat num"
      by (simp add: step read_digits_snoc IH(1) d q)
    moreover have "?b ^ (length (digit_loop ds base num) - 1) \<le> unat num"
    proof (cases "?q = 0")
      case True
      then show ?thesis using False by (simp add: step unat_gt_0 Suc_leI)
    next
      case nz: False
      then obtain n where n: "length (digit_loop ds base ?q) = Suc n" using IH(2) by (cases "digit_loop ds base ?q") auto
      then have "?b ^ n \<le> unat num div ?b" using IH(2) nz q by simp
      then have "?b * ?b ^ n \<le> ?b * (unat num div ?b)" by simp
      also have "\<dots> \<le> unat num" by simp
      finally show ?thesis by (simp add: step n)
    qed
    ultimately show ?thesis by (simp add: step)
  qed
qed

lemma digit_loop_length:
  assumes "2 \<le> unat base" "unat base \<le> 36"
  shows "length (digit_loop (digits type) base num) \<le> 32"
proof (cases "num = 0")
  case False
  let ?n = "length (digit_loop (digits type) base num)"
  have "2 ^ (?n - 1) \<le> unat base ^ (?n - 1)" using assms(1) by (rule power_mono) simp
  also have "\<dots> \<le> unat num" using digit_loop_facts [OF refl assms] False by simp
  also have "\<dots> < 2 ^ 32" using unat_u32_lt [of num] by simp
  finally have "?n - 1 < 32" by (rule power_less_imp_less_exp [rotated]) simp
  then show ?thesis by simp
qed simp

section \<open>The layout of a number\<close>

lemma flag_bit: "f = push_bit k 1 \<Longrightarrow> flag fs f \<longleftrightarrow> bit fs k" for fs f :: u32
  by (simp add: flag_def bit_iff_and_push_bit_not_eq_0)

lemma print_flag_bits:
  "flag fs ZEROPAD = bit fs 0" "flag fs SIGN = bit fs 1" "flag fs PLUS = bit fs 2" "flag fs SPACE = bit fs 3"
  "flag fs LEFT = bit fs 4" "flag fs SPECIAL = bit fs 5" "flag fs SMALL = bit fs 6"
  by (rule flag_bit, simp add: ZEROPAD_def SIGN_def PLUS_def SPACE_def LEFT_def SPECIAL_def SMALL_def push_bit_eq_mult)+

lemma flag_pad: "flag fs (ZEROPAD + LEFT) \<longleftrightarrow> bit fs 0 \<or> bit fs 4"
proof -
  have "(ZEROPAD + LEFT) = (push_bit 0 1 OR push_bit 4 1 :: u32)" by (simp add: ZEROPAD_def LEFT_def push_bit_eq_mult)
  then have "fs AND (ZEROPAD + LEFT) = (fs AND push_bit 0 1) OR (fs AND push_bit 4 1)" by (simp only: bit.conj_disj_distrib)
  then show ?thesis using flag_bit [OF refl, of fs 0] flag_bit [OF refl, of fs 4] by (simp only: flag_def or_eq_0_iff) blast
qed

lemma bit_zeropad [simp]: "bit (fs AND NOT ZEROPAD) k \<longleftrightarrow> bit fs k \<and> k \<noteq> 0" for fs :: u32
  by (auto simp: ZEROPAD_def bit_simps dest: bit_imp_le_length)

lemma sint_int: "- 2147483648 \<le> z \<Longrightarrow> z < 2147483648 \<Longrightarrow> sint (word_of_int z :: i32) = z"
  by (simp add: signed_of_int signed_take_bit_int_eq_self_iff)

text \<open>The reference: sign and prefix, digits filled with zeros to the precision, then the width.\<close>

definition sign_of :: "i32 \<Rightarrow> u32 \<Rightarrow> u8 list" where
  "sign_of num type =
     (if flag type SIGN \<and> sint num < 0 then [45] else if flag type PLUS then [43] else if flag type SPACE then [32] else [])"

definition prefix_of :: "nat \<Rightarrow> u32 \<Rightarrow> u8 list" where
  "prefix_of base type =
     (if \<not> flag type SPECIAL then [] else if base = 8 then [48]
      else if base = 16 then [48, if flag type SMALL then 120 else 88] else [])"

definition magnitude :: "i32 \<Rightarrow> u32 \<Rightarrow> nat" where
  "magnitude num type = (if flag type SIGN then nat \<bar>sint num\<bar> else unat num)"

definition layout :: "int \<Rightarrow> u32 \<Rightarrow> u8 list \<Rightarrow> u8 list \<Rightarrow> u8 list" where
  "layout width type before body =
     (let fill = nat (width - int (length before) - int (length body)) in
      if flag type LEFT then before @ body @ replicate fill 32
      else if flag type ZEROPAD then before @ replicate fill 48 @ body
      else replicate fill 32 @ before @ body)"

lemma unat_uminus: "0 < n \<Longrightarrow> unat (w :: u32) = n \<Longrightarrow> unat (- w) = 4294967296 - n"
proof -
  assume n: "0 < n" "unat w = n"
  have "(of_nat (4294967296 - n) :: u32) + w = of_nat (4294967296 - n + n)" using n(2) by (simp only: of_nat_add) (simp flip: n(2))
  also have "\<dots> = 0" using unat_u32_lt [of w] n(2) by simp
  finally have "- w = of_nat (4294967296 - n)" by (metis add_eq_0_iff2 add.inverse_inverse)
  then show ?thesis using unat_of_nat_small [of "4294967296 - n"] n(1) by simp
qed

lemma abs_word: "unat (if sint (num :: i32) < 0 then - num else num) = nat \<bar>sint num\<bar>"
proof -
  obtain n where n: "unat num = n" "n < 4294967296" using unat_u32_lt [of num] by simp
  show ?thesis using unat_uminus [OF _ n(1)] n(2) unfolding sint_unat_u32 n(1) by (auto simp: n(1))
qed

lemma pad_loop_int:
  assumes "- 2147483648 < t" "t < 2147483648"
  shows "pad_loop c (word_of_int t) = (replicate (nat t) c, word_of_int (if 0 < t then -1 else t - 1))"
  using assms by (simp add: pad_loop_def sint_int word_sless_alt)

text \<open>The three padding loops of \<open>number\<close> share one count: only one of them stores anything.\<close>

lemma store_number_pads:
  assumes "- 2147483000 < t" "t < 2147483648" "sz = word_of_int t"
    "flag ty (ZEROPAD + LEFT) = (Z \<or> L)" "flag ty ZEROPAD = (Z \<and> \<not> L)" "flag ty LEFT = L"
  shows "store_number ty sz before body =
    (if L then before @ body @ replicate (nat t) 32
     else if Z then before @ replicate (nat t) 48 @ body
     else replicate (nat t) 32 @ before @ body)"
  unfolding assms(3-6) store_number_def Let_def using assms(1,2) pad_loop_int [of "-1"] by (auto simp: pad_loop_int)

lemma base_range: "2 \<le> unat base \<Longrightarrow> unat base \<le> 36 \<Longrightarrow> \<not> (base <s 2 \<or> 36 <s (base :: i32))"
proof -
  assume b: "2 \<le> unat base" "unat base \<le> 36"
  obtain n where n: "unat base = n" by simp
  have "sint base = int n" unfolding sint_unat_u32 n using b n by simp
  then show ?thesis using b n by (simp add: word_sless_alt)
qed

lemma digits_33: "digits type ! 33 = (if flag type SMALL then 120 else 88)"
  by (simp add: digits_def nth_append)

lemma digits_of_number:
  fixes type :: u32
  assumes "2 \<le> unat base" "unat base \<le> 36" "ds = rev (if n = 0 then [48] else digit_loop (digits type) base n)"
  shows "read_digits (unat base) ds = unat n" "ds \<noteq> []" "length ds \<le> 32" "n \<noteq> 0 \<longrightarrow> unat base ^ (length ds - 1) \<le> unat n"
  using digit_loop_facts [OF refl assms(1,2), of type n] digit_loop_length [OF assms(1,2), of type n] assms(3)
  by (auto simp: read_digits_def digit_value_def)

lemma plain_flags:
  fixes type :: u32
  defines "ty \<equiv> if flag type LEFT then type AND NOT ZEROPAD else type"
  shows "flag ty SIGN = flag type SIGN" "flag ty PLUS = flag type PLUS" "flag ty SPACE = flag type SPACE"
    "flag ty SPECIAL = flag type SPECIAL" "flag ty LEFT = flag type LEFT"
    "flag ty (ZEROPAD + LEFT) = (flag type ZEROPAD \<or> flag type LEFT)"
    "flag ty ZEROPAD = (flag type ZEROPAD \<and> \<not> flag type LEFT)"
  by (auto simp: ty_def print_flag_bits flag_pad)

lemma sign_char_sign: "(if sign_char num type \<noteq> 0 then [sign_char num type] else []) = sign_of num type"
  by (simp add: sign_char_def sign_of_def word_sless_alt)

lemma sign_size: "(if sign_char num type \<noteq> 0 then sz - 1 else sz) = sz - word_of_int (int (length (sign_of num type)))"
  by (simp add: sign_char_def sign_of_def word_sless_alt)

lemma special_size_prefix:
  "special_size base type sz = sz - word_of_int (int (length (prefix_of (unat base) type)))"
  "special_prefix base type (digits type) = prefix_of (unat base) type"
  by (simp_all add: special_size_def special_prefix_def prefix_of_def digits_33 word_unat_eq_iff)

lemma prefix_sign_cong:
  "flag ty SPECIAL = flag type SPECIAL \<Longrightarrow> special_prefix base ty ds = special_prefix base type ds"
  "flag ty SPECIAL = flag type SPECIAL \<Longrightarrow> special_size base ty sz = special_size base type sz"
  "flag ty SIGN = flag type SIGN \<Longrightarrow> unsigned_num num ty = unsigned_num num type"
  "flag ty SIGN = flag type SIGN \<Longrightarrow> flag ty PLUS = flag type PLUS \<Longrightarrow> flag ty SPACE = flag type SPACE \<Longrightarrow>
     sign_char num ty = sign_char num type"
  by (simp_all add: special_prefix_def special_size_def unsigned_num_def sign_char_def)

lemma unsigned_num_magnitude: "unat (unsigned_num num type) = magnitude num type"
  using abs_word [of num] by (auto simp: unsigned_num_def magnitude_def word_sless_alt)

lemma plain_type:
  assumes ty: "(if flag type LEFT then type AND NOT ZEROPAD else type) = ty"
  shows "sign_char num ty = sign_char num type" "unsigned_num num ty = unsigned_num num type"
    "special_size base ty x = x - word_of_int (int (length (prefix_of (unat base) type)))"
    "special_prefix base ty (digits type) = prefix_of (unat base) type" "sign_of num ty = sign_of num type"
    "flag ty (ZEROPAD + LEFT) = (flag type ZEROPAD \<or> flag type LEFT)"
    "flag ty ZEROPAD = (flag type ZEROPAD \<and> \<not> flag type LEFT)" "flag ty LEFT = flag type LEFT"
proof -
  note f = plain_flags [of type, unfolded ty]
  show "sign_char num ty = sign_char num type" using f(1-3) by (rule prefix_sign_cong)
  show "unsigned_num num ty = unsigned_num num type" using f(1) by (rule prefix_sign_cong)
  show "special_size base ty x = x - word_of_int (int (length (prefix_of (unat base) type)))"
    using prefix_sign_cong(2) [OF f(4)] special_size_prefix(1) by (rule trans)
  show "special_prefix base ty (digits type) = prefix_of (unat base) type"
    using prefix_sign_cong(1) [OF f(4)] special_size_prefix(2) by (rule trans)
  show "sign_of num ty = sign_of num type" by (simp only: sign_of_def f)
qed (rule plain_flags(6,7,5) [of type, unfolded ty])+

lemma number_layout:
  assumes "2 \<le> unat base" "unat base \<le> 36" "\<bar>sint width\<bar> < 1000000000" "\<bar>sint precision\<bar> < 1000000000"
  shows "\<exists>ds. number num base width precision type =
      Some (layout (sint width) type (sign_of num type @ prefix_of (unat base) type)
              (replicate (nat (sint precision - int (length ds))) 48 @ ds)) \<and>
    read_digits (unat base) ds = magnitude num type \<and> ds \<noteq> [] \<and> length ds \<le> 32 \<and>
    (magnitude num type = 0 \<or> unat base ^ (length ds - 1) \<le> magnitude num type)"
proof -
  obtain ty where ty: "(if flag type LEFT then type AND NOT ZEROPAD else type) = ty" by simp
  note c = plain_type [OF ty]
  define n where "n = unsigned_num num type"
  define tmp where "tmp = (if n = 0 then [48] else digit_loop (digits type) base n)"
  define before where "before = sign_of num type @ prefix_of (unat base) type"
  define q where "q = max (int (length tmp)) (sint precision)"
  note d = digits_of_number [OF assms(1,2) arg_cong [OF tmp_def, of rev]]
  have prec: "(if int (length tmp) > sint precision then of_nat (length tmp) else precision) = word_of_int q"
    by (simp add: q_def max_def)
  have q: "sint (word_of_int q :: i32) = q" using d(3) assms(4) by (intro sint_int) (auto simp: q_def)
  have lb: "length (sign_of num type) \<le> 1" "length (prefix_of (unat base) type) \<le> 2" by (auto simp: sign_of_def prefix_of_def)
  have size: "width - word_of_int (int (length (sign_of num type))) - word_of_int (int (length (prefix_of (unat base) type))) - word_of_int q =
      word_of_int (sint width - int (length before) - q)"
    by (simp add: before_def)
  have zeros: "nat (q - int (length tmp)) = nat (sint precision - int (length tmp))" by (simp add: q_def)
  have fill: "nat (sint width - int (length before) - q) =
      nat (sint width - int (length before) - int (length (replicate (nat (sint precision - int (length tmp))) (48 :: u8) @ rev tmp)))"
    by (simp add: q_def max_def)
  have "number num base width precision type =
      Some (store_number ty (word_of_int (sint width - int (length before) - q)) before
        (replicate (nat (sint precision - int (length tmp))) 48 @ rev tmp))"
    unfolding number_def Let_def ty c(1-4) n_def [symmetric] tmp_def [symmetric] prec sign_char_sign sign_size size q zeros
    using base_range [OF assms(1,2)] by (simp only: if_False c(5) size before_def [symmetric])
  also have "store_number ty (word_of_int (sint width - int (length before) - q)) before
        (replicate (nat (sint precision - int (length tmp))) 48 @ rev tmp) =
      layout (sint width) type before (replicate (nat (sint precision - int (length tmp))) 48 @ rev tmp)"
  proof -
    have rng: "- 2147483000 < sint width - int (length before) - q" "sint width - int (length before) - q < 2147483648"
      using d(3) assms(3,4) lb by (simp_all add: q_def before_def)
    show ?thesis unfolding store_number_pads [OF rng refl c(6-8)] layout_def Let_def fill ..
  qed
  finally have "number num base width precision type =
      Some (layout (sint width) type before (replicate (nat (sint precision - int (length (rev tmp)))) 48 @ rev tmp))" by simp
  then show ?thesis using d by (intro exI [of _ "rev tmp"])
    (auto simp: before_def unsigned_num_magnitude [of num type, folded n_def] simp flip: unat_eq_0)
qed

text \<open>
  C24. \<open>number\<close> is the reference layout, for every base from 2 to 36, every combination of flags and
  every width and precision within a thousand million: it stores the sign, the prefix of the base
  and the digits of the number in the base, filled with zeros to the precision and padded to the
  width on the side the flags say. The digits read back as the number (the smallest negative one
  included) and have no leading zero; there are at most 32, fewer than the buffer holds.
\<close>

theorem number_is_layout:
  assumes "2 \<le> unat base" "unat base \<le> 36" "\<bar>sint width\<bar> < 1000000000" "\<bar>sint precision\<bar> < 1000000000"
  shows "\<exists>ds. number num base width precision type =
      Some (layout (sint width) type (sign_of num type @ prefix_of (unat base) type)
              (replicate (nat (sint precision - int (length ds))) 48 @ ds)) \<and>
    read_digits (unat base) ds = magnitude num type \<and> ds \<noteq> [] \<and> length ds \<le> 32 \<and>
    (magnitude num type = 0 \<or> unat base ^ (length ds - 1) \<le> magnitude num type)"
  using assms by (rule number_layout)

theorem number_is_layout_witness:
  "\<exists>ds. number (- 2147483648) 10 15 (- 1) (SIGN OR ZEROPAD) =
      Some ([45] @ replicate (14 - length ds) 48 @ ds) \<and> read_digits 10 ds = 2147483648 \<and> length ds \<le> 32"
proof -
  have fl: "flag (SIGN OR ZEROPAD) SIGN = True" "flag (SIGN OR ZEROPAD) ZEROPAD = True" "flag (SIGN OR ZEROPAD) LEFT = False"
    "flag (SIGN OR ZEROPAD) SPECIAL = False"
    by (simp_all add: flag_def SIGN_def ZEROPAD_def LEFT_def SPECIAL_def)
  have n: "sint (- 2147483648 :: i32) = - 2147483648" "unat (10 :: i32) = 10" by simp_all
  obtain ds where "number (- 2147483648) 10 15 (- 1) (SIGN OR ZEROPAD) = Some (layout 15 (SIGN OR ZEROPAD)
      (sign_of (- 2147483648) (SIGN OR ZEROPAD) @ prefix_of 10 (SIGN OR ZEROPAD)) (replicate (nat (- 1 - int (length ds))) 48 @ ds))"
    "read_digits 10 ds = magnitude (- 2147483648) (SIGN OR ZEROPAD)" "length ds \<le> 32"
    using number_is_layout [of 10 15 "- 1" "- 2147483648" "SIGN OR ZEROPAD"] by auto
  then show ?thesis using n by (intro exI [of _ ds]) (simp add: layout_def sign_of_def prefix_of_def magnitude_def fl nat_diff_distrib)
qed

section \<open>Formats\<close>

lemma emit_simps [simp]:
  "stored (emit cs p) = stored p @ cs" "next_arg (emit cs p) = next_arg p" "stores (emit cs p) = stores p"
  "emit cs (emit bs p) = emit (bs @ cs) p" "emit [] p = p"
  by (simp_all add: emit_def)

lemma vs_loop_Nil [simp]: "vs_loop args m [] p = p"
  by (subst vs_loop.simps) simp

lemma vs_loop_char: "c \<noteq> 0x25 \<Longrightarrow> vs_loop args m (c # fmt) p = vs_loop args m fmt (emit [c] p)"
  by (subst vs_loop.simps) simp

lemma vs_loop_conversion:
  "vs_loop args m (0x25 # fmt) p =
     (let (p1, fmt1) = convert args m (parse_spec args fmt (next_arg p)) p in vs_loop args m fmt1 p1)"
  by (subst vs_loop.simps) simp

lemma vs_loop_text: "0x25 \<notin> set cs \<Longrightarrow> vs_loop args m (cs @ fmt) p = vs_loop args m fmt (emit cs p)"
  by (induction cs arbitrary: p) (simp_all add: vs_loop_char)

lemma vsprintf_text: "0x25 \<notin> set cs \<Longrightarrow> stored (vsprintf cs args m) = cs"
  using vs_loop_text [of cs args m "[]"] by (simp add: vsprintf_def)

text \<open>
  A width given as \<open>*\<close> works only for negative arguments: for any other argument the format is
  not moved past the \<open>*\<close>, and "%*d" prints itself, eats the width and leaves the number unread.
\<close>

lemma star_width_prints_itself:
  assumes "0 \<le>s args 0"
  shows "vsprintf [0x25, 0x2A, 0x64] args m = \<lparr>stored = [0x25, 0x2A, 0x64], next_arg = 1, stores = []\<rparr>"
proof -
  have "\<not> args 0 <s 0" using assms by (simp add: word_sless_alt word_sle_eq)
  moreover have "\<not> is_digit 0x2A" by (simp add: is_digit_def)
  ultimately have "parse_spec args [0x2A, 0x64] 0 =
      \<lparr>sp_flags = 0, sp_width = args 0, sp_precision = - 1, sp_arg = 1, sp_fmt = [0x2A, 0x64]\<rparr>"
    by (simp add: parse_spec_def parse_width_def parse_precision_def parse_qualifier_def peek_def)
  then show ?thesis
    by (simp add: vsprintf_def vs_loop_conversion convert_def peek_def vs_loop_char emit_def)
qed

lemma star_width_prints_itself_witness:
  "vsprintf [0x25, 0x2A, 0x64] (\<lambda>_. 5) (\<lambda>_. 0) = \<lparr>stored = [0x25, 0x2A, 0x64], next_arg = 1, stores = []\<rparr>"
  by (rule star_width_prints_itself) (simp add: word_sle_eq)

lemma length_crlf: "length (concat (map crlf cs)) \<le> 2 * length cs"
  by (induction cs) (simp_all add: crlf_def)

lemma printk_view:
  assumes "tty_ready m0 s" "stored (vsprintf fmt args m) = cs" "length cs < 1024" "length (concat (map crlf cs)) \<le> 1023"
  shows "\<exists>s'. printk fmt args m s = Inr (of_nat (length cs), s') \<and> tty_ready m0 s' \<and> tty_table s' = tty_table s \<and>
    view (the_console s') = fold (t_char 0x7F) (concat (map crlf cs)) (view (the_console s))"
proof -
  obtain r s' where k: "kernel_tty_write cs (of_nat (length cs)) s = (r, s')" by fastforce
  have "contents (fold q_put (concat (map crlf cs)) (write_q (kernel_tty s))) = concat (map crlf cs)"
    using assms(1,4) by (simp add: tty_ready_def ring.items_puts TTY_BUF_SIZE_def)
  then show ?thesis
    using assms(2-4) kernel_tty_write_view [OF assms(1) _ k [symmetric]] by (simp add: printk_def k TTY_BUF_SIZE_def)
qed

text \<open>
  \<open>printk\<close> returns the number of characters of its text and shows them on the screen, if they
  are at most 1023 with the carriage returns the terminal adds; a text of 1024 characters or more
  has already run over the buffer.
\<close>

lemma printk_shows:
  assumes "tty_ready m0 s" "text = stored (vsprintf fmt args m)"
  shows "if 1024 \<le> length text then printk fmt args m s = Inl (Wild_Access ''printk buf'')
    else length (concat (map crlf text)) \<le> 1023 \<longrightarrow>
      (\<exists>s'. printk fmt args m s = Inr (of_nat (length text), s') \<and> tty_ready m0 s' \<and> tty_table s' = tty_table s \<and>
        view (the_console s') = fold (t_char 0x7F) (concat (map crlf text)) (view (the_console s)))"
  using printk_view [OF assms(1) assms(2) [symmetric]] assms(2) by (simp add: printk_def)

lemma printk_shows_witness:
  "\<exists>s'. printk [0x48, 0x69, 0x0A] (\<lambda>_. 0) (\<lambda>_. 0) (demo_ttys []) = Inr (3, s') \<and>
    view (the_console s') = fold (t_char 0x7F) [0x48, 0x69, 0x0D, 0x0A] (view demo_console)"
proof -
  have t: "[0x48, 0x69, 0x0A] = stored (vsprintf [0x48, 0x69, 0x0A] (\<lambda>_. 0) (\<lambda>_. 0))" by (simp add: vsprintf_text)
  have c: "concat (map crlf [0x48, 0x69, 0x0A]) = [0x48, 0x69, 0x0D, 0x0A]" by (simp add: crlf_def ASC_NL_def ASC_CR_def)
  show ?thesis using printk_shows [OF demo_ttys_ready [of "[]"] t] unfolding c by (auto simp: demo_ttys_def)
qed

end
