(* ===== verification/Traps.thy ===== *)
theory Traps
  imports Format Phys_Memory
begin

text \<open>
  Exceptions and system calls: the handlers and the gates of kernel/traps.c, the table of system
  calls of kernel/sys.c with the dispatch of kernel/system_call.s, and what the wrappers of
  include/unistd.h make of a result. The addresses of the assembly entry points are arguments; the entries
  themselves are in \<open>System_Call\<close> and \<open>Exception_Entry\<close>. Of the frame the C handlers print three words.
\<close>

section \<open>Exceptions\<close>

datatype exception =
  divide_error_0 | debug_1 | nmi_2 | int3_3 | overflow_4 | bounds_5 | invalid_op_6 | device_not_available_7 |
  double_fault_8 | invalid_TSS_10 | segment_not_present_11 | stack_segment_error_12 | general_protection_13 |
  page_fault_14 | coprocessor_error_16

text \<open>A C string constant as bytes, and one that ends in a newline.\<close>

definition bytes_of :: "string \<Rightarrow> u8 list" where "bytes_of s = map of_char s"
definition line_of :: "string \<Rightarrow> u8 list" where "line_of s = bytes_of s @ [0x0A]"

primrec message :: "exception \<Rightarrow> u8 list" where
  "message divide_error_0 = line_of ''divide error''"
| "message debug_1 = line_of ''debug exception''"
| "message nmi_2 = line_of ''nmi interrupt''"
| "message int3_3 = line_of ''int3 exception''"
| "message overflow_4 = line_of ''overflow exception''"
| "message bounds_5 = line_of ''bounds exception''"
| "message invalid_op_6 = line_of ''invalid op exception''"
| "message device_not_available_7 = line_of ''devicr not available exception''"
| "message double_fault_8 = line_of ''double fault''"
| "message invalid_TSS_10 = line_of ''invalid TSS error''"
| "message segment_not_present_11 = line_of ''segment not present exception''"
| "message stack_segment_error_12 = line_of ''stack segment error''"
| "message general_protection_13 = line_of ''general protection''"
| "message page_fault_14 = line_of ''page fault''"
| "message coprocessor_error_16 = line_of ''coprocessor error''"

record trap_frame =
  f_eip :: u32
  f_cs :: u32
  f_eflags :: u32

text \<open>A \<open>printk\<close> whose result is not used, with one argument.\<close>

definition print1 :: "u8 list \<Rightarrow> u32 \<Rightarrow> bytes \<Rightarrow> tty_state \<Rightarrow> tty_state kresult" where
  "print1 fmt arg m s = rbind (printk fmt (\<lambda>_. arg) m s) (\<lambda>(i, s'). Inr s')"

definition print_context_info :: "trap_frame \<Rightarrow> bytes \<Rightarrow> tty_state \<Rightarrow> tty_state kresult" where
  "print_context_info f m s =
     rbind (print1 (line_of ''eflags %#x'') (f_eflags f) m s)
       (\<lambda>s. rbind (print1 (line_of ''cs %#x'') (f_cs f) m s)
         (\<lambda>s. print1 (line_of ''eip %#x'') (f_eip f) m s))"

text \<open>The handlers \<open>do_divide_error_0\<close> to \<open>do_coprocessor_error_16\<close>, which differ in their message only.\<close>

definition do_exception :: "exception \<Rightarrow> trap_frame \<Rightarrow> bytes \<Rightarrow> tty_state \<Rightarrow> tty_state kresult" where
  "do_exception e f m s = rbind (print1 (message e) 0 m s) (print_context_info f m)"

section \<open>Gates\<close>

definition KERNEL_CS :: u16 where "KERNEL_CS = 0x0008"
definition DPL_0 :: u8 where "DPL_0 = 0"
definition DPL_3 :: u8 where "DPL_3 = 3"

text \<open>\<open>at e\<close> is the address of the assembly entry point of the exception.\<close>

definition trap_init :: "(exception \<Rightarrow> u32) \<Rightarrow> desc_table \<Rightarrow> desc_table" where
  "trap_init at idt0 =
     (let t0 = set_gate idt0 0 TRAP_GATE KERNEL_CS (at divide_error_0) DPL_0;
          t1 = set_gate t0 1 TRAP_GATE KERNEL_CS (at debug_1) DPL_0;
          t2 = set_gate t1 2 TRAP_GATE KERNEL_CS (at nmi_2) DPL_0;
          t3 = set_gate t2 3 TRAP_GATE KERNEL_CS (at int3_3) DPL_3;
          t4 = set_gate t3 4 TRAP_GATE KERNEL_CS (at overflow_4) DPL_3;
          t5 = set_gate t4 5 TRAP_GATE KERNEL_CS (at bounds_5) DPL_3;
          t6 = set_gate t5 6 TRAP_GATE KERNEL_CS (at invalid_op_6) DPL_0;
          t7 = set_gate t6 7 TRAP_GATE KERNEL_CS (at device_not_available_7) DPL_0;
          t8 = set_gate t7 8 TRAP_GATE KERNEL_CS (at double_fault_8) DPL_0;
          t10 = set_gate t8 10 TRAP_GATE KERNEL_CS (at invalid_TSS_10) DPL_0;
          t11 = set_gate t10 11 TRAP_GATE KERNEL_CS (at segment_not_present_11) DPL_0;
          t12 = set_gate t11 12 TRAP_GATE KERNEL_CS (at stack_segment_error_12) DPL_0;
          t13 = set_gate t12 13 TRAP_GATE KERNEL_CS (at general_protection_13) DPL_0
      in set_gate t13 16 TRAP_GATE KERNEL_CS (at coprocessor_error_16) DPL_0)"

section \<open>System calls\<close>

text \<open>The functions the table holds; \<open>sys_fork\<close> is the assembly entry that calls \<open>copy_process\<close>.\<close>

datatype syscall =
  SysExit | SysFork | SysBreak | SysGetpid | SysGetuid | SysPtrace | SysAlarm | SysPause | SysStty | SysGtty |
  SysNice | SysFtime | SysKill | SysRename | SysProf | SysGetgid | SysSignal | SysGeteuid | SysGetegid | SysAcct |
  SysPhys | SysLock | SysMpx | SysUlimit | SysGetppid | SysSigaction | SysSgetmask | SysSsetmask

definition NR_OF_SYSCALLS :: nat where "NR_OF_SYSCALLS = 72"

text \<open>\<open>system_call_init\<close>: the table (a static array, null where nothing is stored) and gate 0x80.\<close>

definition system_call_table :: "nat \<Rightarrow> syscall option" where
  "system_call_table = (\<lambda>_. None)(1 := Some SysExit, 2 := Some SysFork, 17 := Some SysBreak, 20 := Some SysGetpid,
     24 := Some SysGetuid, 26 := Some SysPtrace, 27 := Some SysAlarm, 29 := Some SysPause, 31 := Some SysStty,
     32 := Some SysGtty, 34 := Some SysNice, 35 := Some SysFtime, 37 := Some SysKill, 38 := Some SysRename,
     44 := Some SysProf, 47 := Some SysGetgid, 48 := Some SysSignal, 49 := Some SysGeteuid, 50 := Some SysGetegid,
     51 := Some SysAcct, 52 := Some SysPhys, 53 := Some SysLock, 56 := Some SysMpx, 58 := Some SysUlimit,
     64 := Some SysGetppid, 67 := Some SysSigaction, 68 := Some SysSgetmask, 69 := Some SysSsetmask)"

definition system_call_init :: "u32 \<Rightarrow> desc_table \<Rightarrow> desc_table" where
  "system_call_init system_call idt0 = set_gate idt0 0x80 INTERRUPT_GATE KERNEL_CS system_call DPL_3"

definition ENOSYS :: i32 where "ENOSYS = 38"

text \<open>\<open>sys_ftime\<close>, \<open>sys_break\<close>, \<open>sys_ptrace\<close>, ...: every one returns \<open>-ENOSYS\<close>.\<close>

definition not_implemented :: "syscall \<Rightarrow> bool" where
  "not_implemented f \<longleftrightarrow> f \<in> {SysFtime, SysBreak, SysPtrace, SysStty, SysGtty, SysRename, SysProf, SysAcct, SysPhys,
     SysLock, SysMpx, SysUlimit}"

definition sys_stub :: "syscall \<Rightarrow> i32 option" where
  "sys_stub f = (if not_implemented f then Some (- ENOSYS) else None)"

text \<open>The numbers of include/unistd.h.\<close>

primrec NR :: "syscall \<Rightarrow> nat" where
  "NR SysExit = 1" | "NR SysFork = 2" | "NR SysBreak = 17" | "NR SysGetpid = 20" | "NR SysGetuid = 24"
| "NR SysPtrace = 26" | "NR SysAlarm = 27" | "NR SysPause = 29" | "NR SysStty = 31" | "NR SysGtty = 32"
| "NR SysNice = 34" | "NR SysFtime = 35" | "NR SysKill = 37" | "NR SysRename = 38" | "NR SysProf = 44"
| "NR SysGetgid = 47" | "NR SysSignal = 48" | "NR SysGeteuid = 49" | "NR SysGetegid = 50" | "NR SysAcct = 51"
| "NR SysPhys = 52" | "NR SysLock = 53" | "NR SysMpx = 56" | "NR SysUlimit = 58" | "NR SysGetppid = 64"
| "NR SysSigaction = 67" | "NR SysSgetmask = 68" | "NR SysSsetmask = 69"

text \<open>
  The dispatch: a number above 71 returns -1 at once; any other calls through the table, and a null
  entry is a jump to address 0.
\<close>

datatype dispatched = Bad_Number i32 | Called syscall | Null_Call

definition dispatch :: "u32 \<Rightarrow> dispatched" where
  "dispatch eax =
     (if eax > of_nat NR_OF_SYSCALLS - 1 then Bad_Number (- 1)
      else case system_call_table (unat eax) of Some f \<Rightarrow> Called f | None \<Rightarrow> Null_Call)"

text \<open>The wrappers of include/unistd.h: a negative result becomes -1 and goes negated into \<open>errno\<close>.\<close>

definition syscall_return :: "i32 \<Rightarrow> i32 \<Rightarrow> i32 \<times> i32" where
  "syscall_return res errno = (if 0 \<le>s res then (res, errno) else (- 1, - res))"

section \<open>The table is the one the user library numbers\<close>

lemma table_NR: "system_call_table n = Some f \<longleftrightarrow> n = NR f"
  by (cases f) (auto simp: system_call_table_def)

text \<open>
  C40. The table agrees with the numbers the user library uses: a number reaches a function exactly
  when it is the number of that function in unistd.h, so no two functions share one. Every other
  number below 72 calls address 0, and every larger one returns -1; an unimplemented call
  arrives in the program as -1 with \<open>errno\<close> set to ENOSYS.
\<close>

theorem system_calls_numbered:
  "(dispatch eax = Called f \<longleftrightarrow> eax = of_nat (NR f)) \<and>
   (dispatch eax = Null_Call \<longleftrightarrow> unat eax < 72 \<and> unat eax \<notin> range NR) \<and>
   (dispatch eax = Bad_Number (- 1) \<longleftrightarrow> 72 \<le> unat eax) \<and>
   map_option (\<lambda>r. syscall_return r e) (sys_stub f) = (if not_implemented f then Some (- 1, ENOSYS) else None)"
proof -
  have nr: "NR f < 72" for f by (cases f) simp_all
  have big: "eax > of_nat NR_OF_SYSCALLS - 1 \<longleftrightarrow> 72 \<le> unat eax" by (auto simp: NR_OF_SYSCALLS_def word_less_nat_alt)
  have eq: "eax = of_nat (NR f) \<longleftrightarrow> unat eax = NR f" for f
  proof -
    have "unat (of_nat (NR f) :: u32) = NR f" using nr [of f] by (intro unat_of_nat_small) simp
    then show ?thesis by (simp add: word_unat_eq_iff)
  qed
  have none: "system_call_table n = None \<longleftrightarrow> n \<notin> range NR" for n
    using table_NR [of n] by (cases "system_call_table n") auto
  have inj: "NR g = NR f \<longleftrightarrow> g = f" for f g using table_NR [of "NR f" f] table_NR [of "NR f" g] by auto
  have "unat eax = NR f \<Longrightarrow> \<not> 72 \<le> unat eax" using nr [of f] by simp
  then show ?thesis
    by (auto simp: dispatch_def big eq inj table_NR none not_less sys_stub_def syscall_return_def ENOSYS_def word_sle_eq split: option.splits)
qed

section \<open>The gates of the exceptions\<close>

text \<open>The vector of an exception; \<open>trap_init\<close> has no gate for the page fault, whose gate \<open>mem_init\<close> installs.\<close>

primrec vector :: "exception \<Rightarrow> nat" where
  "vector divide_error_0 = 0" | "vector debug_1 = 1" | "vector nmi_2 = 2" | "vector int3_3 = 3"
| "vector overflow_4 = 4" | "vector bounds_5 = 5" | "vector invalid_op_6 = 6" | "vector device_not_available_7 = 7"
| "vector double_fault_8 = 8" | "vector invalid_TSS_10 = 10" | "vector segment_not_present_11 = 11"
| "vector stack_segment_error_12 = 12" | "vector general_protection_13 = 13" | "vector page_fault_14 = 14"
| "vector coprocessor_error_16 = 16"

definition user_may_raise :: "exception \<Rightarrow> bool" where
  "user_may_raise e \<longleftrightarrow> e \<in> {int3_3, overflow_4, bounds_5}"

definition is_gate :: "seg_desc \<Rightarrow> gate_type \<Rightarrow> u32 \<Rightarrow> u32 \<Rightarrow> bool" where
  "is_gate d k h dpl \<longleftrightarrow> gate_offset d = h \<and> gate_selector d = KERNEL_CS \<and> desc_type d = ucast (gate_code k) \<and>
     desc_present d \<and> desc_dpl d = dpl"

lemma set_gate_at:
  "dpl < 4 \<Longrightarrow> is_gate (set_gate t n k KERNEL_CS h dpl (unat n)) k h (ucast dpl)"
  using gate_fields [of dpl t n k KERNEL_CS h] by (simp add: is_gate_def)

lemma set_gate_other: "i \<noteq> unat n \<Longrightarrow> set_gate t n k cs h dpl i = t i"
  by (simp add: set_gate_def Let_def)

lemma set_gate_at_i: "i = unat n \<Longrightarrow> dpl < 4 \<Longrightarrow> d = ucast dpl \<Longrightarrow> is_gate (set_gate t n k KERNEL_CS h dpl i) k h d"
  using set_gate_at by simp

text \<open>
  After \<open>trap_init\<close> and \<open>system_call_init\<close> every exception but the page fault has, at its vector,
  a present trap gate to its own entry point in the kernel's code segment; programs may raise only
  the breakpoint, overflow and bounds exceptions and the system call themselves. Every other entry of
  the table is what it was, the page fault's included.
\<close>

lemma exception_gates:
  assumes "e \<noteq> page_fault_14"
  shows "is_gate (system_call_init sc (trap_init at t) (vector e)) TRAP_GATE (at e) (if user_may_raise e then 3 else 0) \<and>
    is_gate (system_call_init sc (trap_init at t) 0x80) INTERRUPT_GATE sc 3 \<and>
    (i \<noteq> 0x80 \<and> i \<notin> vector ` (UNIV - {page_fault_14}) \<longrightarrow> system_call_init sc (trap_init at t) i = t i)"
proof -
  have gate: "is_gate (system_call_init sc (trap_init at t) (vector e)) TRAP_GATE (at e) (if user_may_raise e then 3 else 0)"
    using assms by (cases e) (simp_all add: system_call_init_def trap_init_def Let_def set_gate_other set_gate_at_i
      DPL_0_def DPL_3_def user_may_raise_def)
  have sc: "is_gate (system_call_init sc (trap_init at t) 0x80) INTERRUPT_GATE sc 3"
    by (simp add: system_call_init_def set_gate_at_i DPL_3_def)
  have "system_call_init sc (trap_init at t) i = t i" if i: "i \<noteq> 0x80" "i \<notin> vector ` (UNIV - {page_fault_14})"
  proof -
    have "i \<noteq> vector d" if "d \<noteq> page_fault_14" for d using i(2) that by blast
    note ne = this [of divide_error_0] this [of debug_1] this [of nmi_2] this [of int3_3] this [of overflow_4]
      this [of bounds_5] this [of invalid_op_6] this [of device_not_available_7] this [of double_fault_8]
      this [of invalid_TSS_10] this [of segment_not_present_11] this [of stack_segment_error_12]
      this [of general_protection_13] this [of coprocessor_error_16]
    show ?thesis using ne i(1) by (simp add: system_call_init_def trap_init_def Let_def set_gate_other)
  qed
  then show ?thesis using gate sc by blast
qed

lemma exception_gates_witness:
  "is_gate (system_call_init 0x2000 (trap_init (\<lambda>_. 0x1000) (\<lambda>_. \<lparr>low_32 = 0, high_32 = 0\<rparr>)) 3) TRAP_GATE 0x1000 3"
  using exception_gates [of int3_3 "0x2000" "\<lambda>_. 0x1000" "\<lambda>_. \<lparr>low_32 = 0, high_32 = 0\<rparr>" 0] by (simp add: user_may_raise_def)

section \<open>What an exception prints\<close>

lemma bytes_of_simps [simp]: "bytes_of [] = []" "bytes_of (c # cs) = of_char c # bytes_of cs"
  by (simp_all add: bytes_of_def)

lemma parse_hex:
  "parse_spec args (0x23 # 0x78 # cs) k =
     \<lparr>sp_flags = SPECIAL, sp_width = - 1, sp_precision = - 1, sp_arg = k, sp_fmt = 0x78 # cs\<rparr>"
  by (simp add: parse_spec_def parse_width_def parse_precision_def parse_qualifier_def peek_def is_digit_def)

text \<open>\<open>%#x\<close> prints the word in hexadecimal, after "0x".\<close>

lemma vsprintf_hex:
  assumes "0x25 \<notin> set cs"
  shows "\<exists>ds. stored (vsprintf (cs @ [0x25, 0x23, 0x78, 0x0A]) (\<lambda>_. w) m) = cs @ [0x30, 0x78] @ ds @ [0x0A] \<and>
    read_digits 16 ds = unat w \<and> length ds \<le> 32"
proof -
  have fl: "flag (SPECIAL OR SMALL) SIGN = False" "flag (SPECIAL OR SMALL) PLUS = False" "flag (SPECIAL OR SMALL) SPACE = False"
    "flag (SPECIAL OR SMALL) SPECIAL = True" "flag (SPECIAL OR SMALL) SMALL = True" "flag (SPECIAL OR SMALL) LEFT = False"
    "flag (SPECIAL OR SMALL) ZEROPAD = False"
    by (simp_all add: flag_def SIGN_def PLUS_def SPACE_def SPECIAL_def SMALL_def LEFT_def ZEROPAD_def)
  have m1: "sint (- 1 :: i32) = - 1" "unat (16 :: i32) = 16" by simp_all
  obtain ds where ds: "number w 16 (- 1) (- 1) (SPECIAL OR SMALL) =
      Some (layout (- 1) (SPECIAL OR SMALL) (sign_of w (SPECIAL OR SMALL) @ prefix_of 16 (SPECIAL OR SMALL))
        (replicate (nat (- 1 - int (length ds))) 48 @ ds))"
    "read_digits 16 ds = magnitude w (SPECIAL OR SMALL)" "length ds \<le> 32"
    using number_layout [of 16 "- 1" "- 1" w "SPECIAL OR SMALL"] unfolding m1 by auto
  have n: "number w 16 (- 1) (- 1) (SPECIAL OR SMALL) = Some ([0x30, 0x78] @ ds)"
    using ds(1) by (simp add: layout_def sign_of_def prefix_of_def fl)
  have "vs_loop (\<lambda>_. w) m (cs @ [0x25, 0x23, 0x78, 0x0A]) \<lparr>stored = [], next_arg = 0, stores = []\<rparr> =
      emit [0x0A] (emit ([0x30, 0x78] @ ds) (emit cs \<lparr>stored = [], next_arg = 1, stores = []\<rparr>))"
    using n by (simp add: vs_loop_text assms vs_loop_conversion parse_hex convert_def peek_def convert_number_def vs_loop_char emit_def)
  then show ?thesis using ds(2,3) by (intro exI [of _ ds]) (simp add: vsprintf_def magnitude_def fl)
qed

lemma print1_view:
  assumes "tty_ready m0 s" "stored (vsprintf fmt (\<lambda>_. w) m) = cs" "length cs \<le> 511"
  shows "\<exists>s'. print1 fmt w m s = Inr s' \<and> tty_ready m0 s' \<and>
    view (the_console s') = fold (t_char 0x7F) (concat (map crlf cs)) (view (the_console s))"
proof -
  have "length (concat (map crlf cs)) \<le> 1023" using length_crlf [of cs] assms(3) by simp
  then show ?thesis using printk_view [OF assms(1,2)] assms(3) by (auto simp: print1_def)
qed

lemma print1_hex:
  assumes "tty_ready m0 s" "0x25 \<notin> set cs" "length cs \<le> 100"
  shows "\<exists>s' ds. print1 (cs @ [0x25, 0x23, 0x78, 0x0A]) w m s = Inr s' \<and> tty_ready m0 s' \<and> read_digits 16 ds = unat w \<and>
    view (the_console s') = fold (t_char 0x7F) (concat (map crlf (cs @ [0x30, 0x78] @ ds @ [0x0A]))) (view (the_console s))"
proof -
  obtain ds where ds: "stored (vsprintf (cs @ [0x25, 0x23, 0x78, 0x0A]) (\<lambda>_. w) m) = cs @ [0x30, 0x78] @ ds @ [0x0A]"
    "read_digits 16 ds = unat w" "length ds \<le> 32" using vsprintf_hex [OF assms(2)] by blast
  from print1_view [OF assms(1) ds(1)] ds(2,3) assms(3) show ?thesis by auto
qed

lemma message_plain: "0x25 \<notin> set (message e) \<and> length (message e) \<le> 40"
  by (cases e) (simp_all add: line_of_def)

definition register_line :: "string \<Rightarrow> u8 list \<Rightarrow> u8 list" where
  "register_line name ds = bytes_of name @ bytes_of '' 0x'' @ ds @ [0x0A]"

lemma register_formats:
  "line_of ''eflags %#x'' = bytes_of ''eflags '' @ [0x25, 0x23, 0x78, 0x0A]"
  "line_of ''cs %#x'' = bytes_of ''cs '' @ [0x25, 0x23, 0x78, 0x0A]"
  "line_of ''eip %#x'' = bytes_of ''eip '' @ [0x25, 0x23, 0x78, 0x0A]"
  by (simp_all add: line_of_def)

text \<open>
  Every exception is reported in full: with the terminals in order, its handler returns, and the
  screen shows the exception's message and then the flags, the code segment and the address of the
  interrupted instruction, in hexadecimal digits that read back as the words of the frame.
\<close>

lemma exception_reported:
  assumes "tty_ready m0 s"
  shows "\<exists>s' dsf dsc dse. do_exception e f m s = Inr s' \<and> tty_ready m0 s' \<and>
    read_digits 16 dsf = unat (f_eflags f) \<and> read_digits 16 dsc = unat (f_cs f) \<and> read_digits 16 dse = unat (f_eip f) \<and>
    view (the_console s') = fold (t_char 0x7F) (concat (map crlf (message e @ register_line ''eflags'' dsf @
      register_line ''cs'' dsc @ register_line ''eip'' dse))) (view (the_console s))"
proof -
  obtain s1 where s1: "print1 (message e) 0 m s = Inr s1" "tty_ready m0 s1"
    "view (the_console s1) = fold (t_char 0x7F) (concat (map crlf (message e))) (view (the_console s))"
    using print1_view [OF assms vsprintf_text [of "message e" "\<lambda>_. 0" m]] message_plain [of e] by fastforce
  obtain s2 dsf where s2: "print1 (line_of ''eflags %#x'') (f_eflags f) m s1 = Inr s2" "tty_ready m0 s2"
    "read_digits 16 dsf = unat (f_eflags f)" "view (the_console s2) = fold (t_char 0x7F)
      (concat (map crlf (bytes_of ''eflags '' @ [0x30, 0x78] @ dsf @ [0x0A]))) (view (the_console s1))"
    using print1_hex [OF s1(2), of "bytes_of ''eflags ''" "f_eflags f" m] unfolding register_formats by auto
  obtain s3 dsc where s3: "print1 (line_of ''cs %#x'') (f_cs f) m s2 = Inr s3" "tty_ready m0 s3"
    "read_digits 16 dsc = unat (f_cs f)" "view (the_console s3) = fold (t_char 0x7F)
      (concat (map crlf (bytes_of ''cs '' @ [0x30, 0x78] @ dsc @ [0x0A]))) (view (the_console s2))"
    using print1_hex [OF s2(2), of "bytes_of ''cs ''" "f_cs f" m] unfolding register_formats by auto
  obtain s4 dse where s4: "print1 (line_of ''eip %#x'') (f_eip f) m s3 = Inr s4" "tty_ready m0 s4"
    "read_digits 16 dse = unat (f_eip f)" "view (the_console s4) = fold (t_char 0x7F)
      (concat (map crlf (bytes_of ''eip '' @ [0x30, 0x78] @ dse @ [0x0A]))) (view (the_console s3))"
    using print1_hex [OF s3(2), of "bytes_of ''eip ''" "f_eip f" m] unfolding register_formats by auto
  have "do_exception e f m s = Inr s4" using s1(1) s2(1) s3(1) s4(1) by (simp add: do_exception_def print_context_info_def)
  then show ?thesis using s1(3) s2(3,4) s3(3,4) s4(2-4)
    by (intro exI [of _ s4] exI [of _ dsf] exI [of _ dsc] exI [of _ dse]) (simp add: register_line_def)
qed

lemma exception_reported_witness:
  "\<exists>s' dsf dsc dse. do_exception divide_error_0 \<lparr>f_eip = 0x1234, f_cs = 0xF, f_eflags = 0x246\<rparr> (\<lambda>_. 0) (demo_ttys []) = Inr s' \<and>
    read_digits 16 dse = 0x1234 \<and> view (the_console s') = fold (t_char 0x7F) (concat (map crlf (line_of ''divide error'' @
      register_line ''eflags'' dsf @ register_line ''cs'' dsc @ register_line ''eip'' dse))) (view (the_console (demo_ttys [])))"
  using exception_reported [OF demo_ttys_ready [of "[]"], of divide_error_0 "\<lparr>f_eip = 0x1234, f_cs = 0xF, f_eflags = 0x246\<rparr>" "\<lambda>_. 0"]
  by auto

end
