(* ===== verification/Blk_Requests.thy ===== *)
theory Blk_Requests
  imports Cache_Boot
begin

text \<open>
  The request queues of the block devices (driver/ll_rw_blk.c, include/linux/blk_req.h) and the routine
  that reads a block through them (\<open>bread\<close> of fs/buffer.c). A pointer to a request is a number: 0 is
  the null pointer and \<open>i + 1\<close> the address of \<open>request[i]\<close>; at 0 lies what a read through the null
  pointer finds. What the driver of a device does is the argument \<open>run\<close> of the routines that call it.
\<close>

section \<open>State\<close>

record blk_request =
  rq_dev :: i32
  rq_cmd :: i32
  rq_errors :: i32
  rq_sector :: u32
  rq_nr_sector :: u32
  rq_buffer :: u32
  rq_wait_q :: u32
  rq_bh :: u32
  rq_next :: nat

text \<open>The one function the kernel stores in \<open>do_req_fn\<close>.\<close>

datatype driver = Do_Hd_Request

record blk_request_dev =
  do_req_fn :: "driver option"
  req_q :: nat

definition BLK_DEV_KINDS :: nat where "BLK_DEV_KINDS = 7"
definition NUMBER_OF_REQUESTS :: nat where "NUMBER_OF_REQUESTS = 32"
definition BLK_DEV_NUM_HD :: nat where "BLK_DEV_NUM_HD = 3"
definition BLK_READ :: i32 where "BLK_READ = 0"
definition BLK_WRITE :: i32 where "BLK_WRITE = 1"

record blk_state = buffer_state +
  requests :: "nat \<Rightarrow> blk_request"
  blk_dev :: "nat \<Rightarrow> blk_request_dev"
  wait_for_request :: u32

text \<open>\<open>blk_dev\<close> as it is initialised.\<close>

definition no_drivers :: "nat \<Rightarrow> blk_request_dev" where
  "no_drivers = (\<lambda>_. \<lparr>do_req_fn = None, req_q = 0\<rparr>)"

definition upd_req :: "nat \<Rightarrow> (blk_request \<Rightarrow> blk_request) \<Rightarrow> 'a blk_state_scheme \<Rightarrow> 'a blk_state_scheme" where
  "upd_req r f s = s\<lparr>requests := (requests s)(r := f (requests s r))\<rparr>"

section \<open>Queueing a request\<close>

partial_function (option) last_request :: "nat \<Rightarrow> 'a blk_state_scheme \<Rightarrow> nat option" where
  "last_request tmp s =
     (if rq_next (requests s tmp) = 0 then Some tmp else last_request (rq_next (requests s tmp)) s)"

text \<open>
  \<open>add_request\<close>. On an empty queue it assigns the request to the local \<open>tmp\<close> only, and calls the
  driver.
\<close>

definition add_request ::
  "(driver \<Rightarrow> 'a blk_state_scheme \<Rightarrow> 'a blk_state_scheme kresult option) \<Rightarrow> nat \<Rightarrow> nat \<Rightarrow> 'a blk_state_scheme \<Rightarrow>
     'a blk_state_scheme kresult option" where
  "add_request run dev req s =
     (let s1 = upd_req req (\<lambda>r. r\<lparr>rq_next := 0\<rparr>) s;
          s2 = upd_buf (rq_bh (requests s1 req)) (\<lambda>b. b\<lparr>b_dirt := 0\<rparr>) s1;
          tmp = req_q (blk_dev s2 dev)
      in if tmp = 0 then
           let tmp = req in
           (case do_req_fn (blk_dev s2 dev) of
              None \<Rightarrow> Some (Inl (Wild_Access ''do_req_fn''))
            | Some d \<Rightarrow> run d s2)
         else Option.bind (last_request tmp s2) (\<lambda>l. Some (Inr (upd_req l (\<lambda>r. r\<lparr>rq_next := req\<rparr>) s2))))"

definition sleep_on_request ::
  "('a blk_state_scheme \<Rightarrow> 'a blk_state_scheme) \<Rightarrow> 'a blk_state_scheme \<Rightarrow> 'a blk_state_scheme kresult" where
  "sleep_on_request others s =
     rbind (sleep_on_enter (wait_for_request s) s)
       (\<lambda>(tmp, q, s1). Inr (sleep_on_leave tmp (others (s1\<lparr>wait_for_request := q\<rparr>))))"

text \<open>The search from the end of the table for an idle entry, and its repetition after a sleep.\<close>

definition idle_request :: "'a blk_state_scheme \<Rightarrow> nat option" where
  "idle_request s = find (\<lambda>r. rq_dev (requests s r) <s 0) (rev [1..<Suc NUMBER_OF_REQUESTS])"

partial_function (option) get_request ::
  "('a blk_state_scheme \<Rightarrow> 'a blk_state_scheme) \<Rightarrow> 'a blk_state_scheme \<Rightarrow> (nat \<times> 'a blk_state_scheme) kresult option" where
  "get_request others s =
     (case idle_request s of
        Some r \<Rightarrow> Some (Inr (r, s))
      | None \<Rightarrow> obind (Some (sleep_on_request others s)) (\<lambda>s1. get_request others s1))"

definition fill_request :: "i32 \<Rightarrow> u32 \<Rightarrow> buffer_head \<Rightarrow> blk_request \<Rightarrow> blk_request" where
  "fill_request rw bh b r =
     r\<lparr>rq_dev := ucast (b_dev b), rq_cmd := rw, rq_errors := 0, rq_sector := b_blocknr b * 2, rq_nr_sector := 2,
       rq_bh := bh, rq_buffer := b_data b, rq_next := 0\<rparr>"

definition make_request ::
  "('a blk_state_scheme \<Rightarrow> 'a blk_state_scheme) \<Rightarrow> (driver \<Rightarrow> 'a blk_state_scheme \<Rightarrow> 'a blk_state_scheme kresult option) \<Rightarrow>
     nat \<Rightarrow> i32 \<Rightarrow> u32 \<Rightarrow> 'a blk_state_scheme \<Rightarrow> 'a blk_state_scheme kresult option" where
  "make_request others run major rw bh s =
     (if rw \<noteq> BLK_READ \<and> rw \<noteq> BLK_WRITE then Some (Inl (Panic ''Bad block dev command, must be R/W/RA/WA''))
      else obind (lock_buffer others bh s) (\<lambda>s1.
        if rw = BLK_WRITE \<and> b_dirt (bufs s1 bh) = 0 \<or> rw = BLK_READ \<and> b_uptodate (bufs s1 bh) \<noteq> 0
        then Some (Inr (unlock_buffer bh s1))
        else obind (get_request others s1) (\<lambda>(req, s2).
          add_request run major req (upd_req req (fill_request rw bh (bufs s2 bh)) s2))))"

definition ll_rw_block ::
  "('a blk_state_scheme \<Rightarrow> 'a blk_state_scheme) \<Rightarrow> (driver \<Rightarrow> 'a blk_state_scheme \<Rightarrow> 'a blk_state_scheme kresult option) \<Rightarrow>
     i32 \<Rightarrow> u32 \<Rightarrow> 'a blk_state_scheme \<Rightarrow> 'a blk_state_scheme kresult option" where
  "ll_rw_block others run rw bh s =
     (let major = unat (MAJOR (ucast (b_dev (bufs s bh)))) in
      if BLK_DEV_KINDS \<le> major \<or> do_req_fn (blk_dev s major) = None
      then Some (Inr (print_message ''Trying to read nonexistent block-device'' [] s))
      else make_request others run major rw bh s)"

definition blk_req_init :: "'a blk_state_scheme \<Rightarrow> 'a blk_state_scheme" where
  "blk_req_init s = fold (\<lambda>i. upd_req (Suc i) (\<lambda>r. r\<lparr>rq_dev := - 1, rq_next := 0\<rparr>)) [0..<NUMBER_OF_REQUESTS] s"

section \<open>Reading a block\<close>

definition bread ::
  "('a blk_state_scheme \<Rightarrow> 'a blk_state_scheme) \<Rightarrow> (driver \<Rightarrow> 'a blk_state_scheme \<Rightarrow> 'a blk_state_scheme kresult option) \<Rightarrow>
     i32 \<Rightarrow> u32 \<Rightarrow> 'a blk_state_scheme \<Rightarrow> (u32 \<times> 'a blk_state_scheme) kresult option" where
  "bread others run dev block s =
     obind (getblk others dev block s) (\<lambda>(bh, s1).
       if bh = 0 then Some (Inl (Panic ''bread: getblk returned NULL''))
       else if b_uptodate (bufs s1 bh) \<noteq> 0 then Some (Inr (bh, s1))
       else obind (ll_rw_block others run BLK_READ bh s1) (\<lambda>s2.
         obind (wait_on_buffer others bh s2) (\<lambda>s3.
           if b_uptodate (bufs s3 bh) \<noteq> 0 then Some (Inr (bh, s3))
           else obind (brelse others bh s3) (\<lambda>s4. Some (Inr (0, s4))))))"

end
