(* ===== verification/Hard_Disk.thy ===== *)
theory Hard_Disk
  imports Blk_Requests Segments "HOL-Library.Signed_Division"
begin

text \<open>
  The hard disk driver of driver/hd.c. The controller is two input functions: \<open>port_value p n\<close> is what the \<open>n\<close>-th
  read of a port yields when it reads port \<open>p\<close>, and \<open>data_value n\<close> the \<open>n\<close>-th byte read from the data
  port; bytes written are recorded in order. A division by zero traps, and the handler
  returns to the same instruction: it is a call that never returns.
\<close>

section \<open>Constants\<close>

definition MAX_ERRORS :: i32 where "MAX_ERRORS = 7"

definition HD_ERROR :: u16 where "HD_ERROR = 0x1F1"
definition HD_PRECOMP :: u16 where "HD_PRECOMP = HD_ERROR"
definition HD_NSECTOR :: u16 where "HD_NSECTOR = 0x1F2"
definition HD_SECTOR :: u16 where "HD_SECTOR = 0x1F3"
definition HD_LCYL :: u16 where "HD_LCYL = 0x1F4"
definition HD_HCYL :: u16 where "HD_HCYL = 0x1F5"
definition HD_CURRENT :: u16 where "HD_CURRENT = 0x1F6"
definition HD_STATUS :: u16 where "HD_STATUS = 0x1F7"
definition HD_COMMAND :: u16 where "HD_COMMAND = HD_STATUS"
definition HD_CMD :: u16 where "HD_CMD = 0x3F6"

definition ERR_STAT :: u8 where "ERR_STAT = 0x01"
definition DRQ_STAT :: u8 where "DRQ_STAT = 0x08"
definition SEEK_STAT :: u8 where "SEEK_STAT = 0x10"
definition WR_ERR_STAT :: u8 where "WR_ERR_STAT = 0x20"
definition READY_STAT :: u8 where "READY_STAT = 0x40"
definition BUSY_STAT :: u8 where "BUSY_STAT = 0x80"

definition CMD_RESTORE :: u32 where "CMD_RESTORE = 0x10"
definition CMD_READ :: u32 where "CMD_READ = 0x20"
definition CMD_WRITE :: u32 where "CMD_WRITE = 0x30"
definition CMD_INIT_DRIVE_PARAMETER :: u32 where "CMD_INIT_DRIVE_PARAMETER = 0x91"

section \<open>State\<close>

record hd_hw_info =
  hw_head :: i32
  hw_sect :: i32
  hw_cyl :: i32
  hw_wpcom :: i32
  hw_lzone :: i32
  hw_ctl :: i32

record hd_struct =
  start_sect :: i32
  nr_sects :: i32

datatype hd_handler = Recal_Intr | Read_Intr | Write_Intr

record hd_state = blk_state +
  reset_flag :: bool
  recalibrate :: bool
  number_of_hd :: i32
  hd_hw :: "nat \<Rightarrow> hd_hw_info"
  hd_parts :: "nat \<Rightarrow> hd_struct"
  do_hd :: "hd_handler option"
  port_value :: "u16 \<Rightarrow> nat \<Rightarrow> u8"
  ports_read :: nat
  data_value :: "nat \<Rightarrow> u8"
  data_read :: nat
  ports_written :: "(u16 \<times> u8) list"
  data_written :: "u8 list"
  memory :: "u32 \<Rightarrow> u8"

section \<open>Ports\<close>

definition read_port :: "u16 \<Rightarrow> 'a hd_state_scheme \<Rightarrow> u8 \<times> 'a hd_state_scheme" where
  "read_port p s = (port_value s p (ports_read s), s\<lparr>ports_read := ports_read s + 1\<rparr>)"

definition write_port :: "u8 \<Rightarrow> u16 \<Rightarrow> 'a hd_state_scheme \<Rightarrow> 'a hd_state_scheme" where
  "write_port v p s = s\<lparr>ports_written := ports_written s @ [(p, v)]\<rparr>"

text \<open>\<open>rep insw\<close> and \<open>rep outsw\<close>: \<open>n\<close> words between the data port and the memory at \<open>a\<close>.\<close>

definition port_read :: "u32 \<Rightarrow> nat \<Rightarrow> 'a hd_state_scheme \<Rightarrow> 'a hd_state_scheme" where
  "port_read a n s =
     s\<lparr>memory := fold (\<lambda>i m. m(a + of_nat i := data_value s (data_read s + i))) [0..<2 * n] (memory s),
       data_read := data_read s + 2 * n\<rparr>"

definition port_write :: "u32 \<Rightarrow> nat \<Rightarrow> 'a hd_state_scheme \<Rightarrow> 'a hd_state_scheme" where
  "port_write a n s = s\<lparr>data_written := data_written s @ map (\<lambda>i. memory s (a + of_nat i)) [0..<2 * n]\<rparr>"

section \<open>The current request\<close>

definition CURR_REQ :: "'a hd_state_scheme \<Rightarrow> nat" where "CURR_REQ s = req_q (blk_dev s BLK_DEV_NUM_HD)"

abbreviation curr_req :: "'a hd_state_scheme \<Rightarrow> blk_request" where "curr_req s \<equiv> requests s (CURR_REQ s)"

definition set_CURR_REQ :: "nat \<Rightarrow> 'a hd_state_scheme \<Rightarrow> 'a hd_state_scheme" where
  "set_CURR_REQ r s = s\<lparr>blk_dev := (blk_dev s)(BLK_DEV_NUM_HD := (blk_dev s BLK_DEV_NUM_HD)\<lparr>req_q := r\<rparr>)\<rparr>"

definition wake_request :: "'a hd_state_scheme \<Rightarrow> 'a hd_state_scheme" where
  "wake_request s =
     (let (q, s1) = wake_up (rq_wait_q (curr_req s)) s; s2 = upd_req (CURR_REQ s1) (\<lambda>r. r\<lparr>rq_wait_q := q\<rparr>) s1;
          (q2, s3) = wake_up (wait_for_request s2) s2
      in s3\<lparr>wait_for_request := q2\<rparr>)"

definition end_request :: "i32 \<Rightarrow> 'a hd_state_scheme \<Rightarrow> 'a hd_state_scheme" where
  "end_request uptodate s =
     (let s1 = (if rq_bh (curr_req s) \<noteq> 0
                then unlock_buffer (rq_bh (curr_req s)) (upd_buf (rq_bh (curr_req s)) (\<lambda>b. b\<lparr>b_uptodate := ucast uptodate\<rparr>) s)
                else s);
          s2 = (if uptodate = 0
                then print_message ''dev %04x, block %d'' [rq_dev (curr_req s1), b_blocknr (bufs s1 (rq_bh (curr_req s1)))]
                       (print_message ''harddisk I/O error'' [] s1)
                else s1);
          s3 = upd_req (CURR_REQ s2) (\<lambda>r. r\<lparr>rq_dev := - 1\<rparr>) (wake_request s2)
      in set_CURR_REQ (rq_next (curr_req s3)) s3)"

definition bad_rw_intr :: "'a hd_state_scheme \<Rightarrow> 'a hd_state_scheme" where
  "bad_rw_intr s =
     (let s1 = upd_req (CURR_REQ s) (\<lambda>r. r\<lparr>rq_errors := rq_errors r + 1\<rparr>) s;
          s2 = (if MAX_ERRORS \<le>s rq_errors (curr_req s1) then end_request 0 s1 else s1)
      in if 3 <s rq_errors (curr_req s2) then s2\<lparr>reset_flag := True\<rparr> else s2)"

section \<open>The controller\<close>

text \<open>\<open>while (--retries && ...);\<close>\<close>

fun ready_loop :: "nat \<Rightarrow> 'a hd_state_scheme \<Rightarrow> nat \<times> 'a hd_state_scheme" where
  "ready_loop 0 s = (0, s)"
| "ready_loop (Suc retries) s =
     (if retries = 0 then (0, s)
      else let (v, s1) = read_port HD_STATUS s in
           if v AND 0xC0 \<noteq> 0x40 then ready_loop retries s1 else (retries, s1))"

definition controller_ready :: "'a hd_state_scheme \<Rightarrow> nat \<times> 'a hd_state_scheme" where
  "controller_ready s = ready_loop 10000 s"

definition hd_out ::
  "u32 \<Rightarrow> u32 \<Rightarrow> u32 \<Rightarrow> u32 \<Rightarrow> u32 \<Rightarrow> u32 \<Rightarrow> hd_handler \<Rightarrow> 'a hd_state_scheme \<Rightarrow> 'a hd_state_scheme kresult" where
  "hd_out drive nsect sect head cyl cmd intr_addr s =
     (if 2 \<le> drive \<or> 15 < head then Inl (Panic ''Trying to write bad sector'')
      else let (ready, s1) = controller_ready s in
        if ready = 0 then Inl (Panic ''HD controller not ready'')
        else let hw = hd_hw s1 (unat drive);
                 s2 = s1\<lparr>do_hd := Some intr_addr\<rparr>;
                 s3 = write_port (ucast (hw_ctl hw)) HD_CMD s2;
                 s4 = write_port (word_of_int (sint (hw_wpcom hw) sdiv 4)) HD_PRECOMP s3;
                 s5 = write_port (ucast nsect) HD_NSECTOR s4;
                 s6 = write_port (ucast sect) HD_SECTOR s5;
                 s7 = write_port (ucast cyl) HD_LCYL s6;
                 s8 = write_port (ucast (drop_bit 8 cyl)) HD_HCYL s7;
                 s9 = write_port (ucast (0xA0 OR push_bit 4 drive OR head)) HD_CURRENT s8
             in Inr (write_port (ucast cmd) HD_COMMAND s9))"

fun busy_loop :: "nat \<Rightarrow> 'a hd_state_scheme \<Rightarrow> 'a hd_state_scheme" where
  "busy_loop 0 s = s"
| "busy_loop (Suc n) s =
     (let (v, s1) = read_port HD_STATUS s in
      if READY_STAT = v AND (BUSY_STAT OR READY_STAT) then s1 else busy_loop n s1)"

definition drive_busy :: "'a hd_state_scheme \<Rightarrow> bool \<times> 'a hd_state_scheme" where
  "drive_busy s =
     (let (v, s1) = read_port HD_STATUS (busy_loop 10000 s) in
      if v AND (BUSY_STAT OR READY_STAT OR SEEK_STAT) = READY_STAT OR SEEK_STAT then (False, s1)
      else (True, print_message ''HD controller times out'' [] s1))"

definition reset_controller :: "'a hd_state_scheme \<Rightarrow> 'a hd_state_scheme" where
  "reset_controller s =
     (let s1 = write_port (push_bit 2 1) HD_CMD s;
          s2 = write_port (ucast (hw_ctl (hd_hw s1 0) AND 0xF)) HD_CMD s1;
          (busy, s3) = drive_busy s2;
          s4 = (if busy then print_message ''HD-controller still busy'' [] s3 else s3);
          (i, s5) = read_port HD_ERROR s4
      in if i \<noteq> 1 then print_message ''HD-controller reset failed: %02x'' [ucast i] s5 else s5)"

definition cmd_result :: "'a hd_state_scheme \<Rightarrow> bool \<times> 'a hd_state_scheme" where
  "cmd_result s =
     (let (i, s1) = read_port HD_STATUS s in
      if i AND (BUSY_STAT OR READY_STAT OR WR_ERR_STAT OR SEEK_STAT OR ERR_STAT) = READY_STAT OR SEEK_STAT then (False, s1)
      else (True, if i AND 1 \<noteq> 0 then snd (read_port HD_ERROR s1) else s1))"

definition reset_hd :: "nat \<Rightarrow> 'a hd_state_scheme \<Rightarrow> 'a hd_state_scheme kresult" where
  "reset_hd nr s =
     (let s1 = reset_controller s; hw = hd_hw s1 nr
      in hd_out (of_nat nr) (hw_sect hw) (hw_sect hw) (hw_head hw - 1) (hw_cyl hw) CMD_INIT_DRIVE_PARAMETER Recal_Intr s1)"

definition unexpected_hd_interrupt :: "'a hd_state_scheme \<Rightarrow> 'a hd_state_scheme" where
  "unexpected_hd_interrupt s = print_message ''Unexpected HD interrupt'' [] s"

section \<open>Serving requests\<close>

text \<open>The cylinder, head and sector of a block on a drive.\<close>

record chs =
  c_cyl :: u32
  c_head :: u32
  c_sec :: u32

definition chs_of :: "hd_hw_info \<Rightarrow> u32 \<Rightarrow> chs" where
  "chs_of hw abs_block =
     \<lparr>c_cyl = abs_block div hw_sect hw div hw_head hw, c_head = abs_block div hw_sect hw mod hw_head hw,
      c_sec = abs_block mod hw_sect hw + 1\<rparr>"

text \<open>The wait for the controller to take data: \<open>r\<close> is the flag last read.\<close>

fun drq_loop :: "nat \<Rightarrow> u8 \<Rightarrow> 'a hd_state_scheme \<Rightarrow> u8 \<times> 'a hd_state_scheme" where
  "drq_loop 0 r s = (r, s)"
| "drq_loop (Suc n) r s =
     (let (v, s1) = read_port HD_STATUS s; r1 = v AND DRQ_STAT in if r1 \<noteq> 0 then (r1, s1) else drq_loop n r1 s1)"

text \<open>The last part of \<open>do_hd_request\<close>; the result says whether it jumps to \<open>repeat\<close>.\<close>

definition start_command :: "nat \<Rightarrow> chs \<Rightarrow> 'a hd_state_scheme \<Rightarrow> (bool \<times> 'a hd_state_scheme) kresult" where
  "start_command dev p s =
     (if reset_flag s then
        rbind (reset_hd dev (s\<lparr>reset_flag := False, recalibrate := True\<rparr>)) (\<lambda>s1. Inr (False, s1))
      else if recalibrate s then
        rbind (hd_out (of_nat dev) (hw_sect (hd_hw s dev)) 0 0 0 CMD_RESTORE Recal_Intr (s\<lparr>recalibrate := False\<rparr>))
          (\<lambda>s1. Inr (False, s1))
      else if rq_cmd (curr_req s) = BLK_WRITE then
        rbind (hd_out (of_nat dev) (rq_nr_sector (curr_req s)) (c_sec p) (c_head p) (c_cyl p) CMD_WRITE Write_Intr s)
          (\<lambda>s1. let (r, s2) = drq_loop 3000 0 s1 in
             if r = 0 then Inr (True, bad_rw_intr s2)
             else Inr (False, port_write (rq_buffer (curr_req s2)) 256 s2))
      else if rq_cmd (curr_req s) = BLK_READ then
        rbind (hd_out (of_nat dev) (rq_nr_sector (curr_req s)) (c_sec p) (c_head p) (c_cyl p) CMD_READ Read_Intr s)
          (\<lambda>s1. Inr (False, s1))
      else Inl (Panic ''unknown hd-command''))"

text \<open>A request for a partition that is not there, or that reaches past its end.\<close>

definition out_of_range :: "u8 \<Rightarrow> 'a hd_state_scheme \<Rightarrow> bool" where
  "out_of_range dev_minor s \<longleftrightarrow>
     number_of_hd s * 5 \<le>s ucast dev_minor \<or> nr_sects (hd_parts s (unat dev_minor)) < rq_sector (curr_req s) + 2"

partial_function (option) do_hd_request :: "'a hd_state_scheme \<Rightarrow> 'a hd_state_scheme kresult option" where
  "do_hd_request s =
     (if CURR_REQ s = 0 then Some (Inr s)
      else if MAJOR (rq_dev (curr_req s)) \<noteq> of_nat BLK_DEV_NUM_HD then Some (Inl (Panic ''harddisk: request list destroyed''))
      else if rq_bh (curr_req s) \<noteq> 0 \<and> b_lock (bufs s (rq_bh (curr_req s))) = 0 then
        Some (Inl (Panic ''harddisk: block not locked''))
      else let dev_minor = ucast (MINOR (rq_dev (curr_req s))) :: u8 in
        if out_of_range dev_minor s then do_hd_request (end_request 0 s)
        else let abs_block = rq_sector (curr_req s) + start_sect (hd_parts s (unat dev_minor));
                 dev = unat dev_minor div 5; hw = hd_hw s dev in
          if hw_sect hw = 0 \<or> hw_head hw = 0 then None
          else obind (Some (start_command dev (chs_of hw abs_block) s)) (\<lambda>r. if fst r then do_hd_request (snd r) else Some (Inr (snd r))))"

definition run_driver :: "driver \<Rightarrow> 'a hd_state_scheme \<Rightarrow> 'a hd_state_scheme kresult option" where
  "run_driver d s = (case d of Do_Hd_Request \<Rightarrow> do_hd_request s)"

section \<open>Interrupts\<close>

definition recal_intr :: "'a hd_state_scheme \<Rightarrow> 'a hd_state_scheme kresult option" where
  "recal_intr s = (let (bad, s1) = cmd_result s in do_hd_request (if bad then bad_rw_intr s1 else s1))"

definition read_intr :: "'a hd_state_scheme \<Rightarrow> 'a hd_state_scheme kresult option" where
  "read_intr s =
     (let (bad, s1) = cmd_result s in
      if bad then do_hd_request (bad_rw_intr s1)
      else let s2 = port_read (rq_buffer (curr_req s1)) 256 s1;
               s3 = upd_req (CURR_REQ s2) (\<lambda>r. r\<lparr>rq_errors := 0, rq_buffer := rq_buffer r + 512, rq_sector := rq_sector r + 1,
                                             rq_nr_sector := rq_nr_sector r - 1\<rparr>) s2
           in if rq_nr_sector (curr_req s3) \<noteq> 0 then Some (Inr (s3\<lparr>do_hd := Some Read_Intr\<rparr>))
              else do_hd_request (end_request 1 s3))"

definition write_intr :: "'a hd_state_scheme \<Rightarrow> 'a hd_state_scheme kresult option" where
  "write_intr s =
     (let (bad, s1) = cmd_result s in
      if bad then do_hd_request (bad_rw_intr s1)
      else let s2 = upd_req (CURR_REQ s1) (\<lambda>r. r\<lparr>rq_nr_sector := rq_nr_sector r - 1\<rparr>) s1 in
           if rq_nr_sector (curr_req s2) \<noteq> 0 then
             let s3 = upd_req (CURR_REQ s2) (\<lambda>r. r\<lparr>rq_sector := rq_sector r + 1, rq_buffer := rq_buffer r + 512\<rparr>) s2
             in Some (Inr (port_write (rq_buffer (curr_req s3)) 256 (s3\<lparr>do_hd := Some Write_Intr\<rparr>)))
           else do_hd_request (end_request 1 s2))"

text \<open>\<open>hd_interrupt\<close> of kernel/system_call.s: the handler is taken out of \<open>do_hd\<close> and called; both 8259s are acknowledged.\<close>

definition hd_interrupt :: "'a hd_state_scheme \<Rightarrow> 'a hd_state_scheme kresult option" where
  "hd_interrupt s =
     (let s1 = s\<lparr>do_hd := None\<rparr>;
          r = (case do_hd s of
                 None \<Rightarrow> Some (Inr (unexpected_hd_interrupt s1))
               | Some Recal_Intr \<Rightarrow> recal_intr s1
               | Some Read_Intr \<Rightarrow> read_intr s1
               | Some Write_Intr \<Rightarrow> write_intr s1)
      in obind r (\<lambda>s2. Some (Inr (write_port 0x20 0x20 (write_port 0x20 0xA0 s2)))))"

definition hd_init :: "u32 \<Rightarrow> desc_table \<Rightarrow> 'a hd_state_scheme \<Rightarrow> desc_table \<times> 'a hd_state_scheme" where
  "hd_init hd_interrupt_addr idt0 s =
     (let s1 = s\<lparr>blk_dev := (blk_dev s)(BLK_DEV_NUM_HD := (blk_dev s BLK_DEV_NUM_HD)\<lparr>do_req_fn := Some Do_Hd_Request\<rparr>)\<rparr>;
          t = set_gate idt0 0x2E INTERRUPT_GATE 0x0008 hd_interrupt_addr 0;
          (m, s2) = read_port 0x21 s1;
          s3 = write_port (m AND 0xFB) 0x21 s2;
          (v, s4) = read_port 0xA1 s3
      in (t, write_port (v AND 0xBF) 0xA1 s4))"

end
