(* ===== verification/Disk_Requests.thy ===== *)
theory Disk_Requests
  imports Hard_Disk
begin

text \<open>
  What the request queue does with a request: a queue that is not empty is first in, first out; the two
  ways in which no read of a block ever succeeds, without a driver and with one; what it means to end
  a request; and what the driver does with a queue for disks that are not there.
\<close>

section \<open>The queue of a device\<close>

fun queue_at :: "(nat \<Rightarrow> blk_request) \<Rightarrow> nat \<Rightarrow> nat list \<Rightarrow> bool" where
  "queue_at R q [] \<longleftrightarrow> q = 0"
| "queue_at R q (r # rs) \<longleftrightarrow> q = r \<and> r \<noteq> 0 \<and> queue_at R (rq_next (R r)) rs"

lemma queue_at_cong: "(\<And>r. r \<in> set rs \<Longrightarrow> rq_next (R r) = rq_next (R' r)) \<Longrightarrow> queue_at R q rs \<longleftrightarrow> queue_at R' q rs"
  by (induction rs arbitrary: q) auto

lemma upd_req_simps [simp]:
  "requests (upd_req r f s) = (requests s)(r := f (requests s r))" "blk_dev (upd_req r f s) = blk_dev s"
  "bufs (upd_req r f s) = bufs s" "wait_for_request (upd_req r f s) = wait_for_request s" "messages (upd_req r f s) = messages s"
  "current (upd_req r f s) = current s" "task0_addr (upd_req r f s) = task0_addr s" "tstore (upd_req r f s) = tstore s"
  by (simp_all add: upd_req_def)

lemma upd_buf_blk [simp]:
  "requests (upd_buf b f s) = requests s" "blk_dev (upd_buf b f s) = blk_dev s" "wait_for_request (upd_buf b f s) = wait_for_request s"
  by (simp_all add: upd_buf_def)

lemma last_request_last:
  "queue_at (requests s) q rs \<Longrightarrow> rs \<noteq> [] \<Longrightarrow> last_request q s = Some (last rs)"
proof (induction rs arbitrary: q)
  case (Cons r rs)
  show ?case
  proof (cases rs)
    case Nil
    then show ?thesis using Cons.prems by (subst last_request.simps) simp
  next
    case (Cons r' rs')
    then show ?thesis using Cons.IH [of "rq_next (requests s r)"] Cons.prems by (subst last_request.simps) simp
  qed
qed simp

lemma queue_at_snoc:
  "queue_at R q rs \<Longrightarrow> rs \<noteq> [] \<Longrightarrow> distinct rs \<Longrightarrow> r \<notin> set rs \<Longrightarrow> r \<noteq> 0 \<Longrightarrow> rq_next (R r) = 0 \<Longrightarrow>
     queue_at (R(last rs := (R (last rs))\<lparr>rq_next := r\<rparr>)) q (rs @ [r])"
proof (induction rs arbitrary: q)
  case (Cons x rs)
  show ?case
  proof (cases rs)
    case Nil
    then show ?thesis using Cons.prems by auto
  next
    case (Cons y ys)
    have "last (x # rs) = last rs" "x \<noteq> last rs" using Cons Cons.prems(3) by auto
    then show ?thesis using Cons.IH [of "rq_next (R x)"] Cons.prems Cons by auto
  qed
qed simp

text \<open>
  A request joins a queue that is not empty at its end: the driver is not called, and the buffer of the request
  is no longer dirty.
\<close>

lemma add_request_appends:
  assumes "queue_at (requests s) (req_q (blk_dev s d)) rs" "rs \<noteq> []" "distinct rs" "r \<notin> set rs" "r \<noteq> 0"
  shows "\<exists>s'. add_request run d r s = Some (Inr s') \<and> queue_at (requests s') (req_q (blk_dev s' d)) (rs @ [r]) \<and>
    b_dirt (bufs s' (rq_bh (requests s r))) = 0"
proof -
  let ?s1 = "upd_req r (\<lambda>r. r\<lparr>rq_next := 0\<rparr>) s"
  let ?s2 = "upd_buf (rq_bh (requests ?s1 r)) (\<lambda>b. b\<lparr>b_dirt := 0\<rparr>) ?s1"
  have q: "queue_at (requests ?s2) (req_q (blk_dev s d)) rs"
    using assms(1,4) by (subst queue_at_cong [where R' = "requests s"]) auto
  have "req_q (blk_dev s d) \<noteq> 0" using assms(1,2) by (cases rs) auto
  then have "add_request run d r s = Some (Inr (upd_req (last rs) (\<lambda>x. x\<lparr>rq_next := r\<rparr>) ?s2))"
    using last_request_last [OF q assms(2)] by (simp add: add_request_def Let_def)
  moreover have "queue_at ((requests ?s2)(last rs := (requests ?s2 (last rs))\<lparr>rq_next := r\<rparr>)) (req_q (blk_dev s d)) (rs @ [r])"
    by (rule queue_at_snoc [OF q assms(2-5)]) simp
  ultimately show ?thesis by (intro exI [of _ "upd_req (last rs) (\<lambda>x. x\<lparr>rq_next := r\<rparr>) ?s2"]) simp
qed

section \<open>Reading a block that is not in the cache\<close>

lemma blk_more:
  assumes "buffer_state.more (t :: 'a blk_state_scheme) = buffer_state.more s"
  shows "requests t = requests s" "blk_dev t = blk_dev s" "wait_for_request t = wait_for_request s"
  using assms by (cases s; cases t; simp)+

lemma hd_more:
  assumes "blk_state.more (t :: 'a hd_state_scheme) = blk_state.more s"
  shows "number_of_hd t = number_of_hd s" "hd_hw t = hd_hw s" "hd_parts t = hd_parts s" "ports_written t = ports_written s"
    "reset_flag t = reset_flag s" "recalibrate t = recalibrate s" "memory t = memory s" "do_hd t = do_hd s" "data_read t = data_read s"
  using assms by (cases s; cases t; simp)+

text \<open>The state in which \<open>bread\<close> finds the buffer: its own, clean and without data.\<close>

definition cache_miss :: "i32 \<Rightarrow> u32 \<Rightarrow> u32 list \<Rightarrow> u32 \<Rightarrow> 'a buffer_state_scheme \<Rightarrow> bool" where
  "cache_miss dev block xs b s \<longleftrightarrow> cache_rep s xs \<and> 2 \<le> length xs \<and> dev \<noteq> 0 \<and> dev < 0x10000 \<and>
     (\<forall>a \<in> set xs. \<not> holds dev block (bufs s a)) \<and> find (\<lambda>a. ready (bufs s a)) xs = Some b"

lemma fresh_buffer:
  assumes "cache_miss dev block xs b (s :: 'a blk_state_scheme)"
  obtains s1 where "getblk others dev block s = Some (Inr (b, s1))" "b \<noteq> 0" "holds dev block (bufs s1 b)"
    "b_count (bufs s1 b) = 1" "b_dirt (bufs s1 b) = 0" "b_uptodate (bufs s1 b) = 0" "b_lock (bufs s1 b) = 0"
    "requests s1 = requests s" "blk_dev s1 = blk_dev s" "messages s1 = messages s" "buffer_wait s1 = buffer_wait s"
    "cache_rep s1 (remove1 b xs @ [b])" "surroundings s1 = surroundings s"
proof -
  note m = assms [unfolded cache_miss_def]
  obtain s1 where s1: "claim_buffer b dev block s = Inr s1" "getblk others dev block s = Some (Inr (b, s1))"
    "cache_rep s1 (remove1 b xs @ [b])" "payload (bufs s1 b) = claimed dev block (payload (bufs s b))"
    using getblk_takes_first [of s xs dev block b others] m by blast
  have b: "b \<in> set xs" "ready (bufs s b)" using m by (auto simp: find_Some_iff)
  have "0 \<notin> set xs" using m by (simp add: cache_rep_def)
  then have b0: "b \<noteq> 0" using b(1) by blast
  have sur: "surroundings s1 = surroundings s" by (rule claim_buffer_surroundings [OF s1(1)])
  have dev: "(ucast (ucast dev :: u16) :: i32) = dev" using ucast_dev m by blast
  show thesis
  proof (rule that [OF s1(2) b0])
    show "holds dev block (bufs s1 b)" using arg_cong [OF s1(4), of "holds dev block"] by (simp add: holds_def claimed_def dev)
    show "b_count (bufs s1 b) = 1" "b_dirt (bufs s1 b) = 0" "b_uptodate (bufs s1 b) = 0" "b_lock (bufs s1 b) = 0"
      using arg_cong [OF s1(4), of b_count] arg_cong [OF s1(4), of b_dirt] arg_cong [OF s1(4), of b_uptodate]
        arg_cong [OF s1(4), of b_lock] b(2) by (simp_all add: claimed_def ready_def)
    show "requests s1 = requests s" "blk_dev s1 = blk_dev s" using sur blk_more [of s1 s] by (simp_all add: surroundings_def)
    show "messages s1 = messages s" "buffer_wait s1 = buffer_wait s" using sur by (simp_all add: surroundings_def)
  qed (rule s1(3), rule sur)
qed

text \<open>
  Without a driver no block can be read: a \<open>bread\<close> of a block that is not in the cache prints one message and returns a null
  pointer, at once and for every device. The buffer it took is free again, without data, under the name
  of the block.
\<close>

lemma no_driver_no_block:
  assumes "cache_miss dev block xs b s" "\<forall>d. do_req_fn (blk_dev s d) = None"
  shows "\<exists>s'. bread others run dev block s = Some (Inr (0, s')) \<and>
    messages s' = messages s @ [(''Trying to read nonexistent block-device'', [])] \<and> requests s' = requests s \<and>
    holds dev block (bufs s' b) \<and> b_count (bufs s' b) = 0 \<and> b_uptodate (bufs s' b) = 0 \<and> b_lock (bufs s' b) = 0"
proof -
  obtain s1 where s1: "getblk others dev block s = Some (Inr (b, s1))" "b \<noteq> 0" "holds dev block (bufs s1 b)"
    "b_count (bufs s1 b) = 1" "b_uptodate (bufs s1 b) = 0" "b_lock (bufs s1 b) = 0"
    "requests s1 = requests s" "blk_dev s1 = blk_dev s" "messages s1 = messages s"
    by (rule fresh_buffer [OF assms(1), of others])
  let ?s2 = "print_message ''Trying to read nonexistent block-device'' [] s1"
  have ll: "ll_rw_block others run BLK_READ b s1 = Some (Inr ?s2)" using assms(2) by (simp add: ll_rw_block_def Let_def s1(8))
  let ?s3 = "upd_buf b (\<lambda>b. b\<lparr>b_count := b_count b - 1\<rparr>) ?s2"
  have wu: "snd (wake_up (buffer_wait ?s3) ?s3) = ?s3 \<or> (\<exists>f. snd (wake_up (buffer_wait ?s3) ?s3) = ?s3\<lparr>tstore := f\<rparr>)"
    by (auto simp: wake_up_def upd_task_def)
  obtain q s4 where w: "wake_up (buffer_wait ?s3) ?s3 = (q, s4)" by fastforce
  have s4: "bufs s4 = bufs ?s3" "requests s4 = requests ?s3" "messages s4 = messages ?s3" using wu w by auto
  have "bread others run dev block s = Some (Inr (0, s4\<lparr>buffer_wait := q\<rparr>))"
    using s1 ll w by (simp add: bread_def wait_unlocked print_message_def brelse_def Let_def)
  then show ?thesis using s1 s4 by (intro exI [of _ "s4\<lparr>buffer_wait := q\<rparr>"]) (simp add: print_message_def holds_def)
qed

section \<open>The request that is lost\<close>

lemma unlock_buffer_fields:
  "bufs (unlock_buffer b s) = (bufs s)(b := (bufs s b)\<lparr>b_lock := 0, b_wait := 0\<rparr>)"
  "buffer_state.more (unlock_buffer b s) = buffer_state.more s"
  "tstore (unlock_buffer b s) = (if b_wait (bufs s b) \<noteq> 0
     then (tstore s)(b_wait (bufs s b) := (tstore s (b_wait (bufs s b)))\<lparr>state := TASK_RUNNING\<rparr>) else tstore s)"
proof -
  define s1 where "s1 = (if b_lock (bufs s b) = 0 then print_message ''try to unlock a unlocked buffer'' [] s else s)"
  have f: "bufs s1 = bufs s" "buffer_state.more s1 = buffer_state.more s" "tstore s1 = tstore s"
    by (simp_all add: s1_def print_message_def)
  have e: "unlock_buffer b s = (let s2 = upd_buf b (\<lambda>b. b\<lparr>b_lock := 0\<rparr>) s1; (q, s3) = wake_up (b_wait (bufs s2 b)) s2
      in upd_buf b (\<lambda>b. b\<lparr>b_wait := q\<rparr>) s3)"
    by (simp add: unlock_buffer_def s1_def Let_def)
  show "bufs (unlock_buffer b s) = (bufs s)(b := (bufs s b)\<lparr>b_lock := 0, b_wait := 0\<rparr>)"
    "buffer_state.more (unlock_buffer b s) = buffer_state.more s"
    "tstore (unlock_buffer b s) = (if b_wait (bufs s b) \<noteq> 0
     then (tstore s)(b_wait (bufs s b) := (tstore s (b_wait (bufs s b)))\<lparr>state := TASK_RUNNING\<rparr>) else tstore s)"
    using f by (simp_all add: e Let_def wake_up_def upd_task_def upd_buf_def)
qed

text \<open>
  What the kernel does while a task sleeps, seen from the locks of the buffers and the queue of the disk. They are
  written by \<open>lock_buffer\<close> (once the buffer is unlocked), by \<open>make_request\<close>, which unlocks a buffer that it has just
  locked when there is nothing to transfer and otherwise hands a free table entry to \<open>add_request\<close>, and by the interrupt of the disk
  with all it calls. Everything else (schedule and the other interrupts, the lists of the cache, counts and contents of buffers, claims
  of buffers, sleeping and waking) leaves the locks, the queues and \<open>do_hd\<close> alone.
\<close>

inductive kernel_step :: "'a hd_state_scheme \<Rightarrow> 'a hd_state_scheme \<Rightarrow> bool" where
  locks: "b_lock (bufs s c) = 0 \<Longrightarrow> kernel_step s (upd_buf c (\<lambda>b. b\<lparr>b_lock := 1\<rparr>) s)"
| already_valid: "b_lock (bufs s c) = 0 \<Longrightarrow> kernel_step s (unlock_buffer c (upd_buf c (\<lambda>b. b\<lparr>b_lock := 1\<rparr>) s))"
| requests_block: "idle_request s = Some r \<Longrightarrow>
    add_request run_driver BLK_DEV_NUM_HD r (upd_req r (fill_request rw c (bufs s c)) s) = Some (Inr t) \<Longrightarrow> kernel_step s t"
| disk_interrupts: "hd_interrupt s = Some (Inr t) \<Longrightarrow> kernel_step s t"
| works_elsewhere: "(\<And>c. b_lock (bufs t c) = b_lock (bufs s c)) \<Longrightarrow> blk_dev t = blk_dev s \<Longrightarrow> do_hd t = do_hd s \<Longrightarrow> kernel_step s t"

text \<open>Another task that takes a buffer for a block of its own is a step of the last kind.\<close>

lemma upd_buf_locks: "(\<And>h. b_lock (f h) = b_lock h) \<Longrightarrow> b_lock (bufs (upd_buf c f s) p) = b_lock (bufs s p)"
  by (simp add: upd_buf_def)

lemma remove_from_queues_locks: "remove_from_queues c s = Inr t \<Longrightarrow> b_lock (bufs t p) = b_lock (bufs s p)"
  by (auto simp: remove_from_queues_def unlink_hash_def unlink_free_def Let_def upd_buf_locks split: if_splits)

lemma insert_into_queues_locks: "b_lock (bufs (insert_into_queues c s) p) = b_lock (bufs s p)"
  by (simp add: insert_into_queues_def link_free_def link_hash_def Let_def upd_buf_locks)

lemma claim_buffer_locks:
  assumes "claim_buffer c dev block s = Inr t"
  shows "b_lock (bufs t p) = b_lock (bufs s p)"
proof -
  obtain u where u: "remove_from_queues c (upd_buf c (\<lambda>b. b\<lparr>b_count := 1, b_dirt := 0, b_uptodate := 0\<rparr>) s) = Inr u"
    "t = insert_into_queues c (upd_buf c (\<lambda>b. b\<lparr>b_dev := ucast dev, b_blocknr := block\<rparr>) u)"
    using assms by (auto simp: claim_buffer_def rbind_eq_Inr)
  have "b_lock (bufs u p) = b_lock (bufs s p)" using remove_from_queues_locks [OF u(1), of p] by (simp split: if_splits)
  then show ?thesis unfolding u(2) insert_into_queues_locks by auto
qed

lemma hd_more_of_buffer:
  fixes s t :: "'a hd_state_scheme"
  shows "buffer_state.more t = buffer_state.more s \<Longrightarrow> do_hd t = do_hd s"
    "buffer_state.more t = buffer_state.more s \<Longrightarrow> ports_written t = ports_written s"
  by (cases s; cases t; simp)+

lemma claim_is_step:
  assumes "claim_buffer c dev block (s :: 'a hd_state_scheme) = Inr t"
  shows "kernel_step s t"
proof -
  have more: "buffer_state.more t = buffer_state.more s" using claim_buffer_surroundings [OF assms] by (simp add: surroundings_def)
  show ?thesis by (rule works_elsewhere [OF claim_buffer_locks [OF assms] blk_more(2) [OF more] hd_more_of_buffer(1) [OF more]])
qed

text \<open>The state in which nothing will ever happen to the buffer: it is locked, the queue of the disk is empty and no interrupt is expected.\<close>

definition lost :: "u32 \<Rightarrow> 'a hd_state_scheme \<Rightarrow> bool" where
  "lost b s \<longleftrightarrow> b_lock (bufs s b) \<noteq> 0 \<and> CURR_REQ s = 0 \<and> do_hd s = None"

lemma lost_cong:
  "b_lock (bufs t b) = b_lock (bufs s b) \<Longrightarrow> blk_dev t = blk_dev s \<Longrightarrow> do_hd t = do_hd s \<Longrightarrow> lost b t = lost b s"
  by (simp add: lost_def CURR_REQ_def)

lemma unlock_buffer_keeps_queue:
  fixes s :: "'a hd_state_scheme"
  shows "blk_dev (unlock_buffer c s) = blk_dev s" "do_hd (unlock_buffer c s) = do_hd s"
  by (rule blk_more [OF unlock_buffer_fields(2)], rule hd_more_of_buffer(1) [OF unlock_buffer_fields(2)])

lemma request_when_empty:
  assumes "CURR_REQ s = 0" "add_request run_driver BLK_DEV_NUM_HD r s = Some (Inr t)"
  shows "b_lock (bufs t c) = b_lock (bufs s c)" "blk_dev t = blk_dev s" "do_hd t = do_hd s"
proof -
  let ?s1 = "upd_req r (\<lambda>r. r\<lparr>rq_next := 0\<rparr>) s"
  let ?s2 = "upd_buf (rq_bh (requests ?s1 r)) (\<lambda>b. b\<lparr>b_dirt := 0\<rparr>) ?s1"
  have z: "req_q (blk_dev s BLK_DEV_NUM_HD) = 0" using assms(1) by (simp add: CURR_REQ_def)
  then obtain d where "do_req_fn (blk_dev s BLK_DEV_NUM_HD) = Some d" "run_driver d ?s2 = Some (Inr t)"
    using assms(2) by (auto simp: add_request_def Let_def split: option.splits)
  moreover have "do_hd_request ?s2 = Some (Inr ?s2)" using z by (simp add: do_hd_request.simps CURR_REQ_def)
  ultimately have "t = ?s2" by (cases d) (simp add: run_driver_def)
  then show "b_lock (bufs t c) = b_lock (bufs s c)" "blk_dev t = blk_dev s" "do_hd t = do_hd s"
    by (simp_all add: upd_buf_def upd_req_def)
qed

lemma lost_stays:
  assumes "kernel_step s t" "lost b s"
  shows "lost b t"
  using assms
proof (cases rule: kernel_step.cases)
  case (locks c)
  then show ?thesis using assms(2) by (auto simp: lost_def CURR_REQ_def upd_buf_def)
next
  case (already_valid c)
  then have "c \<noteq> b" using assms(2) by (auto simp: lost_def)
  then show ?thesis unfolding already_valid(1)
    using assms(2) by (subst lost_cong [of _ b s]) (simp_all add: unlock_buffer_fields unlock_buffer_keeps_queue, simp_all add: upd_buf_def)
next
  case (requests_block r rw c)
  let ?u = "upd_req r (fill_request rw c (bufs s c)) s"
  have u: "CURR_REQ ?u = 0" "bufs ?u = bufs s" "blk_dev ?u = blk_dev s" "do_hd ?u = do_hd s"
    using assms(2) by (simp_all add: lost_def CURR_REQ_def upd_req_def)
  show ?thesis using assms(2) request_when_empty [OF u(1) requests_block(2)] u by (subst lost_cong [of _ b s]) simp_all
next
  case disk_interrupts
  then have "t = write_port 0x20 0x20 (write_port 0x20 0xA0 (unexpected_hd_interrupt (s\<lparr>do_hd := None\<rparr>)))"
    using assms(2) by (simp add: hd_interrupt_def lost_def Let_def)
  then show ?thesis using assms(2) by (simp add: lost_def CURR_REQ_def write_port_def unexpected_hd_interrupt_def print_message_def)
next
  case works_elsewhere
  then show ?thesis using assms(2) by (subst lost_cong [of _ b s])
qed

lemma lost_for_ever: "rtranclp kernel_step s t \<Longrightarrow> lost b s \<Longrightarrow> lost b t"
  by (induction rule: rtranclp_induct) (auto intro: lost_stays)

lemma sleep_keeps_lost:
  assumes "\<And>t. rtranclp kernel_step t (others t)" "lost b (t :: 'a hd_state_scheme)" "sleep_on_buffer others b t = Inr t1"
  shows "lost b t1"
proof -
  obtain tmp q t0 where e: "sleep_on_enter (b_wait (bufs t b)) t = Inr (tmp, q, t0)"
    "t1 = sleep_on_leave tmp (others (upd_buf b (\<lambda>b. b\<lparr>b_wait := q\<rparr>) t0))"
    using assms(3) by (auto simp: sleep_on_buffer_def rbind_eq_Inr)
  have same: "lost b u = lost b v" if "sched_state.more u = sched_state.more v" for u v :: "'a hd_state_scheme"
    using that by (cases u; cases v; simp add: lost_def CURR_REQ_def)
  have "lost b t0" using same [OF sleep_on_enter_more [OF e(1)]] assms(2) by simp
  then have "lost b (upd_buf b (\<lambda>b. b\<lparr>b_wait := q\<rparr>) t0)" by (simp add: lost_def CURR_REQ_def upd_buf_def)
  then have "lost b (others (upd_buf b (\<lambda>b. b\<lparr>b_wait := q\<rparr>) t0))" using lost_for_ever [OF assms(1)] by blast
  then show ?thesis unfolding e(2) using same [OF sleep_on_leave_more] by blast
qed

lemma wait_lost:
  assumes "wait_on_buffer others b t = Some r" "\<And>t. rtranclp kernel_step t (others t)" "lost b (t :: 'a hd_state_scheme)"
  shows "r = Inl task0_sleeps"
  using assms
proof (induction others b t r rule: wait_on_buffer.raw_induct [rotated, consumes 1, case_names step])
  case (step w others b t r)
  have "obind (Some (sleep_on_buffer others b t)) (w others b) = Some r" using step(2) step.prems(2) by (simp add: lost_def)
  then show ?case
  proof (cases rule: obind_cases)
    case (error e)
    then show ?thesis by (auto simp: sleep_on_buffer_def rbind_eq_Inl dest: sleep_on_enter_panics)
  next
    case (ok t1)
    then have "lost b t1" using sleep_keeps_lost [OF step.prems(1,2)] by simp
    then show ?thesis using step.IH [OF ok(2) step.prems(1)] by blast
  qed
qed

text \<open>
  The state after a read of the buffer \<open>b\<close> was added with the entry \<open>r\<close> to the queue of the disk while it was empty: the driver has
  found nothing to do.
\<close>

definition request_dropped :: "u32 \<Rightarrow> nat \<Rightarrow> 'a hd_state_scheme \<Rightarrow> 'a hd_state_scheme" where
  "request_dropped b r s = (let t = upd_buf b (\<lambda>b. b\<lparr>b_lock := 1\<rparr>) s
     in upd_buf b (\<lambda>b. b\<lparr>b_dirt := 0\<rparr>) (upd_req r (\<lambda>r. r\<lparr>rq_next := 0\<rparr>) (upd_req r (fill_request BLK_READ b (bufs t b)) t)))"

lemma read_when_empty:
  assumes "unat (MAJOR (ucast (b_dev (bufs s b)))) = 3" "b_uptodate (bufs s b) = 0" "b_lock (bufs s b) = 0"
    "blk_dev s 3 = \<lparr>do_req_fn = Some Do_Hd_Request, req_q = 0\<rparr>" "idle_request s = Some r"
  shows "ll_rw_block others run_driver BLK_READ b s = Some (Inr (request_dropped b r s))"
proof -
  let ?t = "upd_buf b (\<lambda>b. b\<lparr>b_lock := 1\<rparr>) s" and ?s2 = "request_dropped b r s"
  have "idle_request ?t = Some r" using assms(5) by (simp add: idle_request_def)
  then have get: "get_request others ?t = Some (Inr (r, ?t))" by (simp add: get_request.simps)
  have "do_hd_request ?s2 = Some (Inr ?s2)"
    using assms(4) by (simp add: do_hd_request.simps CURR_REQ_def BLK_DEV_NUM_HD_def request_dropped_def Let_def)
  then have add: "add_request run_driver 3 r (upd_req r (fill_request BLK_READ b (bufs ?t b)) ?t) = Some (Inr ?s2)"
    using assms(4) by (simp add: add_request_def Let_def fill_request_def run_driver_def request_dropped_def)
  have "make_request others run_driver 3 BLK_READ b s = Some (Inr ?s2)"
    using assms(2,3) get add by (simp add: make_request_def lock_buffer_def wait_unlocked BLK_READ_def BLK_WRITE_def)
  then show ?thesis using assms(1,4) by (simp add: ll_rw_block_def Let_def BLK_DEV_KINDS_def)
qed

text \<open>
  C33. With the driver installed a read never ends either. The first request finds the queue empty, is assigned to a
  local variable and not to the queue, and the driver that is called finds nothing to do: the table
  entry is taken for ever, the buffer is locked and no command has reached the disk. From then on the buffer is locked in every state
  that steps of the kernel lead to, whatever other tasks lock, unlock and request and whatever interrupts the disk sends; so with
  such steps while the task sleeps \<open>bread\<close> does not return (task 0 panics when it has to wait).
\<close>

theorem first_request_is_lost:
  assumes "cache_miss dev block xs b (s :: 'a hd_state_scheme)" "MAJOR dev = 3" "blk_dev s 3 = \<lparr>do_req_fn = Some Do_Hd_Request, req_q = 0\<rparr>"
    "idle_request s = Some r" "do_hd s = None"
  shows "\<exists>s1 s2. getblk others dev block s = Some (Inr (b, s1)) \<and> ll_rw_block others run_driver BLK_READ b s1 = Some (Inr s2) \<and>
    b_lock (bufs s2 b) = 1 \<and> rq_bh (requests s2 r) = b \<and> \<not> rq_dev (requests s2 r) <s 0 \<and> blk_dev s2 = blk_dev s \<and>
    ports_written s2 = ports_written s \<and> (\<forall>t. rtranclp kernel_step s2 t \<longrightarrow> b_lock (bufs t b) \<noteq> 0) \<and>
    ((\<forall>t. rtranclp kernel_step t (others t)) \<longrightarrow> (\<nexists>x. bread others run_driver dev block s = Some (Inr x)))"
proof -
  obtain s1 where s1: "getblk others dev block s = Some (Inr (b, s1))" "b \<noteq> 0" "holds dev block (bufs s1 b)"
    "b_uptodate (bufs s1 b) = 0" "b_lock (bufs s1 b) = 0" "requests s1 = requests s" "blk_dev s1 = blk_dev s" "surroundings s1 = surroundings s"
    by (rule fresh_buffer [OF assms(1), of others])
  let ?s2 = "request_dropped b r s1"
  have ll: "ll_rw_block others run_driver BLK_READ b s1 = Some (Inr ?s2)"
    using s1(3-7) assms(2-4) by (intro read_when_empty) (simp_all add: holds_def idle_request_def)
  have "do_hd s1 = None" using s1(8) assms(5) hd_more_of_buffer(1) [of s1 s] by (simp add: surroundings_def)
  then have lost: "lost b ?s2" using assms(3) s1(7)
    by (simp add: lost_def request_dropped_def Let_def CURR_REQ_def BLK_DEV_NUM_HD_def) (simp add: upd_buf_def upd_req_def)
  have "bread others run_driver dev block s \<noteq> Some (Inr x)" if env: "\<forall>t. rtranclp kernel_step t (others t)" for x
  proof
    assume "bread others run_driver dev block s = Some (Inr x)"
    then have "obind (wait_on_buffer others b ?s2) (\<lambda>s3. if b_uptodate (bufs s3 b) \<noteq> 0 then Some (Inr (b, s3))
        else obind (brelse others b s3) (\<lambda>s4. Some (Inr (0, s4)))) = Some (Inr x)"
      using s1(1,2,4) ll by (simp add: bread_def)
    then show False
    proof (cases rule: obind_cases)
      case (ok s3)
      then show False using wait_lost [OF ok(1) _ lost] env by simp
    qed simp
  qed
  moreover have "b_lock (bufs t b) \<noteq> 0" if "rtranclp kernel_step ?s2 t" for t using lost_for_ever [OF that lost] by (simp add: lost_def)
  moreover have "rq_dev (requests ?s2 r) = dev" using s1(3) by (simp add: request_dropped_def Let_def fill_request_def holds_def)
  moreover have "unat dev < 0x10000" using assms(1) by (simp add: cache_miss_def word_less_nat_alt)
  moreover have "ports_written ?s2 = ports_written s" "blk_dev ?s2 = blk_dev s" "b_lock (bufs ?s2 b) = 1" "rq_bh (requests ?s2 r) = b"
    using s1(7,8) hd_more_of_buffer(2) [of s1 s]
    by (simp_all add: request_dropped_def Let_def fill_request_def surroundings_def) (simp add: upd_buf_def upd_req_def)
  ultimately show ?thesis using s1(1) ll by (intro exI [of _ s1] exI [of _ ?s2]) (simp add: sless_0_iff)
qed

section \<open>Ending a request\<close>

lemma wake_request_fields:
  "bufs (wake_request s) = bufs s" "blk_dev (wake_request s) = blk_dev s" "blk_state.more (wake_request s) = blk_state.more s"
  "requests (wake_request s) = (requests s)(CURR_REQ s := (curr_req s)\<lparr>rq_wait_q := 0\<rparr>)"
  "state (tstore s a) = TASK_RUNNING \<Longrightarrow> state (tstore (wake_request s) a) = TASK_RUNNING"
  by (auto simp: wake_request_def Let_def wake_up_def upd_task_def upd_req_def CURR_REQ_def)

lemma end_request_fields:
  "bufs (end_request u s) = (if rq_bh (curr_req s) \<noteq> 0 then (bufs s)(rq_bh (curr_req s) :=
     (bufs s (rq_bh (curr_req s)))\<lparr>b_uptodate := ucast u, b_lock := 0, b_wait := 0\<rparr>) else bufs s)"
  "requests (end_request u s) = (requests s)(CURR_REQ s := (curr_req s)\<lparr>rq_wait_q := 0, rq_dev := - 1\<rparr>)"
  "CURR_REQ (end_request u s) = rq_next (curr_req s)"
  "blk_state.more (end_request u s) = blk_state.more s"
  "\<And>a. rq_bh (curr_req s) \<noteq> 0 \<Longrightarrow> b_wait (bufs s (rq_bh (curr_req s))) = a \<Longrightarrow> a \<noteq> 0 \<Longrightarrow>
     state (tstore (end_request u s) a) = TASK_RUNNING"
proof -
  define s1 where "s1 = (if rq_bh (curr_req s) \<noteq> 0
                then unlock_buffer (rq_bh (curr_req s)) (upd_buf (rq_bh (curr_req s)) (\<lambda>b. b\<lparr>b_uptodate := ucast u\<rparr>) s) else s)"
  define s2 where "s2 = (if u = 0 then print_message ''dev %04x, block %d'' [rq_dev (curr_req s1), b_blocknr (bufs s1 (rq_bh (curr_req s1)))]
                       (print_message ''harddisk I/O error'' [] s1) else s1)"
  have m1: "buffer_state.more s1 = buffer_state.more s" by (simp add: s1_def unlock_buffer_fields upd_buf_def)
  have m2: "buffer_state.more s2 = buffer_state.more s1" "bufs s2 = bufs s1" "tstore s2 = tstore s1" by (simp_all add: s2_def print_message_def)
  have c: "requests s2 = requests s" "blk_dev s2 = blk_dev s" using blk_more [OF m1] blk_more [OF m2(1)] by simp_all
  then have cr: "CURR_REQ s2 = CURR_REQ s" by (simp add: CURR_REQ_def)
  have e: "end_request u s = (let s3 = upd_req (CURR_REQ s2) (\<lambda>r. r\<lparr>rq_dev := - 1\<rparr>) (wake_request s2)
      in set_CURR_REQ (rq_next (curr_req s3)) s3)" by (simp add: end_request_def s1_def s2_def Let_def)
  note w = wake_request_fields [of s2]
  have b1: "bufs s1 = (if rq_bh (curr_req s) \<noteq> 0 then (bufs s)(rq_bh (curr_req s) :=
     (bufs s (rq_bh (curr_req s)))\<lparr>b_uptodate := ucast u, b_lock := 0, b_wait := 0\<rparr>) else bufs s)"
    by (simp add: s1_def unlock_buffer_fields)
  have cw: "CURR_REQ (wake_request s2) = CURR_REQ s" using w(2) c(2) by (simp add: CURR_REQ_def)
  show "bufs (end_request u s) = (if rq_bh (curr_req s) \<noteq> 0 then (bufs s)(rq_bh (curr_req s) :=
     (bufs s (rq_bh (curr_req s)))\<lparr>b_uptodate := ucast u, b_lock := 0, b_wait := 0\<rparr>) else bufs s)"
    using b1 m2(2) w(1) by (simp add: e Let_def set_CURR_REQ_def)
  have cu: "CURR_REQ (upd_req r f t) = CURR_REQ t" for r f and t :: "'a hd_state_scheme" by (simp add: CURR_REQ_def)
  show "requests (end_request u s) = (requests s)(CURR_REQ s := (curr_req s)\<lparr>rq_wait_q := 0, rq_dev := - 1\<rparr>)"
    using w(4) c(1) by (simp add: e Let_def set_CURR_REQ_def cr)
  show "CURR_REQ (end_request u s) = rq_next (curr_req s)"
    using w(4) c(1) cw by (simp add: e Let_def set_CURR_REQ_def CURR_REQ_def [of "_ \<lparr>blk_dev := _\<rparr>"] cr cu)
  have "blk_state.more s2 = blk_state.more s" using m1 m2(1) by (cases s; cases s2; cases s1; simp)
  then show "blk_state.more (end_request u s) = blk_state.more s" using w(3) by (simp add: e Let_def set_CURR_REQ_def upd_req_def)
  show "state (tstore (end_request u s) a) = TASK_RUNNING"
    if "rq_bh (curr_req s) \<noteq> 0" "b_wait (bufs s (rq_bh (curr_req s))) = a" "a \<noteq> 0" for a
  proof -
    have "state (tstore s2 a) = TASK_RUNNING" using that by (simp add: m2(3) s1_def unlock_buffer_fields)
    then show ?thesis using w(5) [of a] by (simp add: e Let_def set_CURR_REQ_def)
  qed
qed

section \<open>The queue as a list\<close>

text \<open>
  What the two sides of a request queue promise each other: the side of the file system adds at the end (and not
  to an empty queue), the driver works on the first and takes it off when it is done.
\<close>

locale request_queue =
  fixes rep :: "'s \<Rightarrow> nat list \<Rightarrow> bool" and add :: "nat \<Rightarrow> 's \<Rightarrow> 's kresult option" and finish :: "i32 \<Rightarrow> 's \<Rightarrow> 's"
    and front :: "'s \<Rightarrow> nat"
  assumes add_last: "rep s rs \<Longrightarrow> rs \<noteq> [] \<Longrightarrow> r \<notin> set rs \<Longrightarrow> r \<noteq> 0 \<Longrightarrow> \<exists>s'. add r s = Some (Inr s') \<and> rep s' (rs @ [r])"
    and finish_first: "rep s (r # rs) \<Longrightarrow> rep (finish u s) rs"
    and front_first: "rep s rs \<Longrightarrow> front s = (case rs of [] \<Rightarrow> 0 | r # _ \<Rightarrow> r)"
begin

lemma adds:
  "rep s rs \<Longrightarrow> rs \<noteq> [] \<Longrightarrow> distinct (rs @ ns) \<Longrightarrow> 0 \<notin> set ns \<Longrightarrow>
     \<exists>s'. foldl (\<lambda>m r. obind m (add r)) (Some (Inr s)) ns = Some (Inr s') \<and> rep s' (rs @ ns)"
proof (induction ns arbitrary: s rs)
  case (Cons n ns)
  then obtain s1 where "add n s = Some (Inr s1)" "rep s1 (rs @ [n])" using add_last [of s rs n] by auto
  then show ?case using Cons.IH [of s1 "rs @ [n]"] Cons.prems by simp
qed simp

lemma finishes: "rep s rs \<Longrightarrow> length us \<le> length rs \<Longrightarrow> rep (fold finish us s) (drop (length us) rs)"
proof (induction us arbitrary: s rs)
  case (Cons u us)
  then obtain r rs' where "rs = r # rs'" by (cases rs) auto
  then show ?case using Cons finish_first [of s r rs' u] by simp
qed simp

lemma in_order:
  assumes "rep s rs" "rs \<noteq> []" "distinct (rs @ ns)" "0 \<notin> set ns"
  shows "\<exists>s'. foldl (\<lambda>m r. obind m (add r)) (Some (Inr s)) ns = Some (Inr s') \<and>
    (\<forall>us. length us \<le> length (rs @ ns) \<longrightarrow>
      front (fold finish us s') = (if length us = length (rs @ ns) then 0 else (rs @ ns) ! length us))"
proof -
  obtain s' where s': "foldl (\<lambda>m r. obind m (add r)) (Some (Inr s)) ns = Some (Inr s')" "rep s' (rs @ ns)"
    using adds [OF assms] by blast
  have "front (fold finish us s') = (if length us = length (rs @ ns) then 0 else (rs @ ns) ! length us)"
    if us: "length us \<le> length (rs @ ns)" for us
  proof (cases "length us = length (rs @ ns)")
    case True
    then have "rep (fold finish us s') []" using finishes [OF s'(2) us] by simp
    then show ?thesis using front_first True by fastforce
  next
    case False
    then have "drop (length us) (rs @ ns) = (rs @ ns) ! length us # drop (Suc (length us)) (rs @ ns)"
      using us by (intro Cons_nth_drop_Suc [symmetric]) simp
    then show ?thesis using front_first [OF finishes [OF s'(2) us]] False by simp
  qed
  then show ?thesis using s'(1) by blast
qed

end

definition queue_rep :: "'a hd_state_scheme \<Rightarrow> nat list \<Rightarrow> bool" where
  "queue_rep s rs \<longleftrightarrow> queue_at (requests s) (CURR_REQ s) rs \<and> distinct rs"

lemma end_request_pops:
  assumes "queue_rep s (r # rs)"
  shows "queue_rep (end_request u s) rs"
proof -
  note q = assms [unfolded queue_rep_def]
  then have r: "CURR_REQ s = r" "r \<notin> set rs" by auto
  note e = end_request_fields [where u = u and s = s, unfolded r(1)]
  have "queue_at (requests (end_request u s)) (CURR_REQ (end_request u s)) rs \<longleftrightarrow> queue_at (requests s) (rq_next (requests s r)) rs"
    unfolding e(3) using r(2) by (intro queue_at_cong) (auto simp: e(2))
  then show ?thesis using q by (simp add: queue_rep_def)
qed

interpretation disk_fifo: request_queue queue_rep "add_request run_driver BLK_DEV_NUM_HD" end_request CURR_REQ
proof unfold_locales
  fix s :: "'a hd_state_scheme" and rs r
  assume "queue_rep s rs" "rs \<noteq> []" "r \<notin> set rs" "r \<noteq> 0"
  then show "\<exists>s'. add_request run_driver BLK_DEV_NUM_HD r s = Some (Inr s') \<and> queue_rep s' (rs @ [r])"
    using add_request_appends [of s BLK_DEV_NUM_HD rs r run_driver] by (auto simp: queue_rep_def CURR_REQ_def)
next
  show "queue_rep s (r # rs) \<Longrightarrow> queue_rep (end_request u s) rs" for s :: "'a hd_state_scheme" and r rs u by (rule end_request_pops)
next
  show "queue_rep s rs \<Longrightarrow> CURR_REQ s = (case rs of [] \<Rightarrow> 0 | r # _ \<Rightarrow> r)" for s :: "'a hd_state_scheme" and rs
    by (cases rs) (simp_all add: queue_rep_def)
qed

text \<open>
  C27. The queue of the disk, once it is not empty, is first in, first out: requests that are added to it one
  after the other come to the front in that order, each when the ones before it have been ended, with
  success or with an error, and after the last the queue is empty. The driver is not called meanwhile.
\<close>

theorem requests_served_in_order:
  assumes "queue_rep s rs" "rs \<noteq> []" "distinct (rs @ ns)" "0 \<notin> set ns"
  shows "\<exists>s'. foldl (\<lambda>m r. obind m (add_request run_driver BLK_DEV_NUM_HD r)) (Some (Inr s)) ns = Some (Inr s') \<and>
    (\<forall>us. length us \<le> length (rs @ ns) \<longrightarrow>
      CURR_REQ (fold end_request us s') = (if length us = length (rs @ ns) then 0 else (rs @ ns) ! length us))"
  by (rule disk_fifo.in_order [OF assms])

section \<open>A queue for disks that are not there\<close>

lemma u8_not_negative: "0 \<le>s (ucast (m :: u8) :: i32)"
proof -
  have u: "unat (ucast m :: i32) = unat m" "unat m < 256"
    using unsigned_less [of m, where ?'a = nat] by (simp_all add: unsigned_ucast_eq take_bit_nat_eq_self_iff)
  then show ?thesis unfolding word_sle_eq sint_unat_u32 by simp
qed

text \<open>The requests of a queue as \<open>make_request\<close> leaves them: for the disk, each with a locked buffer of its own.\<close>

definition disk_queue :: "'a hd_state_scheme \<Rightarrow> nat list \<Rightarrow> bool" where
  "disk_queue s rs \<longleftrightarrow> queue_at (requests s) (CURR_REQ s) rs \<and> distinct rs \<and> distinct (map (\<lambda>r. rq_bh (requests s r)) rs) \<and>
     (\<forall>r \<in> set rs. MAJOR (rq_dev (requests s r)) = 3 \<and> rq_bh (requests s r) \<noteq> 0 \<and> b_lock (bufs s (rq_bh (requests s r))) \<noteq> 0)"

lemma disk_queue_step:
  assumes "disk_queue s (r # rs)"
  shows "disk_queue (end_request u s) rs" "CURR_REQ s = r" "r \<noteq> 0"
proof -
  note d = assms [unfolded disk_queue_def]
  show r: "CURR_REQ s = r" "r \<noteq> 0" using d by auto
  note e = end_request_fields [where u = u and s = s, unfolded r(1)]
  have q: "requests (end_request u s) x = requests s x" if "x \<in> set rs" for x using d that by (auto simp: e)
  have "rq_bh (requests s r) \<notin> (\<lambda>x. rq_bh (requests s x)) ` set rs" using d by simp
  then have b: "rq_bh (requests s x) \<noteq> rq_bh (requests s r)" if "x \<in> set rs" for x using that by (metis image_eqI)
  have "queue_at (requests s) (rq_next (requests s r)) rs" using d by auto
  then have "queue_at (requests (end_request u s)) (CURR_REQ (end_request u s)) rs"
    unfolding e(3) using q by (subst queue_at_cong [where R' = "requests s"]) auto
  moreover have eq: "map (\<lambda>r. rq_bh (requests (end_request u s) r)) rs = map (\<lambda>r. rq_bh (requests s r)) rs" using q by simp
  have "distinct (map (\<lambda>r. rq_bh (requests (end_request u s) r)) rs)" unfolding eq using d by simp
  moreover have "\<forall>x \<in> set rs. MAJOR (rq_dev (requests (end_request u s) x)) = 3 \<and> rq_bh (requests (end_request u s) x) \<noteq> 0 \<and>
      b_lock (bufs (end_request u s) (rq_bh (requests (end_request u s) x))) \<noteq> 0"
    using d q b by (simp add: e(1))
  ultimately show "disk_queue (end_request u s) rs" using d by (simp add: disk_queue_def)
qed

text \<open>
  C22. The driver never counts a disk (\<open>number_of_hd\<close> stays 0), and then \<open>do_hd_request\<close> ends: it takes one request
  after the other off the queue with an error, and leaves the queue empty, every entry idle, and every buffer
  unlocked and without data; nothing reaches the disk.
\<close>

theorem no_disk_drains_queue:
  assumes "disk_queue s rs" "number_of_hd s = 0"
  shows "\<exists>s'. do_hd_request s = Some (Inr s') \<and> CURR_REQ s' = 0 \<and> ports_written s' = ports_written s \<and>
    (\<forall>r \<in> set rs. rq_dev (requests s' r) = - 1 \<and> b_lock (bufs s' (rq_bh (requests s r))) = 0 \<and>
       b_uptodate (bufs s' (rq_bh (requests s r))) = 0) \<and>
    (\<forall>r. r \<notin> set rs \<longrightarrow> requests s' r = requests s r) \<and>
    (\<forall>b. b \<notin> (\<lambda>r. rq_bh (requests s r)) ` set rs \<longrightarrow> bufs s' b = bufs s b)"
  using assms
proof (induction rs arbitrary: s)
  case Nil
  then have "do_hd_request s = Some (Inr s)" by (simp add: do_hd_request.simps disk_queue_def)
  then show ?case using Nil by (simp add: disk_queue_def)
next
  case (Cons r rs)
  let ?s = "end_request 0 s"
  note d = Cons.prems(1) [unfolded disk_queue_def] and st = disk_queue_step [OF Cons.prems(1)]
  note e = end_request_fields [where u = 0 and s = s, unfolded st(2)]
  note m = hd_more [OF e(4)]
  have "out_of_range k s" for k by (simp add: out_of_range_def Cons.prems(2) u8_not_negative)
  then have go: "do_hd_request s = do_hd_request ?s"
    using d st(2,3) by (subst do_hd_request.simps) (simp add: Let_def BLK_DEV_NUM_HD_def)
  obtain s' where s': "do_hd_request ?s = Some (Inr s')" "CURR_REQ s' = 0" "ports_written s' = ports_written ?s"
    "\<forall>x \<in> set rs. rq_dev (requests s' x) = - 1 \<and> b_lock (bufs s' (rq_bh (requests ?s x))) = 0 \<and> b_uptodate (bufs s' (rq_bh (requests ?s x))) = 0"
    "\<forall>x. x \<notin> set rs \<longrightarrow> requests s' x = requests ?s x"
    "\<forall>b. b \<notin> (\<lambda>r. rq_bh (requests ?s r)) ` set rs \<longrightarrow> bufs s' b = bufs ?s b"
    using Cons.IH [OF st(1) [of 0]] Cons.prems(2) m(1) by auto
  have q: "requests ?s x = requests s x" if "x \<noteq> r" for x using that by (simp add: e(2))
  have rn: "r \<notin> set rs" using d by simp
  have im: "(\<lambda>r. rq_bh (requests ?s r)) ` set rs = (\<lambda>r. rq_bh (requests s r)) ` set rs"
    using q rn by (intro image_cong refl) metis
  have bn: "rq_bh (requests s r) \<notin> (\<lambda>r. rq_bh (requests s r)) ` set rs" using d by simp
  have "rq_dev (requests s' r) = - 1" using s'(5) rn by (simp add: e(2))
  moreover have "b_lock (bufs s' (rq_bh (requests s r))) = 0 \<and> b_uptodate (bufs s' (rq_bh (requests s r))) = 0"
    using s'(6) bn im d by (simp add: e(1))
  moreover have "rq_bh (requests ?s x) = rq_bh (requests s x)" if "x \<in> set rs" for x using q that rn by metis
  moreover have "bufs s' b = bufs s b" if "b \<notin> (\<lambda>r. rq_bh (requests s r)) ` set (r # rs)" for b
    using s'(6) im that by (simp add: e(1))
  ultimately show ?case using s'(1-5) go m(4) q rn by (intro exI [of _ s']) simp
qed

section \<open>A disk with two requests\<close>

text \<open>
  The state of the examples: the cache of two buffers, which hold nothing and are locked or not, a queue of a
  read for each, and a controller that is always ready.
\<close>

definition demo_request :: "u32 \<Rightarrow> nat \<Rightarrow> blk_request" where
  "demo_request b n = \<lparr>rq_dev = 0x300, rq_cmd = BLK_READ, rq_errors = 0, rq_sector = 14, rq_nr_sector = 2, rq_buffer = 0x3000,
     rq_wait_q = 0, rq_bh = b, rq_next = n\<rparr>"

definition demo_disk :: "u8 \<Rightarrow> i32 \<Rightarrow> nat \<Rightarrow> driver option \<Rightarrow> hd_state" where
  "demo_disk lock n q drv = \<lparr>tasks_ptr = (\<lambda>_. 0), tstore = (\<lambda>_. task0_init 0 0 0 0), current = 0x10000, jiffies = 0,
     task0_addr = 0x10000,
     bufs = (\<lambda>_. demo_head 0 0)(0x100 := (demo_head 0 0x200)\<lparr>b_lock := lock\<rparr>, 0x200 := (demo_head 0 0x100)\<lparr>b_lock := lock\<rparr>),
     free_list = 0x100, hash_table = (\<lambda>_. 0), buffer_wait = 0, number_of_buffers = 2, messages = [],
     requests = (\<lambda>_. (demo_request 0 0)\<lparr>rq_dev := - 1\<rparr>)(1 := demo_request 0x100 2, 2 := demo_request 0x200 0),
     blk_dev = (\<lambda>_. \<lparr>do_req_fn = drv, req_q = q\<rparr>), wait_for_request = 0,
     reset_flag = False, recalibrate = False, number_of_hd = n,
     hd_hw = (\<lambda>_. \<lparr>hw_head = 4, hw_sect = 17, hw_cyl = 100, hw_wpcom = 0, hw_lzone = 0, hw_ctl = 8\<rparr>),
     hd_parts = (\<lambda>_. \<lparr>start_sect = 0, nr_sects = 6800\<rparr>), do_hd = None, port_value = (\<lambda>_ _. 0x50), ports_read = 0,
     data_value = of_nat, data_read = 0, ports_written = [], data_written = [], memory = (\<lambda>_. 0)\<rparr>"

lemma demo_disk_miss: "cache_miss 0x300 7 [0x100, 0x200] 0x100 (demo_disk 0 n q drv)"
  by (simp add: cache_miss_def cache_rep_def ring_links_def no_twins_def demo_disk_def demo_head_def holds_def ready_def)
    (rule exI [of _ "\<lambda>_. []"], simp add: hash_rep_def)

theorem requests_served_in_order_witness:
  "\<exists>s'. obind (add_request run_driver BLK_DEV_NUM_HD 5 (demo_disk 0 1 1 None)) (add_request run_driver BLK_DEV_NUM_HD 3) = Some (Inr s') \<and>
    CURR_REQ (fold end_request [1, 0] s') = 5 \<and> CURR_REQ (fold end_request [1, 0, 1] s') = 3"
proof -
  have "queue_rep (demo_disk 0 1 1 None) [1, 2]" by (simp add: queue_rep_def demo_disk_def demo_request_def CURR_REQ_def)
  from requests_served_in_order [OF this, of "[5, 3]"] obtain s' where
    s': "obind (add_request run_driver BLK_DEV_NUM_HD 5 (demo_disk 0 1 1 None)) (add_request run_driver BLK_DEV_NUM_HD 3) = Some (Inr s')"
    "\<And>us. length us \<le> 4 \<Longrightarrow> CURR_REQ (fold end_request us s') = (if length us = 4 then 0 else [1, 2, 5, 3] ! length us)" by auto
  show ?thesis using s'(1) s'(2) [of "[1, 0]"] s'(2) [of "[1, 0, 1]"] by auto
qed

theorem first_request_is_lost_witness:
  "\<nexists>x. bread (\<lambda>s. case hd_interrupt s of Some (Inr t) \<Rightarrow> t | _ \<Rightarrow> s) run_driver 0x300 7 (demo_disk 0 2 0 (Some Do_Hd_Request)) = Some (Inr x)"
proof -
  let ?s = "demo_disk 0 2 0 (Some Do_Hd_Request)"
  define o1 where "o1 = (\<lambda>s :: hd_state. case hd_interrupt s of Some (Inr t) \<Rightarrow> t | _ \<Rightarrow> s)"
  have idle: "idle_request ?s = Some 32" by (simp add: idle_request_def demo_disk_def NUMBER_OF_REQUESTS_def upt_rec)
  have dev: "blk_dev ?s 3 = \<lparr>do_req_fn = Some Do_Hd_Request, req_q = 0\<rparr>" "do_hd ?s = None" by (simp_all add: demo_disk_def)
  have major: "MAJOR 0x300 = 3" by (simp add: MAJOR_def)
  have env: "\<forall>t. rtranclp kernel_step t (o1 t)" by (auto simp: o1_def split: option.splits sum.splits intro: disk_interrupts)
  have "(\<forall>t. rtranclp kernel_step t (o1 t)) \<longrightarrow> (\<nexists>x. bread o1 run_driver 0x300 7 ?s = Some (Inr x))"
    using first_request_is_lost [OF demo_disk_miss major dev(1) idle dev(2), of o1] by (elim exE conjE) assumption
  then have "\<nexists>x. bread o1 run_driver 0x300 7 ?s = Some (Inr x)" using env by (rule mp)
  then show ?thesis unfolding o1_def .
qed

theorem no_disk_drains_queue_witness:
  "\<exists>s'. do_hd_request (demo_disk 1 0 1 (Some Do_Hd_Request)) = Some (Inr s') \<and> CURR_REQ s' = 0 \<and>
    rq_dev (requests s' 1) = - 1 \<and> rq_dev (requests s' 2) = - 1 \<and> b_lock (bufs s' 0x100) = 0 \<and> b_lock (bufs s' 0x200) = 0"
proof -
  let ?s = "demo_disk 1 0 1 (Some Do_Hd_Request)"
  have "disk_queue ?s [1, 2]" by (simp add: disk_queue_def demo_disk_def demo_request_def demo_head_def CURR_REQ_def MAJOR_def)
  moreover have "number_of_hd ?s = 0" by (simp add: demo_disk_def)
  moreover have "rq_bh (requests ?s 1) = 0x100" "rq_bh (requests ?s 2) = 0x200" by (simp_all add: demo_disk_def demo_request_def)
  ultimately show ?thesis using no_disk_drains_queue [of ?s "[1, 2]"] by auto
qed

end
