(* ===== verification/Disk_Transfer.thy ===== *)
theory Disk_Transfer
  imports Disk_Requests
begin

text \<open>
  The disk driver and the controller: a read command names the sector that was asked for, two good interrupts
  complete the read of a block, and seven bad ones end it.
\<close>

section \<open>Commands\<close>

text \<open>A controller that always answers "ready, seek complete, no error".\<close>

definition controller_idle :: "'a hd_state_scheme \<Rightarrow> bool" where
  "controller_idle s \<longleftrightarrow> (\<forall>n. port_value s HD_STATUS n = READY_STAT OR SEEK_STAT)"

text \<open>A request that the driver may send: on a disk that is there, inside its partition, for a locked buffer.\<close>

definition sendable :: "nat \<Rightarrow> 'a hd_state_scheme \<Rightarrow> bool" where
  "sendable dev s \<longleftrightarrow> CURR_REQ s \<noteq> 0 \<and> MAJOR (rq_dev (curr_req s)) = 3 \<and>
     (rq_bh (curr_req s) \<noteq> 0 \<longrightarrow> b_lock (bufs s (rq_bh (curr_req s))) \<noteq> 0) \<and>
     \<not> out_of_range (ucast (MINOR (rq_dev (curr_req s)))) s \<and> dev = unat (MINOR (rq_dev (curr_req s))) div 5 \<and> dev < 2"

text \<open>A geometry the registers of the controller can name.\<close>

definition addressable :: "hd_hw_info \<Rightarrow> bool" where
  "addressable hw \<longleftrightarrow> 1 \<le> unat (hw_sect hw) \<and> unat (hw_sect hw) \<le> 255 \<and> 1 \<le> unat (hw_head hw) \<and> unat (hw_head hw) \<le> 16"

definition disk_block :: "'a hd_state_scheme \<Rightarrow> u32" where
  "disk_block s = rq_sector (curr_req s) + start_sect (hd_parts s (unat (MINOR (rq_dev (curr_req s)))))"

text \<open>The sector that the registers name, counted from the start of the disk.\<close>

definition named_sector :: "hd_hw_info \<Rightarrow> u8 \<Rightarrow> u8 \<Rightarrow> u8 \<Rightarrow> u8 \<Rightarrow> nat" where
  "named_sector hw sec lcyl hcyl cur =
     ((unat hcyl * 256 + unat lcyl) * unat (hw_head hw) + unat (cur AND 0xF)) * unat (hw_sect hw) + (unat sec - 1)"

lemma chs_of_block:
  assumes "addressable hw" "unat b div unat (hw_sect hw) div unat (hw_head hw) < 0x10000"
  shows "unat (c_sec (chs_of hw b)) = unat b mod unat (hw_sect hw) + 1"
    "unat (c_head (chs_of hw b)) = unat b div unat (hw_sect hw) mod unat (hw_head hw)"
    "unat (c_cyl (chs_of hw b)) = unat b div unat (hw_sect hw) div unat (hw_head hw)"
    "unat (c_sec (chs_of hw b)) < 256" "unat (c_head (chs_of hw b)) < 16" "unat (c_cyl (chs_of hw b)) < 0x10000"
proof -
  note a = assms(1) [unfolded addressable_def]
  have m: "unat b mod unat (hw_sect hw) < unat (hw_sect hw)" using a by (intro mod_less_divisor) simp
  show s: "unat (c_sec (chs_of hw b)) = unat b mod unat (hw_sect hw) + 1"
  proof -
    have "unat b mod unat (hw_sect hw) < 255" using m a by linarith
    then show ?thesis by (simp add: chs_of_def unat_word_ariths unat_mod)
  qed
  show h: "unat (c_head (chs_of hw b)) = unat b div unat (hw_sect hw) mod unat (hw_head hw)"
    by (simp add: chs_of_def unat_div unat_mod)
  show c: "unat (c_cyl (chs_of hw b)) = unat b div unat (hw_sect hw) div unat (hw_head hw)"
    by (simp add: chs_of_def unat_div)
  have "unat b div unat (hw_sect hw) mod unat (hw_head hw) < unat (hw_head hw)" using a by (intro mod_less_divisor) simp
  then show "unat (c_sec (chs_of hw b)) < 256" "unat (c_head (chs_of hw b)) < 16" "unat (c_cyl (chs_of hw b)) < 0x10000"
    using m a s h c assms(2) by linarith+
qed


lemma unat_byte: "unat (ucast (w :: u32) :: u8) = unat w mod 256"
  by (simp add: unsigned_ucast_eq take_bit_eq_mod)

lemma current_register:
  assumes "unat (h :: u32) < 16"
  shows "unat ((ucast (0xA0 OR push_bit 4 d OR h) :: u8) AND 0xF) = unat h" "bit (ucast (0xA0 OR push_bit 4 d OR h) :: u8) 4 \<longleftrightarrow> bit d 0"
proof -
  have h: "take_bit 4 h = h" using assms unfolding word_unat_eq_iff by (simp add: unsigned_take_bit_eq take_bit_nat_eq_self_iff)
  have e: "(0xA0 :: u32) = push_bit 4 10" "(0xF :: u8) = mask 4" by (simp_all add: mask_eq_exp_minus_1)
  have z: "\<not> bit (0xA0 :: u32) n" if "n < 4" for n
    unfolding e(1) bit_push_bit_iff using that by simp
  have "(ucast (0xA0 OR push_bit 4 d OR h) :: u8) AND 0xF = ucast (take_bit 4 h)"
    unfolding e(2) using z by (intro bit_word_eqI) (auto simp: bit_simps)
  then show "unat ((ucast (0xA0 OR push_bit 4 d OR h) :: u8) AND 0xF) = unat h" using assms by (simp add: h unat_byte)
  have "\<not> bit h 4" by (subst h [symmetric]) (simp add: bit_simps)
  moreover have "\<not> bit (10 :: u32) 0" by simp
  ultimately show "bit (ucast (0xA0 OR push_bit 4 d OR h) :: u8) 4 \<longleftrightarrow> bit d 0" unfolding e by (auto simp: bit_simps)
qed

lemma named_sector_block:
  assumes "addressable hw" "unat b div unat (hw_sect hw) div unat (hw_head hw) < 0x10000"
  shows "named_sector hw (ucast (c_sec (chs_of hw b))) (ucast (c_cyl (chs_of hw b))) (ucast (drop_bit 8 (c_cyl (chs_of hw b))))
     (ucast (0xA0 OR push_bit 4 d OR c_head (chs_of hw b))) = unat b"
proof -
  note c = chs_of_block [OF assms]
  have "unat (c_cyl (chs_of hw b)) div 256 < 256" using c(6) by simp
  then have cyl: "unat (ucast (drop_bit 8 (c_cyl (chs_of hw b))) :: u8) * 256 + unat (ucast (c_cyl (chs_of hw b)) :: u8) = unat (c_cyl (chs_of hw b))"
    by (simp add: unat_byte unat_drop_bit_u32)
  have sec: "unat (ucast (c_sec (chs_of hw b)) :: u8) = unat b mod unat (hw_sect hw) + 1" using c(1,4) by (simp only: unat_byte mod_less)
  have "(unat b div unat (hw_sect hw) div unat (hw_head hw) * unat (hw_head hw) + unat b div unat (hw_sect hw) mod unat (hw_head hw)) *
      unat (hw_sect hw) + unat b mod unat (hw_sect hw) = unat b" by (simp only: div_mult_mod_eq)
  then show ?thesis unfolding named_sector_def cyl sec current_register(1) [OF c(5)] c(2,3) by simp
qed


lemma read_port_idle:
  "controller_idle s \<Longrightarrow> read_port HD_STATUS s = (READY_STAT OR SEEK_STAT, s\<lparr>ports_read := ports_read s + 1\<rparr>)"
  by (simp add: read_port_def controller_idle_def)

lemma controller_ready_idle:
  assumes "port_value s HD_STATUS (ports_read s) = READY_STAT OR SEEK_STAT"
  shows "controller_ready s = (9999, s\<lparr>ports_read := ports_read s + 1\<rparr>)"
proof -
  have "(READY_STAT OR SEEK_STAT) AND 0xC0 = 0x40" by (simp add: READY_STAT_def SEEK_STAT_def)
  moreover have "read_port HD_STATUS s = (READY_STAT OR SEEK_STAT, s\<lparr>ports_read := ports_read s + 1\<rparr>)" by (simp add: read_port_def assms)
  ultimately show ?thesis
    unfolding controller_ready_def
    using ready_loop.simps(2) [of 9999 s] by simp
qed

lemma read_command_sent_when_ready:
  assumes "sendable dev s" "port_value s HD_STATUS (ports_read s) = READY_STAT OR SEEK_STAT" "\<not> reset_flag s" "\<not> recalibrate s" "rq_cmd (curr_req s) = BLK_READ"
    "addressable (hd_hw s dev)" "unat (disk_block s) div unat (hw_sect (hd_hw s dev)) div unat (hw_head (hd_hw s dev)) < 0x10000"
  shows "\<exists>s' ctl pre sec lcyl hcyl cur. do_hd_request s = Some (Inr s') \<and> do_hd s' = Some Read_Intr \<and> requests s' = requests s \<and>
    ports_written s' = ports_written s @ [(HD_CMD, ctl), (HD_PRECOMP, pre), (HD_NSECTOR, ucast (rq_nr_sector (curr_req s))),
      (HD_SECTOR, sec), (HD_LCYL, lcyl), (HD_HCYL, hcyl), (HD_CURRENT, cur), (HD_COMMAND, 0x20)] \<and>
    named_sector (hd_hw s dev) sec lcyl hcyl cur = unat (disk_block s) \<and> (bit cur 4 \<longleftrightarrow> dev = 1) \<and>
    bufs s' = bufs s \<and> blk_dev s' = blk_dev s \<and> memory s' = memory s \<and> data_value s' = data_value s \<and>
    data_read s' = data_read s \<and> port_value s' = port_value s"
proof -
  note q = assms(1) [unfolded sendable_def] and g = assms(6) [unfolded addressable_def]
  let ?m = "ucast (MINOR (rq_dev (curr_req s))) :: u8" and ?hw = "hd_hw s dev"
  have "unat (MINOR (rq_dev (curr_req s))) < 256"
    unfolding MINOR_def using word_and_le1 [of "rq_dev (curr_req s)" "0xFF"] by (simp add: word_le_nat_alt)
  then have um: "unat ?m = unat (MINOR (rq_dev (curr_req s)))" by (simp add: unat_byte)
  have nz: "hw_sect ?hw \<noteq> 0" "hw_head ?hw \<noteq> 0" using g by auto
  define p where "p = chs_of ?hw (disk_block s)"
  have p: "p = chs_of ?hw (rq_sector (curr_req s) + start_sect (hd_parts s (unat ?m)))" by (simp add: p_def disk_block_def um)
  note c = chs_of_block [OF assms(6,7), folded p_def]
  have dev: "unat (of_nat dev :: u32) = dev" "\<not> 2 \<le> (of_nat dev :: u32)" "bit (of_nat dev :: u32) 0 \<longleftrightarrow> dev = 1"
    using q by (auto simp: unat_of_nat_small word_le_nat_alt less_2_cases_iff)
  have head: "\<not> 15 < c_head p" using c(5) by (simp add: word_less_nat_alt)
  obtain s' where s': "hd_out (of_nat dev) (rq_nr_sector (curr_req s)) (c_sec p) (c_head p) (c_cyl p) CMD_READ Read_Intr s = Inr s'"
    "do_hd s' = Some Read_Intr" "requests s' = requests s"
    "ports_written s' = ports_written s @ [(HD_CMD, ucast (hw_ctl ?hw)), (HD_PRECOMP, word_of_int (sint (hw_wpcom ?hw) sdiv 4)),
       (HD_NSECTOR, ucast (rq_nr_sector (curr_req s))), (HD_SECTOR, ucast (c_sec p)), (HD_LCYL, ucast (c_cyl p)),
       (HD_HCYL, ucast (drop_bit 8 (c_cyl p))), (HD_CURRENT, ucast (0xA0 OR push_bit 4 (of_nat dev) OR c_head p)), (HD_COMMAND, 0x20)]"
    "bufs s' = bufs s \<and> blk_dev s' = blk_dev s \<and> memory s' = memory s \<and> data_value s' = data_value s \<and>
     data_read s' = data_read s \<and> port_value s' = port_value s"
    using head dev(1,2) by (simp add: hd_out_def controller_ready_idle [OF assms(2)] Let_def write_port_def CMD_READ_def)
  have "do_hd_request s = obind (Some (start_command dev p s)) (\<lambda>r. if fst r then do_hd_request (snd r) else Some (Inr (snd r)))"
    using q nz um by (subst do_hd_request.simps) (auto simp: Let_def BLK_DEV_NUM_HD_def p)
  moreover have "start_command dev p s = Inr (False, s')"
    using assms(3-5) s'(1) by (simp add: start_command_def BLK_READ_def BLK_WRITE_def)
  ultimately have "do_hd_request s = Some (Inr s')" by simp
  then show ?thesis
    using s'(2-5) named_sector_block [OF assms(6,7), of "of_nat dev", folded p_def] current_register(2) [OF c(5), of "of_nat dev"] dev(3)
    by blast
qed

lemma read_command_sent:
  assumes "sendable dev s" "controller_idle s" "\<not> reset_flag s" "\<not> recalibrate s" "rq_cmd (curr_req s) = BLK_READ"
    "addressable (hd_hw s dev)" "unat (disk_block s) div unat (hw_sect (hd_hw s dev)) div unat (hw_head (hd_hw s dev)) < 0x10000"
  shows "\<exists>s' ctl pre sec lcyl hcyl cur. do_hd_request s = Some (Inr s') \<and> do_hd s' = Some Read_Intr \<and> requests s' = requests s \<and>
    ports_written s' = ports_written s @ [(HD_CMD, ctl), (HD_PRECOMP, pre), (HD_NSECTOR, ucast (rq_nr_sector (curr_req s))),
      (HD_SECTOR, sec), (HD_LCYL, lcyl), (HD_HCYL, hcyl), (HD_CURRENT, cur), (HD_COMMAND, 0x20)] \<and>
    named_sector (hd_hw s dev) sec lcyl hcyl cur = unat (disk_block s) \<and> (bit cur 4 \<longleftrightarrow> dev = 1) \<and>
    bufs s' = bufs s \<and> blk_dev s' = blk_dev s \<and> memory s' = memory s \<and> data_value s' = data_value s \<and>
    data_read s' = data_read s \<and> port_value s' = port_value s"
  using assms(2) by (intro read_command_sent_when_ready [OF assms(1) _ assms(3-7)]) (simp add: controller_idle_def)

text \<open>
  C15. A read command names the block of the request: the command registers, read back the way the
  controller does, give the sector's number from the start of the disk, which is the request's sector plus the
  start of the partition, on the drive of the device; two sectors are asked for, \<open>read_intr\<close> takes the answer.
\<close>

theorem read_command_names_block:
  assumes "sendable dev s" "controller_idle s" "\<not> reset_flag s" "\<not> recalibrate s" "rq_cmd (curr_req s) = BLK_READ"
    "addressable (hd_hw s dev)" "unat (disk_block s) div unat (hw_sect (hd_hw s dev)) div unat (hw_head (hd_hw s dev)) < 0x10000"
  shows "\<exists>s' ctl pre sec lcyl hcyl cur. do_hd_request s = Some (Inr s') \<and> do_hd s' = Some Read_Intr \<and> requests s' = requests s \<and>
    ports_written s' = ports_written s @ [(HD_CMD, ctl), (HD_PRECOMP, pre), (HD_NSECTOR, ucast (rq_nr_sector (curr_req s))),
      (HD_SECTOR, sec), (HD_LCYL, lcyl), (HD_HCYL, hcyl), (HD_CURRENT, cur), (HD_COMMAND, 0x20)] \<and>
    named_sector (hd_hw s dev) sec lcyl hcyl cur = unat (disk_block s) \<and> (bit cur 4 \<longleftrightarrow> dev = 1)"
  using read_command_sent [OF assms] by blast

theorem read_command_names_block_witness:
  "\<exists>s'. do_hd_request (demo_disk 1 1 1 None) = Some (Inr s') \<and> map fst (ports_written s') =
     [HD_CMD, HD_PRECOMP, HD_NSECTOR, HD_SECTOR, HD_LCYL, HD_HCYL, HD_CURRENT, HD_COMMAND]"
proof -
  let ?s = "demo_disk 1 1 1 None"
  have "sendable 0 ?s" by (simp add: sendable_def demo_disk_def demo_request_def demo_head_def CURR_REQ_def MAJOR_def MINOR_def out_of_range_def word_sle_eq)
  moreover have "controller_idle ?s" "\<not> reset_flag ?s" "\<not> recalibrate ?s" "rq_cmd (curr_req ?s) = BLK_READ" "addressable (hd_hw ?s 0)"
    "unat (disk_block ?s) div unat (hw_sect (hd_hw ?s 0)) div unat (hw_head (hd_hw ?s 0)) < 0x10000" "ports_written ?s = []"
    by (simp_all add: controller_idle_def demo_disk_def demo_request_def READY_STAT_def SEEK_STAT_def CURR_REQ_def addressable_def disk_block_def)
  ultimately obtain s' ctl pre sec lcyl hcyl cur where "do_hd_request ?s = Some (Inr s')"
    "ports_written s' = [] @ [(HD_CMD, ctl), (HD_PRECOMP, pre), (HD_NSECTOR, ucast (rq_nr_sector (curr_req ?s))),
      (HD_SECTOR, sec), (HD_LCYL, lcyl), (HD_HCYL, hcyl), (HD_CURRENT, cur), (HD_COMMAND, 0x20)]"
    using read_command_names_block [of 0 ?s] by metis
  then show ?thesis by simp
qed


section \<open>Interrupts\<close>

lemma fold_bytes:
  "n \<le> 4294967296 \<Longrightarrow> fold (\<lambda>i m. m(a + of_nat i := f i)) [0..<n] m x =
     (if unat (x - a :: u32) < n then f (unat (x - a)) else m x)"
proof (induction n)
  case (Suc n)
  have "x = a + of_nat n \<longleftrightarrow> unat (x - a) = n"
  proof -
    have "x = a + of_nat n \<longleftrightarrow> x - a = of_nat n" by (auto simp: algebra_simps)
    moreover have "unat (of_nat n :: u32) = n" using Suc.prems by (intro unat_of_nat_small) simp
    ultimately show ?thesis by (metis word_unat_eq_iff)
  qed
  then show ?case using Suc by (auto simp: less_Suc_eq)
qed simp

lemma port_read_memory:
  "n \<le> 1000 \<Longrightarrow> memory (port_read a n s) x =
     (if unat (x - a) < 2 * n then data_value s (data_read s + unat (x - a)) else memory s x)"
  by (simp add: port_read_def fold_bytes)


lemma cmd_result_idle:
  assumes "controller_idle s"
  shows "cmd_result s = (False, s\<lparr>ports_read := ports_read s + 1\<rparr>)"
proof -
  have "(READY_STAT OR SEEK_STAT) AND (BUSY_STAT OR READY_STAT OR WR_ERR_STAT OR SEEK_STAT OR ERR_STAT) = READY_STAT OR SEEK_STAT"
    by (simp add: READY_STAT_def SEEK_STAT_def BUSY_STAT_def WR_ERR_STAT_def ERR_STAT_def)
  then show ?thesis by (simp add: cmd_result_def read_port_idle [OF assms])
qed

text \<open>The step of \<open>read_intr\<close> that takes one sector.\<close>

definition sector_taken :: "'a hd_state_scheme \<Rightarrow> 'a hd_state_scheme" where
  "sector_taken s = upd_req (CURR_REQ s) (\<lambda>r. r\<lparr>rq_errors := 0, rq_buffer := rq_buffer r + 512, rq_sector := rq_sector r + 1,
     rq_nr_sector := rq_nr_sector r - 1\<rparr>) (port_read (rq_buffer (curr_req s)) 256 (s\<lparr>ports_read := ports_read s + 1\<rparr>))"

lemma sector_taken_fields:
  "requests (sector_taken s) = (requests s)(CURR_REQ s := (curr_req s)\<lparr>rq_errors := 0, rq_buffer := rq_buffer (curr_req s) + 512,
     rq_sector := rq_sector (curr_req s) + 1, rq_nr_sector := rq_nr_sector (curr_req s) - 1\<rparr>)"
  "CURR_REQ (sector_taken s) = CURR_REQ s" "bufs (sector_taken s) = bufs s" "tstore (sector_taken s) = tstore s"
  "data_value (sector_taken s) = data_value s" "data_read (sector_taken s) = data_read s + 512" "port_value (sector_taken s) = port_value s"
  "memory (sector_taken s) x = (if unat (x - rq_buffer (curr_req s)) < 512
     then data_value s (data_read s + unat (x - rq_buffer (curr_req s))) else memory s x)"
proof -
  show "requests (sector_taken s) = (requests s)(CURR_REQ s := (curr_req s)\<lparr>rq_errors := 0, rq_buffer := rq_buffer (curr_req s) + 512,
     rq_sector := rq_sector (curr_req s) + 1, rq_nr_sector := rq_nr_sector (curr_req s) - 1\<rparr>)"
    by (simp add: sector_taken_def port_read_def)
  have m: "memory (upd_req r f t) = memory t" for r f and t :: "'a hd_state_scheme" by (simp add: upd_req_def)
  show "memory (sector_taken s) x = (if unat (x - rq_buffer (curr_req s)) < 512
     then data_value s (data_read s + unat (x - rq_buffer (curr_req s))) else memory s x)"
    by (simp add: sector_taken_def m port_read_memory)
qed (simp_all add: sector_taken_def port_read_def upd_req_def CURR_REQ_def)

lemma read_intr_idle:
  assumes "controller_idle s"
  shows "read_intr s = (if rq_nr_sector (curr_req s) \<noteq> 1 then Some (Inr ((sector_taken s)\<lparr>do_hd := Some Read_Intr\<rparr>))
    else do_hd_request (end_request 1 (sector_taken s)))"
proof -
  let ?t = "s\<lparr>ports_read := ports_read s + 1\<rparr>"
  have "CURR_REQ ?t = CURR_REQ s" "requests ?t = requests s" "CURR_REQ (port_read a n ?t) = CURR_REQ s" for a n
    by (simp_all add: CURR_REQ_def port_read_def)
  then have "read_intr s = (let s3 = sector_taken s in if rq_nr_sector (curr_req s3) \<noteq> 0 then Some (Inr (s3\<lparr>do_hd := Some Read_Intr\<rparr>))
              else do_hd_request (end_request 1 s3))"
    by (simp add: read_intr_def cmd_result_idle [OF assms] Let_def sector_taken_def)
  then show ?thesis by (simp add: Let_def sector_taken_fields)
qed


definition acknowledged :: "'a hd_state_scheme \<Rightarrow> 'a hd_state_scheme" where
  "acknowledged s = write_port 0x20 0x20 (write_port 0x20 0xA0 s)"

lemma hd_fields [simp]:
  "requests (acknowledged s) = requests s" "CURR_REQ (acknowledged s) = CURR_REQ s" "bufs (acknowledged s) = bufs s"
  "tstore (acknowledged s) = tstore s" "memory (acknowledged s) = memory s" "data_value (acknowledged s) = data_value s"
  "data_read (acknowledged s) = data_read s" "port_value (acknowledged s) = port_value s" "do_hd (acknowledged s) = do_hd s"
  "CURR_REQ (s\<lparr>do_hd := h\<rparr>) = CURR_REQ s"
  by (simp_all add: acknowledged_def write_port_def CURR_REQ_def)

lemma hd_interrupt_read:
  "do_hd s = Some Read_Intr \<Longrightarrow> hd_interrupt s = obind (read_intr (s\<lparr>do_hd := None\<rparr>)) (\<lambda>s2. Some (Inr (acknowledged s2)))"
  by (simp add: hd_interrupt_def Let_def acknowledged_def)

text \<open>The first interrupt of a read of two sectors takes one and waits for the other; the second ends the request.\<close>

lemma first_read_interrupt:
  assumes "do_hd s = Some Read_Intr" "controller_idle s" "rq_nr_sector (curr_req s) = 2"
  shows "hd_interrupt s = Some (Inr (acknowledged ((sector_taken (s\<lparr>do_hd := None\<rparr>))\<lparr>do_hd := Some Read_Intr\<rparr>)))"
proof -
  have "controller_idle (s\<lparr>do_hd := None\<rparr>)" using assms(2) by (simp add: controller_idle_def)
  then show ?thesis using assms(3) by (simp add: hd_interrupt_read [OF assms(1)] read_intr_idle)
qed

lemma second_read_interrupt:
  assumes "do_hd s = Some Read_Intr" "controller_idle s" "rq_nr_sector (curr_req s) = 1" "rq_next (curr_req s) = 0"
  shows "hd_interrupt s = Some (Inr (acknowledged (end_request 1 (sector_taken (s\<lparr>do_hd := None\<rparr>)))))"
proof -
  let ?t = "sector_taken (s\<lparr>do_hd := None\<rparr>)"
  have "controller_idle (s\<lparr>do_hd := None\<rparr>)" using assms(2) by (simp add: controller_idle_def)
  moreover have "CURR_REQ (end_request 1 ?t) = 0" using assms(4) by (simp add: end_request_fields(3) sector_taken_fields)
  then have "do_hd_request (end_request 1 ?t) = Some (Inr (end_request 1 ?t))" by (simp add: do_hd_request.simps)
  ultimately show ?thesis using assms(3) by (simp add: hd_interrupt_read [OF assms(1)] read_intr_idle)
qed

lemma sectors_join:
  fixes x a :: u32
  shows "(if unat (x - (a + 512)) < 512 then f (n + 512 + unat (x - (a + 512)))
    else if unat (x - a) < 512 then f (n + unat (x - a)) else m) = (if unat (x - a) < 1024 then f (n + unat (x - a)) else (m :: u8))"
proof -
  define y where "y = x - a"
  have d: "x - (a + 512) = y - 512" by (simp add: y_def)
  have u: "unat (y - 512) = (if 512 \<le> unat y then unat y - 512 else unat y + 4294967296 - 512)" by (simp add: unat_sub_if')
  show ?thesis
  proof (cases "unat y < 512")
    case True
    then show ?thesis by (simp add: d y_def [symmetric] u)
  next
    case False
    then have "unat y - 512 < 512 \<longleftrightarrow> unat y < 1024" "n + 512 + (unat y - 512) = n + unat y" by linarith+
    then show ?thesis using False by (simp only: d y_def [symmetric] u) simp
  qed
qed

lemma two_read_interrupts:
  assumes "do_hd s = Some Read_Intr" "controller_idle s" "CURR_REQ s = r" "rq_nr_sector (requests s r) = 2"
    "rq_next (requests s r) = 0" "rq_bh (requests s r) = b" "b \<noteq> 0"
  shows "\<exists>s1 s2. hd_interrupt s = Some (Inr s1) \<and> CURR_REQ s1 = r \<and> bufs s1 = bufs s \<and>
    hd_interrupt s1 = Some (Inr s2) \<and> CURR_REQ s2 = 0 \<and> rq_dev (requests s2 r) = - 1 \<and>
    (\<forall>x. memory s2 x = (if unat (x - rq_buffer (requests s r)) < 1024
       then data_value s (data_read s + unat (x - rq_buffer (requests s r))) else memory s x)) \<and>
    b_uptodate (bufs s2 b) = 1 \<and> b_lock (bufs s2 b) = 0 \<and> b_wait (bufs s2 b) = 0 \<and>
    (b_wait (bufs s b) = 0 \<or> state (tstore s2 (b_wait (bufs s b))) = TASK_RUNNING) \<and>
    bufs s2 = (bufs s)(b := (bufs s b)\<lparr>b_uptodate := 1, b_lock := 0, b_wait := 0\<rparr>) \<and> (\<exists>ps. ports_written s2 = ports_written s @ ps)"
proof -
  define s1 where "s1 = acknowledged ((sector_taken (s\<lparr>do_hd := None\<rparr>))\<lparr>do_hd := Some Read_Intr\<rparr>)"
  define t where "t = sector_taken (s1\<lparr>do_hd := None\<rparr>)"
  define s2 where "s2 = acknowledged (end_request 1 t)"
  note f = sector_taken_fields
  have i1: "hd_interrupt s = Some (Inr s1)" unfolding s1_def by (rule first_read_interrupt) (simp_all add: assms)
  have c1: "CURR_REQ s1 = r" "bufs s1 = bufs s" "tstore s1 = tstore s" "requests s1 r = (requests s r)\<lparr>rq_errors := 0,
      rq_buffer := rq_buffer (requests s r) + 512, rq_sector := rq_sector (requests s r) + 1, rq_nr_sector := 1\<rparr>"
    "data_value s1 = data_value s" "data_read s1 = data_read s + 512"
    by (simp_all add: s1_def f assms(3,4))
  have idle1: "controller_idle s1" using assms(2) by (simp add: controller_idle_def s1_def f)
  have i2: "hd_interrupt s1 = Some (Inr s2)" unfolding s2_def t_def
    by (rule second_read_interrupt) (simp_all add: c1 idle1 assms(5), simp add: s1_def)
  have ct: "CURR_REQ t = r" "bufs t = bufs s" "tstore t = tstore s" "rq_bh (requests t r) = b" "rq_next (requests t r) = 0"
    by (simp_all add: t_def f c1 assms(5,6))
  note e = end_request_fields [where u = 1 and s = t, unfolded ct]
  have mem: "memory s2 x = (if unat (x - rq_buffer (requests s r)) < 1024
       then data_value s (data_read s + unat (x - rq_buffer (requests s r))) else memory s x)" for x
  proof -
    let ?a = "rq_buffer (requests s r)"
    have m1: "memory s1 x = (if unat (x - ?a) < 512 then data_value s (data_read s + unat (x - ?a)) else memory s x)"
      by (simp add: s1_def f assms(3))
    have m2: "memory s2 x = (if unat (x - (?a + 512)) < 512 then data_value s (data_read s + 512 + unat (x - (?a + 512))) else memory s1 x)"
      using hd_more(7) [OF e(4)] by (simp add: s2_def t_def f c1)
    show ?thesis unfolding m2 m1 by (rule sectors_join)
  qed
  have "CURR_REQ s2 = 0" "rq_dev (requests s2 r) = - 1" "b_uptodate (bufs s2 b) = 1" "b_lock (bufs s2 b) = 0" "b_wait (bufs s2 b) = 0"
    using e(1-3) assms(7) by (simp_all add: s2_def ct)
  moreover have "b_wait (bufs s b) = 0 \<or> state (tstore s2 (b_wait (bufs s b))) = TASK_RUNNING"
    using e(5) [OF assms(7) refl] by (auto simp: s2_def)
  moreover have "bufs s2 = (bufs s)(b := (bufs s b)\<lparr>b_uptodate := 1, b_lock := 0, b_wait := 0\<rparr>)"
    using e(1) assms(7) by (simp add: s2_def ct)
  moreover have "ports_written s1 = ports_written s @ [(0xA0, 0x20), (0x20, 0x20)]" "ports_written t = ports_written s1"
    by (simp_all add: s1_def t_def acknowledged_def write_port_def sector_taken_def port_read_def upd_req_def)
  then have "\<exists>ps. ports_written s2 = ports_written s @ ps"
    using hd_more(4) [OF e(4)] by (simp add: s2_def acknowledged_def write_port_def)
  ultimately show ?thesis using i1 i2 c1(1,2) mem by (intro exI [of _ s1] exI [of _ s2]) blast
qed




lemma bad_rw_intr_counts:
  assumes "CURR_REQ s = r" "unat (rq_errors (requests s r)) = e" "e < 7" "rq_next (requests s r) = r'" "r' \<noteq> r"
    "rq_bh (requests s r) = b" "b \<noteq> 0"
  shows "if e < 6
    then bad_rw_intr s = (upd_req r (\<lambda>r. r\<lparr>rq_errors := of_nat (Suc e)\<rparr>) s)\<lparr>reset_flag := reset_flag s \<or> 3 \<le> e\<rparr>
    else CURR_REQ (bad_rw_intr s) = r' \<and> rq_dev (requests (bad_rw_intr s) r) = - 1 \<and>
      b_lock (bufs (bad_rw_intr s) b) = 0 \<and> b_uptodate (bufs (bad_rw_intr s) b) = 0 \<and>
      reset_flag (bad_rw_intr s) = (reset_flag s \<or> 3 <s rq_errors (requests s r'))"
proof -
  let ?s1 = "upd_req r (\<lambda>r. r\<lparr>rq_errors := rq_errors r + 1\<rparr>) s"
  have w: "rq_errors (requests s r) = of_nat e" using assms(2) by auto
  then have w1: "rq_errors (requests s r) + 1 = of_nat (Suc e)" by simp
  have c: "CURR_REQ ?s1 = r" using assms(1) by (simp add: CURR_REQ_def)
  have sg: "MAX_ERRORS \<le>s (of_nat (Suc e) :: i32) \<longleftrightarrow> 6 \<le> e" "(3 :: i32) <s of_nat (Suc e) \<longleftrightarrow> 3 \<le> e"
  proof -
    have "sint (of_nat (Suc e) :: i32) = int (Suc e)" using assms(3) sint_unat_u32 [of "of_nat (Suc e)"] unat_of_nat_small [of "Suc e"] by simp
    then show "MAX_ERRORS \<le>s (of_nat (Suc e) :: i32) \<longleftrightarrow> 6 \<le> e" "(3 :: i32) <s of_nat (Suc e) \<longleftrightarrow> 3 \<le> e"
      by (simp_all add: word_sle_eq word_sless_alt MAX_ERRORS_def del: of_nat_Suc) arith
  qed
  show ?thesis
  proof (cases "e < 6")
    case True
    then have "bad_rw_intr s = (if 3 \<le> e then ?s1\<lparr>reset_flag := True\<rparr> else ?s1)"
      using sg by (simp add: bad_rw_intr_def Let_def assms(1) c w1 del: of_nat_Suc)
    moreover have "?s1 = upd_req r (\<lambda>r. r\<lparr>rq_errors := of_nat (Suc e)\<rparr>) s" using w1 by (simp add: upd_req_def del: of_nat_Suc)
    ultimately show ?thesis using True by (simp add: upd_req_def del: of_nat_Suc)
  next
    case False
    note f = end_request_fields [where u = 0 and s = ?s1, unfolded c, simplified]
    let ?e = "end_request 0 ?s1"
    have n: "CURR_REQ ?e = r'" "rq_errors (curr_req ?e) = rq_errors (requests s r')" using assms(4,5) by (simp_all add: f)
    have b: "bad_rw_intr s = (if 3 <s rq_errors (requests s r') then ?e\<lparr>reset_flag := True\<rparr> else ?e)"
      unfolding n(2) [symmetric] using False sg(1) by (simp add: bad_rw_intr_def Let_def assms(1) c w1 del: of_nat_Suc)
    have "reset_flag ?e = reset_flag s" using hd_more(5) [OF f(4)] by (simp add: upd_req_def)
    then have "reset_flag (bad_rw_intr s) = (reset_flag s \<or> 3 <s rq_errors (requests s r'))" by (simp add: b)
    moreover have "CURR_REQ (bad_rw_intr s) = CURR_REQ ?e" "requests (bad_rw_intr s) = requests ?e" "bufs (bad_rw_intr s) = bufs ?e"
      by (simp_all add: b CURR_REQ_def)
    ultimately show ?thesis using False n(1) assms(6,7) by (simp only: f if_False) simp
  qed
qed

text \<open>The status and, if it says so, the error register are read; nothing else changes.\<close>

lemma cmd_result_frame:
  "\<exists>n. snd (cmd_result s) = s\<lparr>ports_read := n\<rparr> \<and> ports_read s < n"
  by (auto simp: cmd_result_def read_port_def Let_def)

lemma failed_interrupt:
  assumes "do_hd s = Some h" "fst (cmd_result (s\<lparr>do_hd := None\<rparr>))"
  shows "hd_interrupt s = obind (do_hd_request (bad_rw_intr (snd (cmd_result (s\<lparr>do_hd := None\<rparr>))))) (\<lambda>v. Some (Inr (acknowledged v)))"
  using assms by (cases h) (auto simp: hd_interrupt_def Let_def acknowledged_def recal_intr_def read_intr_def write_intr_def split: prod.splits)

text \<open>
  C36. A failed operation is tried seven times. When the controller reports an error at its interrupt, whatever handler is installed, the
  driver is called again. Before the seventh failure it finds the same request in front with one error more, and from the fourth on the controller is to
  be reset first; up to the third, a read is sent again to the controller (if it is ready now), with the registers that name the same sector.
  The seventh failure ends the request: its entry is idle, its
  buffer unlocked and without data, the next request is in front; but the count that then decides about the reset is
  that next request's, so the controller that failed is as a rule not reset.
\<close>

theorem seventh_error_ends_request:
  assumes "do_hd s = Some h" "fst (cmd_result (s\<lparr>do_hd := None\<rparr>))"
    "CURR_REQ s = r" "unat (rq_errors (requests s r)) = e" "e < 7" "rq_next (requests s r) = r'" "r' \<noteq> r"
    "rq_bh (requests s r) = b" "b \<noteq> 0"
  shows "\<exists>u. hd_interrupt s = obind (do_hd_request u) (\<lambda>v. Some (Inr (acknowledged v))) \<and>
    (if e < 6
     then CURR_REQ u = r \<and> requests u = (requests s)(r := (requests s r)\<lparr>rq_errors := of_nat (Suc e)\<rparr>) \<and> bufs u = bufs s \<and>
       reset_flag u = (reset_flag s \<or> 3 \<le> e)
     else CURR_REQ u = r' \<and> rq_dev (requests u r) = - 1 \<and> b_lock (bufs u b) = 0 \<and> b_uptodate (bufs u b) = 0 \<and>
       reset_flag u = (reset_flag s \<or> 3 <s rq_errors (requests s r'))) \<and>
    (e < 3 \<and> sendable dev s \<and> rq_cmd (requests s r) = BLK_READ \<and> \<not> reset_flag s \<and> \<not> recalibrate s \<and> addressable (hd_hw s dev) \<and>
       unat (disk_block s) div unat (hw_sect (hd_hw s dev)) div unat (hw_head (hd_hw s dev)) < 0x10000 \<and>
       (\<forall>n > ports_read s. port_value s HD_STATUS n = READY_STAT OR SEEK_STAT) \<longrightarrow>
     (\<exists>v ctl pre sec lcyl hcyl cur. do_hd_request u = Some (Inr v) \<and> do_hd v = Some Read_Intr \<and>
       ports_written v = ports_written s @ [(HD_CMD, ctl), (HD_PRECOMP, pre), (HD_NSECTOR, ucast (rq_nr_sector (requests s r))),
         (HD_SECTOR, sec), (HD_LCYL, lcyl), (HD_HCYL, hcyl), (HD_CURRENT, cur), (HD_COMMAND, 0x20)] \<and>
       named_sector (hd_hw s dev) sec lcyl hcyl cur = unat (disk_block s) \<and> (bit cur 4 \<longleftrightarrow> dev = 1)))"
proof -
  obtain n where n: "snd (cmd_result (s\<lparr>do_hd := None\<rparr>)) = s\<lparr>do_hd := None, ports_read := n\<rparr>" "ports_read s < n"
    using cmd_result_frame [of "s\<lparr>do_hd := None\<rparr>"] by auto
  define t where "t = s\<lparr>do_hd := None, ports_read := n\<rparr>"
  have t: "CURR_REQ t = r" "requests t = requests s" "bufs t = bufs s" "reset_flag t = reset_flag s"
    using assms(3) by (simp_all add: t_def CURR_REQ_def)
  define u where "u = bad_rw_intr t"
  have run: "hd_interrupt s = obind (do_hd_request u) (\<lambda>v. Some (Inr (acknowledged v)))"
    using failed_interrupt [OF assms(1,2)] by (simp add: u_def t_def n(1))
  note count = bad_rw_intr_counts [of t r e r' b, unfolded t, OF refl assms(4-9), folded u_def]
  have early: "u = (upd_req r (\<lambda>r. r\<lparr>rq_errors := of_nat (Suc e)\<rparr>) t)\<lparr>reset_flag := reset_flag s \<or> 3 \<le> e\<rparr>" if "e < 6"
    using count that by (simp del: of_nat_Suc)
  then have cr: "CURR_REQ u = r" if "e < 6" using that t(1) by (simp add: upd_req_def CURR_REQ_def del: of_nat_Suc)
  have again: "\<exists>v ctl pre sec lcyl hcyl cur. do_hd_request u = Some (Inr v) \<and> do_hd v = Some Read_Intr \<and>
       ports_written v = ports_written s @ [(HD_CMD, ctl), (HD_PRECOMP, pre), (HD_NSECTOR, ucast (rq_nr_sector (requests s r))),
         (HD_SECTOR, sec), (HD_LCYL, lcyl), (HD_HCYL, hcyl), (HD_CURRENT, cur), (HD_COMMAND, 0x20)] \<and>
       named_sector (hd_hw s dev) sec lcyl hcyl cur = unat (disk_block s) \<and> (bit cur 4 \<longleftrightarrow> dev = 1)"
    if h: "e < 3" "sendable dev s" "rq_cmd (requests s r) = BLK_READ" "\<not> reset_flag s" "\<not> recalibrate s" "addressable (hd_hw s dev)"
      "unat (disk_block s) div unat (hw_sect (hd_hw s dev)) div unat (hw_head (hd_hw s dev)) < 0x10000"
      "\<forall>n > ports_read s. port_value s HD_STATUS n = READY_STAT OR SEEK_STAT"
  proof -
    have e: "u = (upd_req r (\<lambda>r. r\<lparr>rq_errors := of_nat (Suc e)\<rparr>) t)\<lparr>reset_flag := False\<rparr>" using early h(1,4) by simp
    have u: "CURR_REQ u = r" "requests u r = (requests s r)\<lparr>rq_errors := of_nat (Suc e)\<rparr>" "bufs u = bufs s" "hd_hw u = hd_hw s"
      "hd_parts u = hd_parts s" "number_of_hd u = number_of_hd s" "\<not> reset_flag u" "\<not> recalibrate u" "ports_written u = ports_written s"
      "port_value u = port_value s" "ports_read u = n"
      using cr h(1,5) by (simp_all add: e t_def upd_req_def)
    have db: "disk_block u = disk_block s" by (simp add: disk_block_def u assms(3))
    have "sendable dev u" using h(2) by (simp add: sendable_def out_of_range_def u assms(3))
    moreover have "port_value u HD_STATUS (ports_read u) = READY_STAT OR SEEK_STAT" using h(8) n(2) by (simp add: u)
    ultimately show ?thesis
      using read_command_sent_when_ready [of dev u] h(3,6,7) u by (simp add: db) blast
  qed
  show ?thesis
  proof (intro exI [of _ u] conjI)
    show "if e < 6 then CURR_REQ u = r \<and> requests u = (requests s)(r := (requests s r)\<lparr>rq_errors := of_nat (Suc e)\<rparr>) \<and> bufs u = bufs s \<and>
       reset_flag u = (reset_flag s \<or> 3 \<le> e)
     else CURR_REQ u = r' \<and> rq_dev (requests u r) = - 1 \<and> b_lock (bufs u b) = 0 \<and> b_uptodate (bufs u b) = 0 \<and>
       reset_flag u = (reset_flag s \<or> 3 <s rq_errors (requests s r'))"
      using count early cr t by (cases "e < 6") (simp_all add: upd_req_def del: of_nat_Suc)
  qed (use run again in blast)+
qed

theorem seventh_error_ends_request_witness:
  "\<exists>u. CURR_REQ u = 2 \<and> \<not> reset_flag u \<and>
    hd_interrupt (upd_req 1 (\<lambda>r. r\<lparr>rq_errors := 6\<rparr>) ((demo_disk 1 1 1 None)\<lparr>do_hd := Some Read_Intr, port_value := \<lambda>_ _. 0x51\<rparr>)) =
      obind (do_hd_request u) (\<lambda>v. Some (Inr (acknowledged v)))"
proof -
  let ?s = "upd_req 1 (\<lambda>r. r\<lparr>rq_errors := 6\<rparr>) ((demo_disk 1 1 1 None)\<lparr>do_hd := Some Read_Intr, port_value := \<lambda>_ _. 0x51\<rparr>)"
  have h: "do_hd ?s = Some Read_Intr" "fst (cmd_result (?s\<lparr>do_hd := None\<rparr>))" "CURR_REQ ?s = 1" "unat (rq_errors (requests ?s 1)) = 6" "(6 :: nat) < 7"
    "rq_next (requests ?s 1) = 2" "(2 :: nat) \<noteq> 1" "rq_bh (requests ?s 1) = 0x100" "(0x100 :: u32) \<noteq> 0"
    by (simp_all add: CURR_REQ_def demo_disk_def demo_request_def upd_req_def cmd_result_def read_port_def BUSY_STAT_def READY_STAT_def WR_ERR_STAT_def
        SEEK_STAT_def ERR_STAT_def)
  have "rq_errors (requests ?s 2) = 0" "\<not> reset_flag ?s" by (simp_all add: demo_disk_def demo_request_def upd_req_def)
  then show ?thesis using seventh_error_ends_request [OF h, of 0] by (auto simp: word_sless_alt)
qed

end
