(* ===== verification/Kernel_Boot.thy ===== *)
theory Kernel_Boot
  imports Traps Disk_Transfer
begin

text \<open>
  The start of the kernel: \<open>main\<close> of main.c, which initialises the parts of the kernel one after the other and enters
  task 0, and what holds in the state it leaves.
\<close>

section \<open>The parts of the kernel\<close>

record machine =
  m_tty :: tty_state
  m_gdt :: desc_table
  m_idt :: desc_table
  m_mm :: mm_state
  m_disk :: hd_state
  m_regs :: cpu_regs

text \<open>The addresses the linker gives to the labels of the assembly files.\<close>

record link_map =
  at_start :: u32
  at_page_dir :: u32
  at_kernel_stack :: u32
  at_exception :: "exception \<Rightarrow> u32"
  at_page_fault :: u32
  at_system_call :: u32
  at_timer_interrupt :: u32

text \<open>
  What the code before \<open>main\<close> left in memory (the width of the screen, the cursor, the size of the extended
  memory in KB), what \<open>in_b\<close> reads from the interrupt mask, and what lies beside two 16-bit locals.
\<close>

record boot_info =
  bios_cols :: u8
  bios_x :: u8
  bios_y :: u8
  EXT_MEM_K :: u16
  mask_read :: u8
  junk1 :: u16
  junk2 :: u16

section \<open>main\<close>

definition assemble_label_show :: "link_map \<Rightarrow> bytes \<Rightarrow> tty_state \<Rightarrow> tty_state kresult" where
  "assemble_label_show L m t =
     rbind (print1 (line_of ''from head.s'') 0 m t)
       (\<lambda>t. rbind (print1 (line_of ''_start addr %#x'') (at_start L) m t)
         (\<lambda>t. rbind (print1 (line_of ''page_dir addr %#x'') (at_page_dir L) m t)
           (\<lambda>t. print1 (line_of ''kernel_stack addr %#x'') (at_kernel_stack L) m t)))"

text \<open>The messages a part has recorded, given to \<open>printk\<close>.\<close>

definition show_messages :: "(string \<times> u32 list) list \<Rightarrow> bytes \<Rightarrow> tty_state \<Rightarrow> tty_state kresult" where
  "show_messages ms m t =
     for_each (\<lambda>(fmt, args) t. rbind (printk (line_of fmt) (\<lambda>k. args ! k) m t) (\<lambda>(i, t'). Inr t')) ms t"

text \<open>The state in which task 0 is entered. \<open>None\<close> is the endless loop of a machine with too little memory.\<close>

definition main_start :: "link_map \<Rightarrow> boot_info \<Rightarrow> bytes \<Rightarrow> machine \<Rightarrow> machine kresult option" where
  "main_start L B m s =
     (let t0 = tty_init (bios_cols B) (bios_x B) (bios_y B) (m_tty s);
          idt1 = trap_init (at_exception L) (m_idt s);
          idt2 = system_call_init (at_system_call L) idt1
      in obind (Some (assemble_label_show L m t0)) (\<lambda>t1.
        Option.bind (main_memory_limits (EXT_MEM_K B)) (\<lambda>(buf_mem_end, main_mem_end).
        obind (Some (print1 (line_of ''ext mem size : %#x'') main_mem_end m t1)) (\<lambda>t2.
        let (mm, idt3) = mem_init buf_mem_end main_mem_end (at_page_fault L) (m_mm s) idt2 in
        Option.bind (buffer_init buf_mem_end (m_disk s)) (\<lambda>d1.
        obind (Some (show_messages (drop (length (messages (m_disk s))) (messages d1)) m t2)) (\<lambda>t3.
        let (d2, gdt1, idt4, ports) = sched_init (at_timer_interrupt L) (mask_read B) (blk_req_init d1) (m_gdt s) idt3 in
        Option.bind (switch_to_TASK0 (junk1 B) (junk2 B) (m_regs s) d2) (\<lambda>(d3, r).
        Some (Inr \<lparr>m_tty = t3, m_gdt = gdt1, m_idt = idt4, m_mm = mm,
          m_disk = d3\<lparr>ports_written := ports_written d3 @ ports\<rparr>, m_regs = r\<rparr>))))))))"

section \<open>Messages of the boot\<close>

lemma parse_dec:
  "parse_spec args (0x64 # cs) k = \<lparr>sp_flags = 0, sp_width = - 1, sp_precision = - 1, sp_arg = k, sp_fmt = 0x64 # cs\<rparr>"
  by (simp add: parse_spec_def parse_width_def parse_precision_def parse_qualifier_def peek_def is_digit_def)

lemma vsprintf_dec:
  assumes "0x25 \<notin> set cs" "args 0 = w"
  shows "\<exists>ds. stored (vsprintf (cs @ [0x25, 0x64] @ bs) args m) = stored (vs_loop args m bs \<lparr>stored = cs @ ds, next_arg = 1, stores = []\<rparr>) \<and>
    length ds \<le> 33"
proof -
  have m1: "sint (- 1 :: i32) = - 1" "unat (10 :: i32) = 10" by simp_all
  have pre: "2 \<le> unat (10 :: i32)" "unat (10 :: i32) \<le> 36" "\<bar>sint (- 1 :: i32)\<bar> < 1000000000" "\<bar>sint (- 1 :: i32)\<bar> < 1000000000"
    by simp_all
  obtain es where es: "number w 10 (- 1) (- 1) SIGN =
      Some (layout (- 1) SIGN (sign_of w SIGN @ prefix_of 10 SIGN) (replicate (nat (- 1 - int (length es))) 48 @ es))" "length es \<le> 32"
    using number_layout [OF pre, of w SIGN] unfolding m1 by blast
  define ds where "ds = layout (- 1) SIGN (sign_of w SIGN @ prefix_of 10 SIGN) (replicate (nat (- 1 - int (length es))) 48 @ es)"
  have "prefix_of 10 SIGN = []" "length (sign_of w SIGN) \<le> 1" by (simp_all add: prefix_of_def sign_of_def)
  then have ds: "number w 10 (- 1) (- 1) SIGN = Some ds" "length ds \<le> 33" using es by (simp_all add: ds_def layout_def Let_def)
  have "vs_loop args m (cs @ [0x25, 0x64] @ bs) \<lparr>stored = [], next_arg = 0, stores = []\<rparr> =
      vs_loop args m bs (emit ds (emit cs \<lparr>stored = [], next_arg = 1, stores = []\<rparr>))"
    using ds(1) assms by (simp add: vs_loop_text vs_loop_conversion parse_dec convert_def peek_def convert_number_def emit_def)
  then show ?thesis using ds(2) by (intro exI [of _ ds]) (simp add: vsprintf_def emit_def)
qed


lemma print1_hex_ok:
  assumes "tty_ready m0 t" "fmt = cs @ [0x25, 0x23, 0x78, 0x0A]" "0x25 \<notin> set cs" "length cs \<le> 100"
  obtains t' where "print1 fmt w m t = Inr t'" "tty_ready m0 t'"
  using print1_hex [OF assms(1,3,4), of w m] unfolding assms(2) by blast

lemma assemble_label_show_ok:
  assumes "tty_ready m0 t"
  obtains t' where "assemble_label_show L m t = Inr t'" "tty_ready m0 t'"
proof -
  have plain: "stored (vsprintf (line_of ''from head.s'') (\<lambda>_. 0) m) = line_of ''from head.s''" by (rule vsprintf_text) (simp add: line_of_def)
  have "length (line_of ''from head.s'') \<le> 511" by (simp add: line_of_def)
  then obtain t1 where t1: "print1 (line_of ''from head.s'') 0 m t = Inr t1" "tty_ready m0 t1"
    using print1_view [OF assms plain] by blast
  obtain t2 where t2: "print1 (line_of ''_start addr %#x'') (at_start L) m t1 = Inr t2" "tty_ready m0 t2"
    by (rule print1_hex_ok [OF t1(2), of _ "bytes_of ''_start addr ''"]) (simp_all add: line_of_def)
  obtain t3 where t3: "print1 (line_of ''page_dir addr %#x'') (at_page_dir L) m t2 = Inr t3" "tty_ready m0 t3"
    by (rule print1_hex_ok [OF t2(2), of _ "bytes_of ''page_dir addr ''"]) (simp_all add: line_of_def)
  obtain t4 where t4: "print1 (line_of ''kernel_stack addr %#x'') (at_kernel_stack L) m t3 = Inr t4" "tty_ready m0 t4"
    by (rule print1_hex_ok [OF t3(2), of _ "bytes_of ''kernel_stack addr ''"]) (simp_all add: line_of_def)
  show thesis by (rule that [of t4]) (simp_all add: assemble_label_show_def t1(1) t2(1) t3(1) t4)
qed

lemma show_init_ok:
  assumes "tty_ready m0 t"
  obtains t' where "show_messages [(''init %d buffers'', [w])] m t = Inr t'" "tty_ready m0 t'"
proof -
  let ?cs = "bytes_of ''init ''" and ?bs = "line_of '' buffers''" and ?args = "\<lambda>k. [w] ! k"
  have f: "line_of ''init %d buffers'' = ?cs @ [0x25, 0x64] @ ?bs" by (simp add: line_of_def)
  have "0x25 \<notin> set ?cs" "0x25 \<notin> set ?bs" by (simp_all add: line_of_def)
  moreover obtain ds where ds: "stored (vsprintf (?cs @ [0x25, 0x64] @ ?bs) ?args m) =
      stored (vs_loop ?args m ?bs \<lparr>stored = ?cs @ ds, next_arg = 1, stores = []\<rparr>)" "length ds \<le> 33"
    using vsprintf_dec [of ?cs ?args w ?bs m] calculation(1) by auto
  ultimately have e: "stored (vsprintf (line_of ''init %d buffers'') ?args m) = ?cs @ ds @ ?bs"
    using vs_loop_text [of ?bs ?args m "[]"] by (simp add: f emit_def)
  have l: "length (?cs @ ds @ ?bs) < 1024" "length (concat (map crlf (?cs @ ds @ ?bs))) \<le> 1023"
    using ds(2) length_crlf [of "?cs @ ds @ ?bs"] by (simp_all add: line_of_def)
  obtain t' where "printk (line_of ''init %d buffers'') ?args m t = Inr (of_nat (length (?cs @ ds @ ?bs)), t')" "tty_ready m0 t'"
    using printk_view [OF assms e l] by blast
  then show thesis by (intro that [of t']) (simp_all add: show_messages_def)
qed


section \<open>The state main leaves\<close>

lemma filled_surroundings: "tasks_ptr (filled s k) = tasks_ptr s \<and> tstore (filled s k) = tstore s \<and> surroundings (filled s k) = surroundings s"
  by (induction k) (simp_all add: surroundings_def upd_buf_def)

lemma booted_surroundings:
  "tasks_ptr (booted s) = tasks_ptr s" "tstore (booted s) = tstore s" "task0_addr (booted s) = task0_addr s"
  "buffer_state.more (booted s) = buffer_state.more s"
  "messages (booted s) = messages s @ [(''init %d buffers'', [number_of_buffers s + 2967])]"
  using filled_surroundings [of s boot_buffers] filled_fields(4) [of s boot_buffers]
  by (simp_all add: booted_def Let_def print_message_def surroundings_def upd_buf_def) (simp add: boot_buffers_def)

lemma upd_reqs:
  "fold (\<lambda>i. upd_req (Suc i) f) [0..<n] s = s\<lparr>requests := \<lambda>r. if 1 \<le> r \<and> r \<le> n then f (requests s r) else requests s r\<rparr>"
proof (induction n)
  case (Suc n)
  have "(\<lambda>r. if 1 \<le> r \<and> r \<le> n then f (requests s r) else requests s r)(Suc n := f (requests s (Suc n))) =
      (\<lambda>r. if 1 \<le> r \<and> r \<le> Suc n then f (requests s r) else requests s r)" by (auto simp: fun_eq_iff le_Suc_eq)
  note eq = this
  have "fold (\<lambda>i. upd_req (Suc i) f) [0..<Suc n] s = upd_req (Suc n) f (fold (\<lambda>i. upd_req (Suc i) f) [0..<n] s)" by simp
  also have "\<dots> = upd_req (Suc n) f (s\<lparr>requests := \<lambda>r. if 1 \<le> r \<and> r \<le> n then f (requests s r) else requests s r\<rparr>)" by (simp only: Suc)
  also have "\<dots> = s\<lparr>requests := \<lambda>r. if 1 \<le> r \<and> r \<le> Suc n then f (requests s r) else requests s r\<rparr>"
    using eq by (simp add: upd_req_def)
  finally show ?case .
next
  case 0
  have e: "(\<lambda>r. if 1 \<le> r \<and> r \<le> 0 then f (requests s r) else requests s r) = requests s" by (auto simp: fun_eq_iff)
  show ?case unfolding e by simp
qed

lemma blk_req_init_eq:
  "blk_req_init s = s\<lparr>requests := \<lambda>r. if 1 \<le> r \<and> r \<le> 32 then (requests s r)\<lparr>rq_dev := - 1, rq_next := 0\<rparr> else requests s r\<rparr>"
  unfolding blk_req_init_def by (simp only: upd_reqs NUMBER_OF_REQUESTS_def)

lemma main_memory_limits_enough:
  assumes "12288 \<le> unat k"
  shows "main_memory_limits k = Some (0x400000, ucast k)"
proof -
  have u: "unat (ucast k :: u32) = unat k" by (rule unat_ucast_u16)
  have "unat k < 65536" using unsigned_less [of k, where ?'a = nat] by simp
  then show ?thesis using assms by (simp add: main_memory_limits_def Let_def word_less_nat_alt word_le_nat_alt u)
qed

lemma switch_to_TASK0_state: "switch_to_TASK0 j1 j2 r s = Some (s2, r2) \<Longrightarrow> s2 = s\<lparr>current := tasks_ptr s 0\<rparr>"
  by (auto simp: switch_to_TASK0_def Let_def push32_def)

text \<open>What the parts need: a terminal that \<open>tty_init\<close> makes ready, at least 12 MB, and the initial data of task 0.\<close>

definition boot_start :: "boot_info \<Rightarrow> u32 \<Rightarrow> machine \<Rightarrow> bool" where
  "boot_start B entry s \<longleftrightarrow> (\<exists>v. tty_ready v (tty_init (bios_cols B) (bios_x B) (bios_y B) (m_tty s))) \<and> 12288 \<le> unat (EXT_MEM_K B) \<and>
     tasks_ptr (m_disk s) 0 = task0_addr (m_disk s) \<and>
     (\<exists>pd ustack. tstore (m_disk s) (task0_addr (m_disk s)) = task0_init pd entry (task0_addr (m_disk s)) ustack)"

text \<open>
  The initial data of the image, and what setup.s leaves of the BIOS: a screen of 80 columns with the cursor on it,
  and the size of the memory.
\<close>

definition boot_ttys :: "vmem \<Rightarrow> tty_state" where
  "boot_ttys v = \<lparr>kernel_tty = init_tty, tty_table = [init_tty], the_console = boot_console v\<rparr>"

definition boot_data :: "boot_info \<Rightarrow> u32 \<Rightarrow> vmem \<Rightarrow> machine \<Rightarrow> bool" where
  "boot_data B entry v s \<longleftrightarrow> m_tty s = boot_ttys v \<and> bios_cols B = 80 \<and> bios_x B < 80 \<and> bios_y B < 25 \<and> 12288 \<le> unat (EXT_MEM_K B) \<and>
     tasks_ptr (m_disk s) 0 = task0_addr (m_disk s) \<and>
     (\<exists>pd ustack. tstore (m_disk s) (task0_addr (m_disk s)) = task0_init pd entry (task0_addr (m_disk s)) ustack)"

lemma tty_init_ready:
  assumes "x < 80" "y < 25"
  shows "tty_ready v (tty_init 80 x y (boot_ttys v))"
proof -
  have "unat x \<le> 80" "unat y \<le> 25" using assms by (simp_all add: word_less_nat_alt)
  then have "console_at (console_init 80 x y (boot_console v)) 0 (unat x) (unat y)" using console_init_at [of "unat x" "unat y" v] by simp
  then have "console_ok v (console_init 80 x y (boot_console v))" using console_init_outside [of v x y] by (auto simp: console_ok_def)
  then show ?thesis by (simp add: tty_ready_def tty_init_def boot_ttys_def init_tty_def)
qed

lemma boot_data_start: "boot_data B entry v s \<Longrightarrow> boot_start B entry s \<and> tty_ready v (tty_init (bios_cols B) (bios_x B) (bios_y B) (m_tty s))"
  using tty_init_ready by (auto simp: boot_data_def boot_start_def)

text \<open>The parts of the kernel in the state in which task 0 is entered.\<close>

definition tasks_started :: "u32 \<Rightarrow> machine \<Rightarrow> machine \<Rightarrow> bool" where
  "tasks_started entry s s' \<longleftrightarrow> current (m_disk s') = task0_addr (m_disk s) \<and> table_tasks (m_disk s') \<subseteq> {task0_addr (m_disk s)} \<and>
     r_eip (m_regs s') = entry \<and> r_cs (m_regs s') AND 3 = 3"

definition blocks_started :: "machine \<Rightarrow> machine \<Rightarrow> bool" where
  "blocks_started s s' \<longleftrightarrow> cache_rep (m_disk s') boot_list \<and>
     (\<forall>b \<in> set boot_list. ready (bufs (m_disk s') b) \<and> b_dev (bufs (m_disk s') b) = 0 \<and>
        unat (b_data (bufs (m_disk s') b)) + 1024 \<le> 0x400000) \<and>
     (\<forall>r \<in> {1..32}. rq_dev (requests (m_disk s') r) = - 1) \<and> blk_dev (m_disk s') = blk_dev (m_disk s)"

definition gates_started :: "link_map \<Rightarrow> machine \<Rightarrow> bool" where
  "gates_started L s' \<longleftrightarrow> is_gate (m_idt s' 0x80) INTERRUPT_GATE (at_system_call L) 3 \<and>
     is_gate (m_idt s' 14) TRAP_GATE (at_page_fault L) 0 \<and> is_gate (m_idt s' 0x20) INTERRUPT_GATE (at_timer_interrupt L) 0 \<and>
     (\<forall>e. e \<noteq> page_fault_14 \<longrightarrow> is_gate (m_idt s' (vector e)) TRAP_GATE (at_exception L e) (if user_may_raise e then 3 else 0))"

lemma blocks_started_booted:
  assumes "m_disk s' = (blk_req_init (booted (m_disk s)))\<lparr>tasks_ptr := tp, current := c, ports_written := pw\<rparr>"
  shows "blocks_started s s'"
proof -
  let ?d = "m_disk s'"
  have e: "bufs ?d = bufs (booted (m_disk s))" "free_list ?d = free_list (booted (m_disk s))" "hash_table ?d = hash_table (booted (m_disk s))"
    by (simp_all add: assms blk_req_init_eq)
  have "cache_rep ?d boot_list" by (rule cache_rep_cong [OF booted_rep [of "m_disk s"]]) (simp_all add: e)
  moreover have "blk_dev ?d = blk_dev (m_disk s)"
    using blk_more(2) [OF booted_surroundings(4)] by (simp add: assms blk_req_init_eq)
  moreover have "\<forall>r \<in> {1..32}. rq_dev (requests ?d r) = - 1" by (simp add: assms blk_req_init_eq)
  moreover have "unat (b_data (bufs ?d b)) + 1024 \<le> 0x400000" if "b \<in> set boot_list" for b
  proof -
    obtain i where "i < boot_buffers" "b = head_at i" using \<open>b \<in> set boot_list\<close> by (auto simp: boot_list_def)
    then show ?thesis by (simp add: e booted_bufs fresh_head_def unat_data boot_buffers_def)
  qed
  ultimately show ?thesis by (simp add: blocks_started_def e booted_member)
qed


lemma boot_messages:
  assumes "tty_ready v t"
  obtains t1 t2 t3 where "assemble_label_show L m t = Inr t1" "print1 (line_of ''ext mem size : %#x'') w m t1 = Inr t2"
    "show_messages [(''init %d buffers'', [n])] m t2 = Inr t3" "tty_ready v t3"
proof -
  obtain t1 where t1: "assemble_label_show L m t = Inr t1" "tty_ready v t1" by (rule assemble_label_show_ok [OF assms])
  obtain t2 where t2: "print1 (line_of ''ext mem size : %#x'') w m t1 = Inr t2" "tty_ready v t2"
    by (rule print1_hex_ok [OF t1(2), of _ "bytes_of ''ext mem size : ''"]) (simp_all add: line_of_def)
  show thesis using show_init_ok [OF t2(2)] that [OF t1(1) t2(1)] by metis
qed

text \<open>The lemma behind the properties of the state \<open>main\<close> leaves.\<close>

lemma main_start_state:
  assumes "boot_start B entry s" "tty_ready v (tty_init (bios_cols B) (bios_x B) (bios_y B) (m_tty s))"
  shows "\<exists>s'. main_start L B m s = Some (Inr s') \<and> tasks_started entry s s' \<and> blocks_started s s' \<and> gates_started L s' \<and>
    tty_ready v (m_tty s') \<and> (\<forall>i < PAGING_PAGES. mem_map (m_mm s') i = (if i < 768 then NOT_EXIST else 0))"
proof -
  note b = assms(1) [unfolded boot_start_def]
  let ?t0 = "tty_init (bios_cols B) (bios_x B) (bios_y B) (m_tty s)" and ?mem_end = "ucast (EXT_MEM_K B) :: u32"
  let ?idt = "system_call_init (at_system_call L) (trap_init (at_exception L) (m_idt s))"
  let ?d = "m_disk s" and ?d2 = "blk_req_init (booted (m_disk s))"
  from assms(2) obtain t1 t2 t3 where t1: "assemble_label_show L m ?t0 = Inr t1" and t2: "print1 (line_of ''ext mem size : %#x'') ?mem_end m t1 = Inr t2"
    and t3: "show_messages [(''init %d buffers'', [number_of_buffers ?d + 2967])] m t2 = Inr t3" "tty_ready v t3"
    by (rule boot_messages)
  have msg: "drop (length (messages ?d)) (messages (booted ?d)) = [(''init %d buffers'', [number_of_buffers ?d + 2967])]"
    by (simp add: booted_surroundings)
  have lim: "main_memory_limits (EXT_MEM_K B) = Some (0x400000, ?mem_end)" using b by (intro main_memory_limits_enough) blast
  obtain mm idt3 where mm: "mem_init 0x400000 ?mem_end (at_page_fault L) (m_mm s) ?idt = (mm, idt3)" by fastforce
  obtain d3 gdt1 idt4 ports where d3: "sched_init (at_timer_interrupt L) (mask_read B) ?d2 (m_gdt s) idt3 = (d3, gdt1, idt4, ports)"
    by (metis surj_pair)
  have d2: "tasks_ptr ?d2 0 = task0_addr ?d2" "task0_addr ?d2 = task0_addr ?d" "tstore ?d2 = tstore ?d"
    using b by (simp_all add: blk_req_init_eq booted_surroundings)
  obtain pd ustack where "tstore ?d2 (task0_addr ?d2) = task0_init pd entry (task0_addr ?d2) ustack" using b unfolding d2 by blast
  note task0 = boot_enters_task0 [OF d2(1) this d3, of "junk1 B" "junk2 B" "m_regs s"]
  then obtain d4 r where d4: "switch_to_TASK0 (junk1 B) (junk2 B) (m_regs s) d3 = Some (d4, r)" "current d4 = task0_addr ?d2"
    "r_eip r = entry" "r_cs r AND 3 = 3" "table_tasks d3 \<subseteq> {task0_addr ?d2}" by blast
  let ?s' = "\<lparr>m_tty = t3, m_gdt = gdt1, m_idt = idt4, m_mm = mm, m_disk = d4\<lparr>ports_written := ports_written d4 @ ports\<rparr>, m_regs = r\<rparr>"
  have run: "main_start L B m s = Some (Inr ?s')"
    by (simp add: main_start_def t1 lim t2 mm buffer_init_booted msg t3(1) d3 d4(1))
  have d3': "\<exists>tp. d3 = ?d2\<lparr>tasks_ptr := tp\<rparr>" "idt4 = set_gate idt3 0x20 INTERRUPT_GATE KERNEL_CS (at_timer_interrupt L) 0"
    using d3 by (auto simp: sched_init_def Let_def KERNEL_CS_def)
  have d4': "d4 = d3\<lparr>current := tasks_ptr d3 0\<rparr>" by (rule switch_to_TASK0_state [OF d4(1)])
  have "tasks_started entry s ?s'" using d4(2-5) unfolding d2(2) by (simp add: tasks_started_def d4' table_tasks_def)
  moreover have "blocks_started s ?s'"
  proof -
    obtain tp where "d3 = ?d2\<lparr>tasks_ptr := tp\<rparr>" using d3'(1) by blast
    then show ?thesis
      by (intro blocks_started_booted [where tp = tp and c = "tasks_ptr d3 0" and pw = "ports_written d4 @ ports"]) (simp add: d4')
  qed
  moreover have "gates_started L ?s'"
  proof -
    have "idt3 = set_gate ?idt 14 TRAP_GATE KERNEL_CS (at_page_fault L) 0" using mm by (simp add: mem_init_def KERNEL_CS_def)
    moreover have "idt4 (vector e) = ?idt (vector e)" if "e \<noteq> page_fault_14" for e
      using that unfolding d3'(2) calculation by (cases e) (simp_all add: set_gate_other)
    ultimately show ?thesis using exception_gates [of _ "at_system_call L" "at_exception L" "m_idt s"]
      by (simp add: gates_started_def d3'(2) set_gate_at_i set_gate_other system_call_init_def DPL_3_def)
  qed
  moreover have "\<forall>i < PAGING_PAGES. mem_map mm i = (if i < 768 then NOT_EXIST else 0)"
    using boot_frees_pages_beyond_memory [OF lim, of _ "at_page_fault L" "m_mm s" ?idt] by (simp add: mm)
  ultimately show ?thesis using run t3(2) by (intro exI [of _ ?s']) auto
qed


section \<open>The kernel after its start\<close>

text \<open>
  C10. \<open>main\<close> reaches task 0. From the initial data of the image, with a screen of 80 columns and at least 12 MB, no
  part fails to initialise: task 0 is current and the only task, the processor is in ring 3 at its entry; the
  buffer cache is in order and empty; every request is idle; the gates of the system calls, the timer and all exceptions
  lead to their entries, with the privilege levels they should have; the kernel's terminal is ready to print and nothing outside the video memory has been
  written; and no page below 4 MB will ever be handed out, so that no page meets a buffer.
\<close>

theorem main_enters_task0:
  assumes "boot_data B entry v s"
  shows "\<exists>s'. main_start L B m s = Some (Inr s') \<and> tasks_started entry s s' \<and> blocks_started s s' \<and> gates_started L s' \<and>
    tty_ready v (m_tty s') \<and> (\<forall>i < PAGING_PAGES. mem_map (m_mm s') i = 0 \<longrightarrow> 0x400000 \<le> unat (page_addr i))"
proof -
  obtain s' where s': "main_start L B m s = Some (Inr s')" "tasks_started entry s s'" "blocks_started s s'" "gates_started L s'"
    "tty_ready v (m_tty s')" "\<forall>i < PAGING_PAGES. mem_map (m_mm s') i = (if i < 768 then NOT_EXIST else 0)"
    using boot_data_start [OF assms] main_start_state [of B entry s v L m] by blast
  have "0x400000 \<le> unat (page_addr i)" if "i < PAGING_PAGES" "mem_map (m_mm s') i = 0" for i
  proof -
    have "\<not> i < 768" using s'(6) that by (auto simp: NOT_EXIST_def)
    then show ?thesis using page_addr_unat [OF that(1)] by simp
  qed
  then show ?thesis using s'(1-5) by blast
qed

definition demo_machine :: machine where
  "demo_machine = \<lparr>m_tty = boot_ttys (\<lambda>_. 0),
     m_gdt = (\<lambda>_. \<lparr>low_32 = 0, high_32 = 0\<rparr>), m_idt = (\<lambda>_. \<lparr>low_32 = 0, high_32 = 0\<rparr>),
     m_mm = \<lparr>mem_map = (\<lambda>_. 0), mem_end_addr = 0, pmem = (\<lambda>_ _. 0)\<rparr>,
     m_disk = (demo_disk 0 0 0 None)\<lparr>tasks_ptr := (\<lambda>_. 0x10000), tstore := (\<lambda>_. task0_init 0 0x2000 0x10000 0x5000), blk_dev := no_drivers\<rparr>,
     m_regs = \<lparr>r_eax = 0, r_ebx = 0, r_ecx = 0, r_edx = 0, r_ebp = 0, r_esi = 0, r_edi = 0, r_eip = 0, r_eflags = 0, r_esp = 0,
       r_cs = 8, r_ds = 0x10, r_es = 0x10, r_fs = 0x10, r_gs = 0x10, r_ss = 0x10\<rparr>\<rparr>"

definition demo_boot :: boot_info where
  "demo_boot = \<lparr>bios_cols = 80, bios_x = 0, bios_y = 24, EXT_MEM_K = 0x7C00, mask_read = 0xFF, junk1 = 1, junk2 = 2\<rparr>"

definition demo_map :: link_map where
  "demo_map = \<lparr>at_start = 0, at_page_dir = 0, at_kernel_stack = 0x9000, at_exception = (\<lambda>_. 0x1000), at_page_fault = 0x1100,
     at_system_call = 0x1200, at_timer_interrupt = 0x1300\<rparr>"

lemma demo_boot_data: "boot_data demo_boot 0x2000 (\<lambda>_. 0) demo_machine"
  by (auto simp: boot_data_def demo_boot_def) (auto simp: demo_machine_def demo_disk_def)

lemma demo_boot_start: "boot_start demo_boot 0x2000 demo_machine"
  using boot_data_start [OF demo_boot_data] by blast

theorem main_enters_task0_witness:
  "\<exists>s'. main_start demo_map demo_boot (\<lambda>_. 0) demo_machine = Some (Inr s') \<and> r_eip (m_regs s') = 0x2000 \<and> gates_started demo_map s'"
  using main_enters_task0 [OF demo_boot_data, of demo_map "\<lambda>_. 0"] by (auto simp: tasks_started_def)

text \<open>
  C32. After that start no block of any device can be read: \<open>main\<close> calls neither \<open>hd_init\<close> nor another driver's
  start, every \<open>do_req_fn\<close> is null, and \<open>bread\<close> prints that the device does not exist and returns a null
  pointer at once.
\<close>

theorem booted_kernel_reads_nothing:
  assumes "boot_start B entry s" "blk_dev (m_disk s) = no_drivers" "main_start L B m s = Some (Inr s')" "dev \<noteq> 0" "dev < 0x10000"
  shows "\<exists>d. bread others run dev block (m_disk s') = Some (Inr (0, d)) \<and>
    messages d = messages (m_disk s') @ [(''Trying to read nonexistent block-device'', [])]"
proof -
  obtain v where "tty_ready v (tty_init (bios_cols B) (bios_x B) (bios_y B) (m_tty s))" using assms(1) by (auto simp: boot_start_def)
  then have "blocks_started s s'" using main_start_state [OF assms(1), of v L m] assms(3) by auto
  note b = this [unfolded blocks_started_def]
  have "cache_miss dev block boot_list (head_at 0) (m_disk s')"
  proof -
    have "boot_list = head_at 0 # tl boot_list" using boot_list_facts(1,4) by (metis empty_iff empty_set list.collapse)
    moreover have "ready (bufs (m_disk s') (head_at 0))" using b boot_list_facts(4) by blast
    ultimately have "find (\<lambda>a. ready (bufs (m_disk s') a)) boot_list = Some (head_at 0)" by (metis find.simps(2))
    moreover have "2 \<le> length boot_list" by (simp add: boot_list_facts(3) boot_buffers_def)
    ultimately show ?thesis using b assms(4,5) by (auto simp: cache_miss_def holds_def)
  qed
  moreover have "\<forall>d. do_req_fn (blk_dev (m_disk s') d) = None" using b assms(2) by (simp add: no_drivers_def)
  ultimately show ?thesis using no_driver_no_block by blast
qed


theorem booted_kernel_reads_nothing_witness:
  "\<exists>s' d. main_start demo_map demo_boot (\<lambda>_. 0) demo_machine = Some (Inr s') \<and>
    bread (\<lambda>s. s) run_driver 0x300 0 (m_disk s') = Some (Inr (0, d))"
proof -
  obtain s' where s': "main_start demo_map demo_boot (\<lambda>_. 0) demo_machine = Some (Inr s')"
    using main_start_state [OF demo_boot_start, of "\<lambda>_. 0" demo_map "\<lambda>_. 0"] boot_data_start [OF demo_boot_data] by blast
  have "blk_dev (m_disk demo_machine) = no_drivers" by (simp add: demo_machine_def)
  from booted_kernel_reads_nothing [OF demo_boot_start this s', of "0x300" "\<lambda>s. s" run_driver 0] s' show ?thesis by auto
qed

end
