(* ===== verification/System_Call.thy ===== *)
theory System_Call
  imports Signals Kernel_Boot
begin

text \<open>
  The way of a system call from the library wrapper (include/unistd.h) through the entry of
  kernel/system_call.s to the handler and back to the program, and that of a timer interrupt. The kernel
  stack is the list of double words pushed, top first.
\<close>

section \<open>The frame on the kernel stack\<close>

text \<open>What the processor pushes; it saves the stack pointer only when the ring changes.\<close>

definition int_push :: "cpu_regs \<Rightarrow> u32 list" where
  "int_push r = [r_eip r, ucast (r_cs r), r_eflags r] @ (if r_cs r AND 3 = 0 then [] else [r_esp r, ucast (r_ss r)])"

definition save_regs :: "cpu_regs \<Rightarrow> u32 list \<Rightarrow> u32 list" where
  "save_regs r st =
     push32 (r_ebx r) (push32 (r_ecx r) (push32 (r_edx r) (push32 (r_edi r) (push32 (r_esi r) (push32 (r_ebp r)
       (push32 (ucast (r_ds r)) (push32 (ucast (r_es r)) (push32 (ucast (r_fs r)) st))))))))"

fun restore_regs :: "u32 list \<Rightarrow> cpu_regs \<Rightarrow> (u32 list \<times> cpu_regs) option" where
  "restore_regs (a # b # c # d # di # si # bp # sd # se # sf # st) r =
     Some (st, r\<lparr>r_eax := a, r_ebx := b, r_ecx := c, r_edx := d, r_edi := di, r_esi := si, r_ebp := bp, r_ds := ucast sd,
       r_es := ucast se, r_fs := ucast sf\<rparr>)"
| "restore_regs _ r = None"

fun iret :: "u32 list \<Rightarrow> cpu_regs \<Rightarrow> cpu_regs option" where
  "iret (ip # c # fl # st) r =
     (if c AND 3 = 0 then Some (r\<lparr>r_eip := ip, r_cs := ucast c, r_eflags := fl\<rparr>) else iret_outer (ip # c # fl # st) r)"
| "iret _ r = None"

text \<open>The frame as the parameters of \<open>copy_process\<close> (without \<open>eax\<close>) and of \<open>do_signal\<close>, which can change two of them.\<close>

definition fork_regs_of :: "u32 list \<Rightarrow> fork_regs" where
  "fork_regs_of st = fork_regs.make (st ! 0) (st ! 1) (st ! 2) (st ! 3) (st ! 4) (st ! 5) (st ! 6) (st ! 7) (st ! 8) (st ! 9) (st ! 10)
     (st ! 11) (st ! 12) (st ! 13)"

definition sig_regs_of :: "u32 list \<Rightarrow> sig_regs" where
  "sig_regs_of st = \<lparr>g_eax = st ! 0, g_ecx = st ! 2, g_edx = st ! 3, g_eip = st ! 10, g_cs = st ! 11, g_eflags = st ! 12, g_esp = st ! 13\<rparr>"

definition store_sig_regs :: "sig_regs \<Rightarrow> u32 list \<Rightarrow> u32 list" where
  "store_sig_regs g st = st[10 := g_eip g, 13 := g_esp g]"

section \<open>The handlers\<close>

text \<open>
  A handler finds its parameters on the stack: the three registers pushed last, or, for \<open>copy_process\<close>, the
  whole frame. Its result comes with the memory of the program and the kernel after it.
\<close>

definition call_handler :: "syscall \<Rightarrow> u32 list \<Rightarrow> user_mem \<Rightarrow> kernel \<Rightarrow> (i32 \<times> user_mem \<times> kernel) kresult" where
  "call_handler f st m s =
     (let p1 = st ! 0; p2 = st ! 1; p3 = st ! 2; ok = \<lambda>(v, s'). Inr (v, m, s') in
      case f of
        SysExit \<Rightarrow> rbind (sys_exit p1 s) ok
      | SysFork \<Rightarrow> rbind (copy_process (fork_regs_of st) s) ok
      | SysGetpid \<Rightarrow> Inr (sys_getpid s, m, s)
      | SysGetppid \<Rightarrow> Inr (sys_getppid s, m, s)
      | SysGetuid \<Rightarrow> Inr (sys_getuid s, m, s)
      | SysGeteuid \<Rightarrow> Inr (sys_geteuid s, m, s)
      | SysGetgid \<Rightarrow> Inr (sys_getgid s, m, s)
      | SysGetegid \<Rightarrow> Inr (sys_getegid s, m, s)
      | SysAlarm \<Rightarrow> ok (sys_alarm p1 s)
      | SysPause \<Rightarrow> ok (sys_pause s)
      | SysNice \<Rightarrow> ok (sys_nice p1 s)
      | SysKill \<Rightarrow> ok (sys_kill p1 p2 s)
      | SysSignal \<Rightarrow> ok (sys_signal p1 p2 p3 s)
      | SysSigaction \<Rightarrow> Inr (sys_sigaction p1 p2 p3 m s)
      | SysSgetmask \<Rightarrow> Inr (sys_sgetmask s, m, s)
      | SysSsetmask \<Rightarrow> ok (sys_ssetmask p1 s)
      | _ \<Rightarrow> Inr (- ENOSYS, m, s))"

section \<open>Entry and return\<close>

text \<open>
  The program goes on with its registers, or the processor was given to another task: what is left of
  the call (the rest of the kernel stack) is done when this one gets it back.
\<close>

datatype outcome = Back cpu_regs user_mem kernel | Away "u32 list" user_mem kernel

definition ret_from_system_call :: "cpu_regs \<Rightarrow> u32 list \<Rightarrow> user_mem \<Rightarrow> kernel \<Rightarrow> outcome kresult" where
  "ret_from_system_call r st m s =
     rbind (do_signal (sig_regs_of st) m s) (\<lambda>(g, m1, s1).
       let st1 = store_sig_regs g st in
       if current s1 \<noteq> current s then Inr (Away st1 m1 s1)
       else case Option.bind (restore_regs st1 r) (\<lambda>(st2, r1). iret st2 r1) of
              Some r2 \<Rightarrow> Inr (Back r2 m1 s1)
            | None \<Rightarrow> Inl (Wild_Access ''iret''))"

definition system_call :: "cpu_regs \<Rightarrow> user_mem \<Rightarrow> kernel \<Rightarrow> outcome kresult" where
  "system_call r m s =
     (case dispatch (r_eax r) of
        Bad_Number v \<Rightarrow> Inr (Back (r\<lparr>r_eax := v\<rparr>) m s)
      | Null_Call \<Rightarrow> Inl (Wild_Access ''system_call_table'')
      | Called f \<Rightarrow>
          let st = save_regs r (int_push r) in
          rbind (call_handler f st m s) (\<lambda>(v, m1, s1).
            if current s1 \<noteq> current s then Inr (Away (push32 v st) m1 s1)
            else ret_from_system_call r (push32 v st) m1 s1))"

definition timer_interrupt :: "cpu_regs \<Rightarrow> user_mem \<Rightarrow> kernel \<Rightarrow> outcome kresult" where
  "timer_interrupt r m s =
     (let st = push32 (r_eax r) (save_regs r (int_push r)); s1 = do_timer_interrupt (st ! 11) s in
      if current s1 \<noteq> current s then Inr (Away st m s1) else ret_from_system_call r st m s1)"


section \<open>The library\<close>

datatype returned = Returned "i32 \<times> i32" cpu_regs user_mem kernel | Switched "u32 list" user_mem kernel

text \<open>After \<open>int $0x80\<close>: the value returned and \<open>errno\<close>.\<close>

primrec finish_call :: "i32 \<Rightarrow> outcome \<Rightarrow> returned" where
  "finish_call errno (Back r m s) = Returned (syscall_return (r_eax r) errno) r m s"
| "finish_call errno (Away st m s) = Switched st m s"

definition syscall_0 :: "syscall \<Rightarrow> i32 \<Rightarrow> cpu_regs \<Rightarrow> user_mem \<Rightarrow> kernel \<Rightarrow> returned kresult" where
  "syscall_0 f errno r m s = rbind (system_call (r\<lparr>r_eax := of_nat (NR f)\<rparr>) m s) (\<lambda>x. Inr (finish_call errno x))"

definition syscall_1 :: "syscall \<Rightarrow> u32 \<Rightarrow> i32 \<Rightarrow> cpu_regs \<Rightarrow> user_mem \<Rightarrow> kernel \<Rightarrow> returned kresult" where
  "syscall_1 f p1 errno r m s =
     rbind (system_call (r\<lparr>r_eax := of_nat (NR f), r_ebx := p1\<rparr>) m s) (\<lambda>x. Inr (finish_call errno x))"

definition syscall_2 :: "syscall \<Rightarrow> u32 \<Rightarrow> u32 \<Rightarrow> i32 \<Rightarrow> cpu_regs \<Rightarrow> user_mem \<Rightarrow> kernel \<Rightarrow> returned kresult" where
  "syscall_2 f p1 p2 errno r m s =
     rbind (system_call (r\<lparr>r_eax := of_nat (NR f), r_ebx := p1, r_ecx := p2\<rparr>) m s) (\<lambda>x. Inr (finish_call errno x))"

definition syscall_3 :: "syscall \<Rightarrow> u32 \<Rightarrow> u32 \<Rightarrow> u32 \<Rightarrow> i32 \<Rightarrow> cpu_regs \<Rightarrow> user_mem \<Rightarrow> kernel \<Rightarrow> returned kresult" where
  "syscall_3 f p1 p2 p3 errno r m s =
     rbind (system_call (r\<lparr>r_eax := of_nat (NR f), r_ebx := p1, r_ecx := p2, r_edx := p3\<rparr>) m s) (\<lambda>x. Inr (finish_call errno x))"

section \<open>The registers of the program\<close>

lemma ucast_u16_u32 [simp]: "(ucast (ucast (w :: u16) :: u32) :: u16) = w"
  by (rule bit_word_eqI) (simp add: bit_simps)

lemma ring_ucast [simp]: "(ucast (w :: u16) :: u32) AND 3 = 0 \<longleftrightarrow> w AND 3 = 0"
proof -
  have m: "(3 :: u32) = mask 2" "(3 :: u16) = mask 2" by (simp_all add: mask_eq_exp_minus_1)
  have "unat ((ucast w :: u32) AND mask 2) = unat (w AND mask 2)"
    unfolding take_bit_eq_mask [symmetric] unsigned_take_bit_eq unat_ucast_u16 ..
  then have "unat ((ucast w :: u32) AND 3) = unat (w AND 3)" unfolding m .
  then show ?thesis by (metis unat_eq_zero)
qed

lemma saved_stack: "push32 a (save_regs r (int_push r)) = a # r_ebx r # r_ecx r # r_edx r # r_edi r # r_esi r # r_ebp r #
    ucast (r_ds r) # ucast (r_es r) # ucast (r_fs r) # r_eip r # ucast (r_cs r) # r_eflags r #
    (if r_cs r AND 3 = 0 then [] else [r_esp r, ucast (r_ss r)])"
  by (simp add: save_regs_def int_push_def push32_def)

lemma iret_saved:
  "Option.bind (restore_regs (push32 a (save_regs r (int_push r))) r) (\<lambda>(st, r1). iret st r1) = Some (r\<lparr>r_eax := a\<rparr>)"
  unfolding saved_stack by (cases "r_cs r AND 3 = 0") simp_all

lemma store_same: "store_sig_regs (sig_regs_of st) st = st"
  by (simp add: store_sig_regs_def sig_regs_of_def)

text \<open>Nothing to deliver: the program goes on with its registers, but for \<open>eax\<close>.\<close>

lemma ret_transparent:
  assumes "signal (cur_task s) AND blocked (cur_task s) = 0"
  shows "ret_from_system_call r (push32 a (save_regs r (int_push r))) m s = Inr (Back (r\<lparr>r_eax := a\<rparr>) m s)"
proof -
  have "do_signal g m s = Inr (g, m, s)" for g using assms bsf_None [of 0] by (simp add: do_signal_def)
  then show ?thesis by (simp add: ret_from_system_call_def store_same iret_saved)
qed

lemma dispatch_NR: "dispatch (of_nat (NR f)) = Called f"
proof -
  have "NR f < 72" by (cases f) simp_all
  then have "unat (of_nat (NR f) :: u32) = NR f" by (intro unat_of_nat_small) simp
  then show ?thesis using \<open>NR f < 72\<close> table_NR [of "NR f" f] by (simp add: dispatch_def NR_OF_SYSCALLS_def word_less_nat_alt)
qed

lemma system_call_back:
  assumes "r_eax r = of_nat (NR f)" "call_handler f (save_regs r (int_push r)) m s = Inr (v, m1, s1)" "current s1 = current s"
    "signal (cur_task s1) AND blocked (cur_task s1) = 0"
  shows "system_call r m s = Inr (Back (r\<lparr>r_eax := v\<rparr>) m1 s1)"
  using assms(2,3) ret_transparent [OF assms(4)] by (simp add: system_call_def assms(1) dispatch_NR Let_def del: NR.simps)


text \<open>
  C19. A call through the library returns what the kernel's handler returns: the number and the parameters reach the
  handler of that number, its result comes back in \<open>eax\<close> and as the value of the wrapper (a negative one as -1, negated in
  \<open>errno\<close>), every other register of the program is what it was before \<open>int $0x80\<close>, and memory and kernel are
  as the handler left them, unless it gave the processor away or a signal is to be delivered.
\<close>

theorem library_call_returns:
  assumes "r1 = r\<lparr>r_eax := of_nat (NR f), r_ebx := p1, r_ecx := p2, r_edx := p3\<rparr>"
    "call_handler f (save_regs r1 (int_push r1)) m s = Inr (v, m1, s1)" "current s1 = current s"
    "signal (cur_task s1) AND blocked (cur_task s1) = 0"
  shows "syscall_3 f p1 p2 p3 errno r m s = Inr (Returned (if 0 \<le>s v then (v, errno) else (- 1, - v)) (r1\<lparr>r_eax := v\<rparr>) m1 s1)"
  using system_call_back [OF _ assms(2-4)] assms(1) by (simp add: syscall_3_def syscall_return_def)

definition demo_user_regs :: cpu_regs where
  "demo_user_regs = \<lparr>r_eax = 0, r_ebx = 1, r_ecx = 2, r_edx = 3, r_ebp = 6, r_esi = 5, r_edi = 4, r_eip = 0x1234, r_eflags = 0x202,
     r_esp = 0x8000, r_cs = 0xF, r_ds = 0x17, r_es = 0x17, r_fs = 0x17, r_gs = 0x17, r_ss = 0x17\<rparr>"

lemma demo_no_signal: "signal (cur_task demo_kernel) AND blocked (cur_task demo_kernel) = 0"
  by (simp add: demo_task1_def task0_init_def)

theorem library_call_returns_witness:
  "syscall_3 SysSsetmask 0x1F 0 0 0 demo_user_regs (\<lambda>_. 0) demo_kernel =
     Inr (Returned (0, 0) (demo_user_regs\<lparr>r_ebx := 0x1F, r_ecx := 0, r_edx := 0\<rparr>) (\<lambda>_. 0)
       (snd (sys_ssetmask 0x1F demo_kernel)))"
proof -
  let ?r1 = "demo_user_regs\<lparr>r_eax := of_nat (NR SysSsetmask), r_ebx := 0x1F, r_ecx := 0, r_edx := 0\<rparr>"
  have st: "save_regs ?r1 (int_push ?r1) ! 0 = 0x1F" by (simp add: save_regs_def push32_def)
  have "call_handler SysSsetmask (save_regs ?r1 (int_push ?r1)) (\<lambda>_. 0) demo_kernel =
      Inr (0, \<lambda>_. 0, snd (sys_ssetmask 0x1F demo_kernel))"
    unfolding call_handler_def Let_def st by (simp add: sys_ssetmask_def demo_task1_def task0_init_def)
  from library_call_returns [OF refl this, of 0] show ?thesis
    by (simp add: sys_ssetmask_def upd_task_def demo_task1_def task0_init_def demo_user_regs_def word_sle_eq)
qed


text \<open>The registers in a task state segment.\<close>

definition tss_regs :: "tss_data \<Rightarrow> cpu_regs" where
  "tss_regs t = \<lparr>r_eax = tss_eax t, r_ebx = tss_ebx t, r_ecx = tss_ecx t, r_edx = tss_edx t, r_ebp = tss_ebp t, r_esi = tss_esi t,
     r_edi = tss_edi t, r_eip = tss_eip t, r_eflags = tss_eflags t, r_esp = tss_esp t, r_cs = tss_cs t, r_ds = tss_ds t,
     r_es = tss_es t, r_fs = tss_fs t, r_gs = tss_gs t, r_ss = tss_ss t\<rparr>"

lemma ucast_low16: "(ucast ((ucast (w :: u16) :: u32) AND 0xFFFF) :: u16) = w"
proof -
  have m: "(0xFFFF :: u32) = mask 16" by (simp add: mask_eq_exp_minus_1)
  show ?thesis unfolding m take_bit_eq_mask [symmetric] by (rule bit_word_eqI) (simp add: bit_simps)
qed

lemma child_regs:
  assumes "r_cs r AND 3 \<noteq> 0"
  shows "tss_regs (child_tss nr p (fork_regs_of (save_regs r (int_push r))) t) = r\<lparr>r_eax := 0, r_gs := 0\<rparr>"
  using assms by (simp add: tss_regs_def child_tss_def fork_regs_of_def fork_regs.defs save_regs_def int_push_def push32_def ucast_low16)

lemma fork_child:
  assumes "copy_process r s = Inr (c, s1)" "c \<noteq> - EAGAIN" "fork_ready s"
  obtains p where "tasks_ptr s1 (empty_slot s) = p" "pid (tstore s1 p) = c" "0 \<le>s c" "current s1 = current s"
    "cur_task s1 = cur_task s" "tss (tstore s1 p) = child_tss (empty_slot s) p r (tss (cur_task s))" "p \<noteq> current s"
  using assms(1)
proof (cases rule: copy_process_cases)
  case (child q p m s3)
  note fr = copy_mem_frame [OF child(6)] and cur = cur_task_child_entered [OF assms(3) child(2,3)]
  have t: "pid (tstore s1 p) = q" "tss (tstore s1 p) = child_tss (empty_slot s) p r (tss (cur_task s))"
    using fr(6) by (auto simp: child child_task_def Let_def)
  have "0 \<le>s q" using child(5) sless_0_iff [of q] by (simp add: not_le [symmetric])
  moreover have "current s1 = current s" "tasks_ptr s1 (empty_slot s) = p" using fr(1,2) by (simp_all add: child)
  moreover have "cur_task s1 = cur_task s" using fr(2,6) cur by (auto simp: child)
  ultimately show ?thesis using t fr(4) cur(1) by (intro that [of p]) (simp_all add: child)
qed (use assms(2) in simp_all)

text \<open>
  \<open>fork\<close> returns twice: the parent goes on after \<open>int $0x80\<close> with the child's pid and all its other
  registers as they were, and the registers in the child's task state segment, with which the processor enters it, are the
  parent's at the call except \<open>eax\<close>, which is 0 (so the wrapper returns 0 there too), and \<open>gs\<close>.
\<close>

lemma fork_returns_twice:
  assumes "r1 = r\<lparr>r_eax := of_nat (NR SysFork)\<rparr>" "r_cs r AND 3 \<noteq> 0"
    "copy_process (fork_regs_of (save_regs r1 (int_push r1))) s = Inr (c, s1)" "c \<noteq> - EAGAIN" "fork_ready s"
    "signal (cur_task s) AND blocked (cur_task s) = 0"
  shows "let child = tstore s1 (tasks_ptr s1 (empty_slot s)); r2 = tss_regs (tss child) in
     syscall_0 SysFork errno r m s = Inr (Returned (pid child, errno) (r\<lparr>r_eax := pid child\<rparr>) m s1)
     \<and> r2 = r\<lparr>r_eax := 0, r_gs := 0\<rparr> \<and> syscall_return (r_eax r2) errno = (0, errno)"
proof -
  from fork_child [OF assms(3-5)] obtain p where p: "tasks_ptr s1 (empty_slot s) = p" "pid (tstore s1 p) = c" "0 \<le>s c"
    "current s1 = current s" "cur_task s1 = cur_task s"
    "tss (tstore s1 p) = child_tss (empty_slot s) p (fork_regs_of (save_regs r1 (int_push r1))) (tss (cur_task s))" "p \<noteq> current s" .
  have "call_handler SysFork (save_regs r1 (int_push r1)) m s = Inr (c, m, s1)"
    using assms(3) by (simp add: call_handler_def Let_def)
  from system_call_back [OF _ this] have "system_call r1 m s = Inr (Back (r1\<lparr>r_eax := c\<rparr>) m s1)"
    using assms(1,6) p(4,5) by simp
  moreover have "tss_regs (tss (tstore s1 p)) = r\<lparr>r_eax := 0, r_gs := 0\<rparr>"
    using child_regs [of r1] assms(1,2) p(6) by simp
  ultimately show ?thesis using p(1-3) assms(1) by (simp add: syscall_0_def syscall_return_def Let_def)
qed

lemma fork_returns_twice_witness:
  "\<exists>c s1. syscall_0 SysFork 0 demo_user_regs (\<lambda>_. 0) demo_kernel = Inr (Returned (c, 0) (demo_user_regs\<lparr>r_eax := c\<rparr>) (\<lambda>_. 0) s1)
     \<and> tss_regs (tss (tstore s1 (tasks_ptr s1 2))) = demo_user_regs\<lparr>r_gs := 0\<rparr>"
proof -
  let ?r1 = "demo_user_regs\<lparr>r_eax := of_nat (NR SysFork)\<rparr>"
  obtain c s1 where run: "copy_process (fork_regs_of (save_regs ?r1 (int_push ?r1))) demo_kernel = Inr (c, s1)" "c \<noteq> - EAGAIN"
    using demo_fork by blast
  have "r_cs demo_user_regs AND 3 \<noteq> 0" "demo_user_regs\<lparr>r_eax := 0\<rparr> = demo_user_regs" by (simp_all add: demo_user_regs_def)
  with fork_returns_twice [OF refl _ run demo_fork_ready demo_no_signal, of 0 "\<lambda>_. 0"] show ?thesis
    unfolding Let_def demo_slot by auto
qed

section \<open>Timer interrupts\<close>

lemma timer_tick:
  assumes "r_cs r AND 3 = 0 \<or> \<not> ts (cur_task s) - 1 \<le>s 0" "signal (cur_task s) AND blocked (cur_task s) = 0"
  shows "\<exists>s1. timer_interrupt r m s = Inr (Back r m s1) \<and> jiffies s1 = jiffies s + 1
    \<and> ts (cur_task s1) = ts (cur_task s) - 1
    \<and> kts (cur_task s1) = kts (cur_task s) + (if r_cs r AND 3 = 0 then 1 else 0)
    \<and> uts (cur_task s1) = uts (cur_task s) + (if r_cs r AND 3 = 0 then 0 else 1)"
proof -
  let ?st = "push32 (r_eax r) (save_regs r (int_push r))" and ?s1 = "do_timer_interrupt (ucast (r_cs r)) s"
  have cs: "?st ! 11 = ucast (r_cs r)" by (simp add: saved_stack)
  have s1: "current ?s1 = current s" "jiffies ?s1 = jiffies s + 1" "ts (cur_task ?s1) = ts (cur_task s) - 1"
    "kts (cur_task ?s1) = kts (cur_task s) + (if r_cs r AND 3 = 0 then 1 else 0)"
    "uts (cur_task ?s1) = uts (cur_task s) + (if r_cs r AND 3 = 0 then 0 else 1)"
    "signal (cur_task ?s1) AND blocked (cur_task ?s1) = 0"
    using assms by (auto simp: do_timer_interrupt_def upd_task_def Let_def)
  have "timer_interrupt r m s = Inr (Back (r\<lparr>r_eax := r_eax r\<rparr>) m ?s1)"
    unfolding timer_interrupt_def Let_def cs ret_transparent [OF s1(6)] using s1(1) by simp
  with s1 show ?thesis by (intro exI [of _ ?s1]) simp
qed

text \<open>
  A timer interrupt is invisible to the program it interrupts, as long as the program's time is not up
  and no signal is to be delivered: it goes on with every register as it was; the kernel has counted the tick.
\<close>

lemma timer_tick_transparent:
  assumes "r_cs r AND 3 = 0 \<or> \<not> ts (cur_task s) - 1 \<le>s 0" "signal (cur_task s) AND blocked (cur_task s) = 0"
  shows "\<exists>s1. timer_interrupt r m s = Inr (Back r m s1) \<and> jiffies s1 = jiffies s + 1
    \<and> ts (cur_task s1) = ts (cur_task s) - 1
    \<and> kts (cur_task s1) = kts (cur_task s) + (if r_cs r AND 3 = 0 then 1 else 0)
    \<and> uts (cur_task s1) = uts (cur_task s) + (if r_cs r AND 3 = 0 then 0 else 1)"
  using assms by (rule timer_tick)

lemma timer_tick_transparent_witness:
  "\<exists>s1. timer_interrupt demo_user_regs (\<lambda>_. 0) demo_kernel = Inr (Back demo_user_regs (\<lambda>_. 0) s1) \<and> jiffies s1 = 8"
proof -
  have "\<not> ts (cur_task demo_kernel) - 1 \<le>s 0" by (simp add: demo_task1_def task0_init_def word_sle_eq)
  moreover have "jiffies demo_kernel = 7" by (simp add: demo_kernel_def)
  ultimately show ?thesis using timer_tick_transparent [OF _ demo_no_signal, of demo_user_regs "\<lambda>_. 0"] by auto
qed

end
