(* ===== verification/Exception_Entry.thy ===== *)
theory Exception_Entry
  imports System_Call
begin

text \<open>
  The entries of the exceptions (kernel/asm.s, mm/page.s): what they push for the C handlers, and the registers the
  interrupted program finds when they have returned.
\<close>

section \<open>The stack at the entry\<close>

text \<open>The exceptions for which the processor pushes an error code, after the words it pushes for every interrupt.\<close>

definition has_error_code :: "exception \<Rightarrow> bool" where
  "has_error_code e \<longleftrightarrow>
     e \<in> {double_fault_8, invalid_TSS_10, segment_not_present_11, stack_segment_error_12, general_protection_13, page_fault_14}"

definition exception_push :: "exception \<Rightarrow> u32 \<Rightarrow> cpu_regs \<Rightarrow> u32 list" where
  "exception_push e code r = (if has_error_code e then [code] else []) @ int_push r"

text \<open>The three parameters of a C handler that it prints: the words 12 to 14 of the stack.\<close>

definition handler_args :: "u32 list \<Rightarrow> trap_frame" where
  "handler_args st = \<lparr>trap_frame.f_eip = st ! 12, f_cs = st ! 13, f_eflags = st ! 14\<rparr>"

section \<open>Entries without and with an error code\<close>

text \<open>
  \<open>st\<close> is the stack with the word for \<open>eax\<close> on top, \<open>a\<close> the address the entry pushes last. The result is the
  stack \<open>iret\<close> finds, with the registers popped before it.
\<close>

fun pop_saved :: "u32 list \<Rightarrow> cpu_regs \<Rightarrow> (u32 list \<times> cpu_regs) option" where
  "pop_saved (sf # se # sd # bp # si # di # d # c # b # ax # st) r =
     Some (st, r\<lparr>r_fs := ucast sf, r_es := ucast se, r_ds := ucast sd, r_ebp := bp, r_esi := si, r_edi := di, r_edx := d, r_ecx := c,
       r_ebx := b, r_eax := ax\<rparr>)"
| "pop_saved _ r = None"

fun pop_saved_error :: "u32 list \<Rightarrow> cpu_regs \<Rightarrow> (u32 list \<times> cpu_regs) option" where
  "pop_saved_error (sf # se # sd # si # bp # di # d # c # b # ax # st) r =
     Some (st, r\<lparr>r_fs := ucast sf, r_es := ucast se, r_ds := ucast sd, r_esi := si, r_ebp := bp, r_edi := di, r_edx := d, r_ecx := c,
       r_ebx := b, r_eax := ax\<rparr>)"
| "pop_saved_error _ r = None"

definition push_saved :: "cpu_regs \<Rightarrow> u32 list \<Rightarrow> u32 list" where
  "push_saved r st =
     push32 (ucast (r_fs r)) (push32 (ucast (r_es r)) (push32 (ucast (r_ds r)) (push32 (r_ebp r) (push32 (r_esi r)
       (push32 (r_edi r) (push32 (r_edx r) (push32 (r_ecx r) (push32 (r_ebx r) st))))))))"

definition no_error_code ::
  "exception \<Rightarrow> u32 \<Rightarrow> cpu_regs \<Rightarrow> u32 list \<Rightarrow> bytes \<Rightarrow> tty_state \<Rightarrow> (u32 list \<times> cpu_regs \<times> tty_state) kresult" where
  "no_error_code e a r st m s =
     (let st1 = push32 a (push32 0 (push_saved r (push32 (r_eax r) st)))
      in rbind (do_exception e (handler_args st1) m s) (\<lambda>s1.
           case pop_saved (drop 2 st1) r of Some (st2, r1) \<Rightarrow> Inr (st2, r1, s1) | None \<Rightarrow> Inl (Wild_Access ''pop'')))"

text \<open>\<open>xchg eax, [esp]\<close> takes the word on top as the error code and leaves \<open>eax\<close> there.\<close>

fun error_code ::
  "exception \<Rightarrow> u32 \<Rightarrow> cpu_regs \<Rightarrow> u32 list \<Rightarrow> bytes \<Rightarrow> tty_state \<Rightarrow> (u32 list \<times> cpu_regs \<times> tty_state) kresult" where
  "error_code e a r (code # st) m s =
     (let st1 = push32 a (push32 code (push_saved r (push32 (r_eax r) st)))
      in rbind (do_exception e (handler_args st1) m s) (\<lambda>s1.
           case pop_saved_error (drop 2 st1) r of Some (st2, r1) \<Rightarrow> Inr (st2, r1, s1) | None \<Rightarrow> Inl (Wild_Access ''pop'')))"
| "error_code e a r [] m s = Inl (Wild_Access ''xchg'')"

text \<open>The page fault calls one of two handlers, by the lowest bit of the error code; neither returns.\<close>

definition page_fault :: "u32 \<Rightarrow> 'a kresult" where
  "page_fault code = (if bit code 0 then do_wp_page else do_no_page)"

definition exception_entry ::
  "exception \<Rightarrow> u32 \<Rightarrow> cpu_regs \<Rightarrow> u32 list \<Rightarrow> bytes \<Rightarrow> tty_state \<Rightarrow> (u32 list \<times> cpu_regs \<times> tty_state) kresult" where
  "exception_entry e a r st m s =
     (case e of
        page_fault_14 \<Rightarrow> page_fault (st ! 0)
      | invalid_TSS_10 \<Rightarrow> error_code e a r st m s
      | segment_not_present_11 \<Rightarrow> error_code e a r st m s
      | stack_segment_error_12 \<Rightarrow> error_code e a r st m s
      | general_protection_13 \<Rightarrow> error_code e a r st m s
      | coprocessor_error_16 \<Rightarrow> error_code e a r st m s
      | _ \<Rightarrow> no_error_code e a r st m s)"

text \<open>An exception \<open>e\<close> with error code \<open>code\<close> in a program with registers \<open>r\<close>, over the stack \<open>below\<close>.\<close>

definition raise_exception ::
  "exception \<Rightarrow> u32 \<Rightarrow> u32 \<Rightarrow> cpu_regs \<Rightarrow> u32 list \<Rightarrow> bytes \<Rightarrow> tty_state \<Rightarrow> (cpu_regs \<times> tty_state) kresult" where
  "raise_exception e code a r below m s =
     rbind (exception_entry e a r (exception_push e code r @ below) m s) (\<lambda>(st, r1, s1).
       case iret st r1 of Some r2 \<Rightarrow> Inr (r2, s1) | None \<Rightarrow> Inl (Wild_Access ''iret''))"

section \<open>What the program finds\<close>

definition frame_of_regs :: "cpu_regs \<Rightarrow> trap_frame" where
  "frame_of_regs r = \<lparr>trap_frame.f_eip = r_eip r, f_cs = ucast (r_cs r), f_eflags = r_eflags r\<rparr>"

lemma no_error_code_eq:
  "no_error_code e a r (x # y # z # st) m s =
     rbind (do_exception e \<lparr>trap_frame.f_eip = x, f_cs = y, f_eflags = z\<rparr> m s) (\<lambda>s1. Inr (x # y # z # st, r, s1))"
  by (simp add: no_error_code_def handler_args_def push_saved_def push32_def)

lemma error_code_eq:
  "error_code e a r (code # x # y # z # st) m s =
     rbind (do_exception e \<lparr>trap_frame.f_eip = x, f_cs = y, f_eflags = z\<rparr> m s)
       (\<lambda>s1. Inr (x # y # z # st, r\<lparr>r_esi := r_ebp r, r_ebp := r_esi r\<rparr>, s1))"
  by (simp add: handler_args_def push_saved_def push32_def)

lemma iret_int_push: "iret (int_push r @ below) (r\<lparr>r_esi := x, r_ebp := y\<rparr>) = Some (r\<lparr>r_esi := x, r_ebp := y\<rparr>)"
  "iret (int_push r @ below) r = Some r"
  by (simp_all add: int_push_def)

lemma int_push_cases:
  obtains rest where "int_push r @ below = r_eip r # ucast (r_cs r) # r_eflags r # rest"
  by (simp add: int_push_def)

text \<open>
  C38. The twelve exceptions other than the page fault, whose handler does not return, and the double fault and the coprocessor error, whose
  entries disagree with the processor about the error code: the handler is given the address, code segment and flags of the
  interrupted instruction, reports them and returns to that instruction. After an exception without an error code the program has all
  its registers as they were; after one with an error code \<open>esi\<close> and \<open>ebp\<close> have been exchanged, because the entry pops them
  in the order in which it pushed them.
\<close>

theorem exception_return:
  assumes "tty_ready m0 s" "e \<notin> {double_fault_8, page_fault_14, coprocessor_error_16}"
  shows "\<exists>s1. do_exception e (frame_of_regs r) m s = Inr s1 \<and> tty_ready m0 s1
    \<and> raise_exception e code a r below m s =
        Inr (if has_error_code e then r\<lparr>r_esi := r_ebp r, r_ebp := r_esi r\<rparr> else r, s1)"
proof -
  obtain s1 where s1: "do_exception e (frame_of_regs r) m s = Inr s1" "tty_ready m0 s1"
    using exception_reported [OF assms(1)] by blast
  obtain rest where st: "int_push r @ below = r_eip r # ucast (r_cs r) # r_eflags r # rest" by (rule int_push_cases)
  have "exception_entry e a r (exception_push e code r @ below) m s =
      Inr (int_push r @ below, if has_error_code e then r\<lparr>r_esi := r_ebp r, r_ebp := r_esi r\<rparr> else r, s1)"
    using assms(2) s1(1)
    by (cases e) (simp_all add: exception_entry_def exception_push_def has_error_code_def st no_error_code_eq error_code_eq
        frame_of_regs_def del: error_code.simps)
  then have "raise_exception e code a r below m s = Inr (if has_error_code e then r\<lparr>r_esi := r_ebp r, r_ebp := r_esi r\<rparr> else r, s1)"
    by (cases "has_error_code e") (simp_all add: raise_exception_def iret_int_push del: iret.simps)
  with s1 show ?thesis by blast
qed

text \<open>
  C39. Two entries disagree with the processor about the error code. The double fault, which has one, is handled as if it
  had none: the handler reports the code as the address of the instruction, and \<open>iret\<close> finds it there. The coprocessor
  error, which has none, is handled as if it had one: the address of the instruction is taken for it and lost, and the
  handler and \<open>iret\<close> find the code segment in its place.
\<close>

theorem error_code_mismatch:
  assumes "tty_ready m0 s" "r_cs r AND 3 \<noteq> 0"
  shows "(\<exists>s1. do_exception double_fault_8 \<lparr>trap_frame.f_eip = code, f_cs = r_eip r, f_eflags = ucast (r_cs r)\<rparr> m s = Inr s1
      \<and> exception_entry double_fault_8 a r (exception_push double_fault_8 code r @ below) m s = Inr (code # int_push r @ below, r, s1))
    \<and> (\<exists>s1. do_exception coprocessor_error_16 \<lparr>trap_frame.f_eip = ucast (r_cs r), f_cs = r_eflags r, f_eflags = r_esp r\<rparr> m s = Inr s1
      \<and> exception_entry coprocessor_error_16 a r (exception_push coprocessor_error_16 code r @ below) m s =
          Inr (tl (int_push r) @ below, r\<lparr>r_esi := r_ebp r, r_ebp := r_esi r\<rparr>, s1))"
proof
  obtain s1 where s1: "do_exception double_fault_8 \<lparr>trap_frame.f_eip = code, f_cs = r_eip r, f_eflags = ucast (r_cs r)\<rparr> m s = Inr s1"
    using exception_reported [OF assms(1)] by blast
  then show "\<exists>s1. do_exception double_fault_8 \<lparr>trap_frame.f_eip = code, f_cs = r_eip r, f_eflags = ucast (r_cs r)\<rparr> m s = Inr s1
      \<and> exception_entry double_fault_8 a r (exception_push double_fault_8 code r @ below) m s = Inr (code # int_push r @ below, r, s1)"
    by (simp add: exception_entry_def exception_push_def has_error_code_def int_push_def no_error_code_eq)
next
  obtain s1 where s1: "do_exception coprocessor_error_16 \<lparr>trap_frame.f_eip = ucast (r_cs r), f_cs = r_eflags r, f_eflags = r_esp r\<rparr> m s = Inr s1"
    using exception_reported [OF assms(1)] by blast
  then show "\<exists>s1. do_exception coprocessor_error_16 \<lparr>trap_frame.f_eip = ucast (r_cs r), f_cs = r_eflags r, f_eflags = r_esp r\<rparr> m s = Inr s1
      \<and> exception_entry coprocessor_error_16 a r (exception_push coprocessor_error_16 code r @ below) m s =
          Inr (tl (int_push r) @ below, r\<lparr>r_esi := r_ebp r, r_ebp := r_esi r\<rparr>, s1)"
    using assms(2)
    by (simp add: exception_entry_def exception_push_def has_error_code_def int_push_def error_code_eq del: error_code.simps)
qed

section \<open>Two exceptions of a program\<close>

theorem exception_return_witness:
  "\<exists>s1. raise_exception general_protection_13 8 0x1000 demo_user_regs [] (\<lambda>_. 0) (demo_ttys []) =
     Inr (demo_user_regs\<lparr>r_esi := 6, r_ebp := 5\<rparr>, s1)"
proof -
  have "r_ebp demo_user_regs = 6" "r_esi demo_user_regs = 5" by (simp_all add: demo_user_regs_def)
  then show ?thesis
    using exception_return [OF demo_ttys_ready [of "[]"], of general_protection_13 demo_user_regs "\<lambda>_. 0" 8 "0x1000" "[]"]
    by (auto simp: has_error_code_def)
qed

theorem error_code_mismatch_witness:
  "\<exists>s1. exception_entry double_fault_8 0x1000 demo_user_regs (exception_push double_fault_8 0 demo_user_regs) (\<lambda>_. 0) (demo_ttys []) =
     Inr ([0, 0x1234, 0xF, 0x202, 0x8000, 0x17], demo_user_regs, s1)"
proof -
  have "int_push demo_user_regs = [0x1234, 0xF, 0x202, 0x8000, 0x17]" "r_cs demo_user_regs AND 3 \<noteq> 0"
    by (simp_all add: int_push_def demo_user_regs_def)
  with error_code_mismatch [OF demo_ttys_ready [of "[]"], of demo_user_regs 0 "\<lambda>_. 0" "0x1000" "[]"] show ?thesis by auto
qed

end
