(* ===== verification/Multitasking.thy ===== *)
theory Multitasking
  imports Exception_Entry
begin

text \<open>
  Several tasks on one processor: programs, the entries of \<open>System_Call\<close>, \<open>schedule\<close> and the task switch of the
  processor (\<open>switch_to\<close> of include/linux/sched.h) as a step relation. What is proved: programs stay in user mode, a
  program that loses the processor goes on with its registers whatever the others do, and a child begins with its
  parent's.
\<close>

section \<open>What the kernel leaves of the contexts\<close>

text \<open>
  No task enters the table and, outside \<open>X\<close>, no task state segment changes: this is what a tick, a signal and every
  system call but \<open>fork\<close> do with \<open>X = {}\<close>.
\<close>

definition contexts_kept :: "u32 set \<Rightarrow> 'a sched_state_scheme \<Rightarrow> 'a sched_state_scheme \<Rightarrow> bool" where
  "contexts_kept X s s' \<longleftrightarrow> table_tasks s' \<subseteq> table_tasks s \<union> X \<and> (\<forall>b. b \<notin> X \<longrightarrow> tss (tstore s' b) = tss (tstore s b))"

definition dispatched_to :: "'a sched_state_scheme \<Rightarrow> 'a sched_state_scheme \<Rightarrow> bool" where
  "dispatched_to s s' \<longleftrightarrow> current s' = current s \<or> current s' \<in> table_tasks s'"

lemma contexts_kept_refl [simp, intro]: "contexts_kept X s s"
  by (simp add: contexts_kept_def)

lemma contexts_kept_trans: "contexts_kept X s s1 \<Longrightarrow> contexts_kept X s1 s2 \<Longrightarrow> contexts_kept X s s2"
  by (auto simp: contexts_kept_def)

lemma contexts_kept_upd: "(\<And>t. tss (f t) = tss t) \<Longrightarrow> contexts_kept X s (upd_task a f s)"
  by (auto simp: contexts_kept_def table_tasks_def)

lemma contexts_kept_fold:
  assumes "\<And>i s. contexts_kept X s (f i s)"
  shows "contexts_kept X s (fold f is s)"
  by (induction "is" arbitrary: s) (use assms in \<open>auto intro: contexts_kept_trans\<close>)

lemma dispatched_refl [simp, intro]: "dispatched_to s s"
  by (simp add: dispatched_to_def)

lemma wake_tss [simp]: "tss (wake_task j t) = tss t" "tss (refill_task t) = tss t"
  by (simp_all add: wake_task_def refill_task_def Let_def)

lemma schedule_contexts: "contexts_kept X s (schedule s)" "dispatched_to s (schedule s)"
proof -
  have w: "contexts_kept X s (woken s)" "contexts_kept X (woken s) (refilled (woken s))"
    by (auto simp: contexts_kept_def) (auto simp: woken_def refilled_def)
  show "contexts_kept X s (schedule s)"
    using w contexts_kept_trans [OF w] by (auto simp: schedule_eq contexts_kept_def table_tasks_def split: option.splits)
  show "dispatched_to s (schedule s)"
  proof (cases "next_task (woken s)")
    case (Some n)
    then have "n < NUMBER_OF_TASKS" "tasks_ptr s n \<noteq> 0" using next_task_Some [OF Some] by (auto simp: can_run_def)
    then show ?thesis using Some by (auto simp: dispatched_to_def schedule_eq table_tasks_def)
  qed (simp add: dispatched_to_def schedule_eq)
qed

lemma schedule_after: "current s1 = current s \<Longrightarrow> dispatched_to s (schedule s1)"
  using schedule_contexts(2) [of s1] by (simp add: dispatched_to_def)

lemma upd_contexts: "tss (f (tstore s a)) = tss (tstore s a) \<Longrightarrow> contexts_kept X s (upd_task a f s)"
  by (auto simp: contexts_kept_def table_tasks_def)

lemma tick_contexts: "contexts_kept X s (do_timer_interrupt cs s)" "dispatched_to s (do_timer_interrupt cs s)"
proof -
  let ?s1 = "upd_task (current s) (\<lambda>t. t\<lparr>ts := ts t - 1\<rparr>) (s\<lparr>jiffies := jiffies s + 1\<rparr>)"
  have s1: "contexts_kept X s ?s1" by (simp add: contexts_kept_def table_tasks_def)
  have k: "contexts_kept X ?s1 (upd_task (current ?s1) (\<lambda>t. t\<lparr>kts := kts t + 1\<rparr>) ?s1)"
    and u: "contexts_kept X ?s1 (upd_task (current ?s1) (\<lambda>t. t\<lparr>uts := uts t + 1\<rparr>) ?s1)"
    by (rule contexts_kept_upd, simp)+
  note ku = contexts_kept_trans [OF s1 k] contexts_kept_trans [OF s1 u]
  show "contexts_kept X s (do_timer_interrupt cs s)"
    using ku contexts_kept_trans [OF ku(2) schedule_contexts(1)] by (simp add: do_timer_interrupt_def Let_def)
  show "dispatched_to s (do_timer_interrupt cs s)"
    using schedule_after [of _ s] by (simp add: do_timer_interrupt_def Let_def) (simp add: dispatched_to_def)
qed

lemma send_sig_contexts: "contexts_kept X s (snd (send_sig sig p priv s))" "current (snd (send_sig sig p priv s)) = current s"
  by (auto simp: send_sig_def intro!: contexts_kept_upd)

lemma current_fold: "(\<And>i s. current (f i s) = current s) \<Longrightarrow> current (fold f is s) = current s"
  by (induction "is" arbitrary: s) simp_all

lemma sys_kill_contexts: "contexts_kept X s (snd (sys_kill p sig s))" "current (snd (sys_kill p sig s)) = current s"
  by (auto simp: sys_kill_def send_to_all_def send_sig_contexts intro!: contexts_kept_fold current_fold)

lemma adopt_contexts: "contexts_kept X s (adopt_child i s)" "current (adopt_child i s) = current s"
proof -
  have u: "contexts_kept X s (upd_task a (\<lambda>t. t\<lparr>father := 1\<rparr>) s)" for a by (rule contexts_kept_upd) simp
  show "contexts_kept X s (adopt_child i s)"
    using u contexts_kept_trans [OF u send_sig_contexts(1)] by (simp add: adopt_child_def Let_def)
  show "current (adopt_child i s) = current s" by (simp add: adopt_child_def Let_def send_sig_contexts)
qed

lemma bookkeeping_contexts: "contexts_kept X s (exit_bookkeeping code s)" "current (exit_bookkeeping code s) = current s"
proof -
  let ?s2 = "fold adopt_child [1 ..< NUMBER_OF_TASKS] s"
  have s2: "contexts_kept X s ?s2" "current ?s2 = current s"
    by (auto intro: contexts_kept_fold current_fold simp: adopt_contexts)
  have k: "contexts_kept X ?s2 (kill_session ?s2)" "current (kill_session ?s2) = current ?s2"
    by (auto simp: kill_session_def intro!: contexts_kept_fold current_fold contexts_kept_upd)
  note s3 = contexts_kept_trans [OF s2(1) k(1)]
  have z: "contexts_kept X s' (upd_task a (\<lambda>t. t\<lparr>state := TASK_ZOMBIE, exit_code := code\<rparr>) s')" for s' :: "'a sched_state_scheme" and a
    by (rule contexts_kept_upd) simp
  show "contexts_kept X s (exit_bookkeeping code s)" "current (exit_bookkeeping code s) = current s"
    using s2 k(2) contexts_kept_trans [OF s2(1) z] contexts_kept_trans [OF s3 z] by (simp_all add: exit_bookkeeping_def Let_def)
qed

lemma release_contexts:
  assumes "release p s = Inr s'"
  shows "contexts_kept X s s'" "dispatched_to s s'"
proof -
  have r: "contexts_kept X s (s\<lparr>tasks_ptr := (tasks_ptr s)(i := 0), mm := m\<rparr>)" for i m
    by (auto simp: contexts_kept_def table_tasks_def)
  show "contexts_kept X s s'" "dispatched_to s s'"
    using assms contexts_kept_trans [OF r schedule_contexts(1)]
    by (auto simp: release_def Let_def rbind_eq_Inr schedule_after split: if_splits)
qed

lemma tell_father_contexts:
  assumes "tell_father f s = Inr s'"
  shows "contexts_kept X s s'" "dispatched_to s s'"
  using assms release_contexts [of "current s" s s']
  by (auto simp: tell_father_def Let_def dispatched_to_def intro!: contexts_kept_upd split: if_splits)

lemma do_exit_contexts:
  assumes "do_exit code s = Inr (v, s')"
  shows "contexts_kept X s s'" "dispatched_to s s'"
proof -
  obtain m2 s5 where s5: "tell_father (father (cur_task (exit_bookkeeping code (s\<lparr>mm := m2\<rparr>)))) (exit_bookkeeping code (s\<lparr>mm := m2\<rparr>)) = Inr s5"
    "s' = (if current s5 \<noteq> current (exit_bookkeeping code (s\<lparr>mm := m2\<rparr>)) then s5 else schedule s5)"
    using assms by (auto simp: do_exit_def Let_def rbind_eq_Inr)
  have m: "contexts_kept X s (s\<lparr>mm := m2\<rparr>)" by (simp add: contexts_kept_def table_tasks_def)
  note s4 = contexts_kept_trans [OF m bookkeeping_contexts(1)] bookkeeping_contexts(2) [of code "s\<lparr>mm := m2\<rparr>"]
  note t = tell_father_contexts [OF s5(1)]
  note s5' = contexts_kept_trans [OF s4(1) t(1)]
  show "contexts_kept X s s'" using s5(2) s5' contexts_kept_trans [OF s5' schedule_contexts(1)] by simp
  show "dispatched_to s s'" using s5(2) t(2) s4(2) schedule_after [of s5 s] by (auto simp: dispatched_to_def split: if_splits)
qed

lemma deliver_contexts:
  assumes "deliver_signal i g m s = (g', m', s')"
  shows "contexts_kept X s s'" "current s' = current s" "g_cs g' = g_cs g"
  using assms by (auto simp: deliver_signal_def Let_def split: if_splits intro!: contexts_kept_upd)

lemma do_signal_contexts:
  assumes "do_signal g m s = Inr (g', m', s')"
  shows "contexts_kept X s s' \<and> dispatched_to s s' \<and> g_cs g' = g_cs g"
proof (cases "current s = tasks_ptr s 0 \<or> g_cs g AND 3 = 0 \<or> bsf (signal (cur_task s) AND blocked (cur_task s)) = None")
  case False
  then obtain i where i: "bsf (signal (cur_task s) AND blocked (cur_task s)) = Some i" by auto
  define s1 where "s1 = upd_task (current s) (\<lambda>t. t\<lparr>signal := signal t AND NOT (push_bit i 1)\<rparr>) s"
  have s1: "contexts_kept X s s1" "current s1 = current s" by (auto simp: s1_def intro: contexts_kept_upd)
  have ne: "current s \<noteq> tasks_ptr s 0" "g_cs g AND 3 \<noteq> 0" using False by simp_all
  have run: "(if sa_handler (sa (cur_task s1) i) = SIG_IGN then Inr (g, m, s1)
      else if sa_handler (sa (cur_task s1) i) = SIG_DFL
      then (if i + 1 = SIGCHLD then Inr (g, m, s1)
            else rbind (do_exit (push_bit ((i + 1) mod 32) 1) s1)
              (\<lambda>(_, s2). if current s2 \<noteq> current s1 then Inr (g, m, s2) else Inr (deliver_signal i g m s2)))
      else Inr (deliver_signal i g m s1)) = Inr (g', m', s')"
    using assms [unfolded do_signal_def i option.case Let_def, folded s1_def] by (simp only: ne if_False)
  have exit: ?thesis if "do_exit c s1 = Inr (v, s2)" "s' = s2 \<and> g' = g \<or> current s2 = current s1 \<and> deliver_signal i g m s2 = (g', m', s')" for c v s2
  proof -
    note e = do_exit_contexts [OF that(1)]
    note s2 = contexts_kept_trans [OF s1(1) e(1)]
    show ?thesis
      using that(2) s1(2) s2 e(2) contexts_kept_trans [OF s2 deliver_contexts(1), of i g m g' m' s'] deliver_contexts(2,3) [of i g m s2 g' m' s']
      by (auto simp: dispatched_to_def)
  qed
  show ?thesis
    using run s1 contexts_kept_trans [OF s1(1) deliver_contexts(1), of i g m g' m' s'] deliver_contexts(2,3) [of i g m s1 g' m' s'] exit
    by (auto simp: dispatched_to_def rbind_eq_Inr split: if_splits)
next
  case True
  then have "do_signal g m s = Inr (g, m, s)" by (auto simp: do_signal_def)
  with assms show ?thesis by simp
qed

text \<open>A fork changes the page it allocates.\<close>

lemma copy_process_contexts:
  assumes "copy_process r s = Inr (c, s')"
  obtains X where "contexts_kept X s s'" "current s' = current s"
    "\<And>p. p \<in> X \<Longrightarrow> \<not> kept_frame (mm s) (frame_of p) \<and> tss_cs (tss (tstore s' p)) = ucast (fork_regs.f_cs r AND 0xFFFF)"
  using assms
proof (cases rule: copy_process_cases)
  case (no_slot q)
  then show ?thesis by (intro that [of "{}"]) (simp_all add: contexts_kept_def table_tasks_def)
next
  case (no_memory q p m s3 e m3)
  note fr = copy_mem_frame [OF no_memory(5)]
  obtain i where i: "i < PAGING_PAGES" "mem_map (mm s) i = 0" "p = page_addr i" using no_memory(2,3) by (cases "mm s" rule: get_free_page_cases) auto
  have "contexts_kept {p} s s'" "tss_cs (tss (tstore s' p)) = ucast (fork_regs.f_cs r AND 0xFFFF)"
    using fr by (auto simp: no_memory contexts_kept_def table_tasks_def child_entered_def child_task_def child_tss_def Let_def)
  moreover have "current s' = current s" using fr by (simp add: no_memory)
  ultimately show ?thesis using i by (intro that [of "{p}"]) (auto simp: kept_frame_def page_addr_facts)
next
  case (child q p m s3)
  note fr = copy_mem_frame [OF child(6)]
  obtain i where i: "i < PAGING_PAGES" "mem_map (mm s) i = 0" "p = page_addr i" using child(2,3) by (cases "mm s" rule: get_free_page_cases) auto
  have "contexts_kept {p} s s'" "tss_cs (tss (tstore s' p)) = ucast (fork_regs.f_cs r AND 0xFFFF)"
    using fr by (auto simp: child contexts_kept_def table_tasks_def child_entered_def child_task_def child_tss_def Let_def)
  moreover have "current s' = current s" using fr by (simp add: child)
  ultimately show ?thesis using i by (intro that [of "{p}"]) (auto simp: kept_frame_def page_addr_facts)
qed

section \<open>Handlers and entries\<close>

text \<open>The code segment in a saved frame with the result on top.\<close>

definition user_frame :: "u32 list \<Rightarrow> bool" where
  "user_frame st \<longleftrightarrow> 15 \<le> length st \<and> st ! 11 AND 3 \<noteq> 0"

lemma user_frame_saved: "r_cs r AND 3 \<noteq> 0 \<Longrightarrow> user_frame (push32 a (save_regs r (int_push r)))"
  unfolding saved_stack by (simp add: user_frame_def)

lemma call_handler_contexts:
  assumes "call_handler f (save_regs r (int_push r)) m s = Inr (v, m1, s1)" "r_cs r AND 3 \<noteq> 0"
  obtains X where "contexts_kept X s s1" "dispatched_to s s1"
    "\<And>p. p \<in> X \<Longrightarrow> \<not> kept_frame (mm s) (frame_of p) \<and> tss_cs (tss (tstore s1 p)) = r_cs r"
proof -
  note out = that
  have simple: thesis if "contexts_kept {} s s1" "dispatched_to s s1"
    by (rule out [of "{}"]) (use that in simp_all)
  show thesis
  proof (cases f)
    case SysExit
    with assms(1) have "sys_exit (save_regs r (int_push r) ! 0) s = Inr (v, s1)" by (auto simp: call_handler_def Let_def rbind_eq_Inr)
    then show thesis using do_exit_contexts simple by (auto simp: sys_exit_def)
  next
    case SysFork
    with assms(1) have run: "copy_process (fork_regs_of (save_regs r (int_push r))) s = Inr (v, s1)"
      by (auto simp: call_handler_def Let_def rbind_eq_Inr)
    have "ucast (fork_regs.f_cs (fork_regs_of (save_regs r (int_push r))) AND 0xFFFF) = r_cs r"
      by (simp add: fork_regs_of_def fork_regs.defs save_regs_def int_push_def push32_def ucast_low16)
    with copy_process_contexts [OF run] out show thesis by (metis dispatched_to_def)
  next
    case SysPause
    with assms(1) have "s1 = schedule (upd_task (current s) (\<lambda>t. t\<lparr>state := TASK_INTERRUPTIBLE\<rparr>) s)"
      by (auto simp: call_handler_def Let_def sys_pause_def)
    moreover have "contexts_kept {} s (upd_task (current s) (\<lambda>t. t\<lparr>state := TASK_INTERRUPTIBLE\<rparr>) s)"
      by (rule contexts_kept_upd) simp
    ultimately show thesis
      using contexts_kept_trans [OF _ schedule_contexts(1)] schedule_after [of _ s] by (intro simple) simp_all
  next
    case SysKill
    with assms(1) have "s1 = snd (sys_kill (save_regs r (int_push r) ! 0) (save_regs r (int_push r) ! 1) s)"
      by (auto simp: call_handler_def Let_def split: prod.splits)
    then show thesis by (intro simple) (simp_all add: sys_kill_contexts dispatched_to_def)
  qed (use assms(1) in \<open>auto simp: call_handler_def Let_def sys_alarm_def sys_nice_def sys_signal_def sys_sigaction_def sys_ssetmask_def
      dispatched_to_def split: if_splits intro!: simple contexts_kept_upd\<close>)
qed

lemma ring_ucast16 [simp]: "(ucast (w :: u32) :: u16) AND 3 = 0 \<longleftrightarrow> w AND 3 = 0"
proof -
  have m: "(3 :: u32) = mask 2" "(3 :: u16) = mask 2" by (simp_all add: mask_eq_exp_minus_1)
  have "(ucast (w AND mask 2) :: u16) = ucast w AND mask 2" by (rule bit_word_eqI) (auto simp: bit_simps)
  moreover have "(ucast (ucast (w AND mask 2) :: u16) :: u32) = w AND mask 2" by (rule bit_word_eqI) (auto simp: bit_simps)
  ultimately show ?thesis unfolding m by (metis unsigned_0)
qed

lemma frame_words:
  assumes "user_frame st"
  obtains a b c d di si bp sd se sf ip cs fl sp sg rest where
    "st = a # b # c # d # di # si # bp # sd # se # sf # ip # cs # fl # sp # sg # rest" "cs AND 3 \<noteq> 0"
proof -
  obtain ws rest where "st = ws @ rest" "length ws = 15" using assms by (metis user_frame_def append_take_drop_id length_take min.absorb2)
  then show ?thesis using assms that by (auto simp: user_frame_def numeral_eq_Suc length_Suc_conv)
qed

lemma user_frame_store: "user_frame st \<Longrightarrow> user_frame (store_sig_regs g st)"
  by (simp add: user_frame_def store_sig_regs_def)

text \<open>What the handling of an event leaves: the task that goes on, or gets the processor, is in user mode or resumes in the kernel.\<close>

definition outcome_kept :: "u32 set \<Rightarrow> kernel \<Rightarrow> outcome \<Rightarrow> bool" where
  "outcome_kept X s x \<longleftrightarrow> (case x of
      Back r m1 s1 \<Rightarrow> contexts_kept X s s1 \<and> current s1 = current s \<and> r_cs r AND 3 \<noteq> 0 \<and>
        (\<forall>p \<in> X. tss_cs (tss (tstore s1 p)) AND 3 \<noteq> 0)
    | Away st m1 s1 \<Rightarrow> contexts_kept X s s1 \<and> current s1 \<in> table_tasks s1 \<and> current s1 \<noteq> current s \<and> user_frame st \<and>
        (\<forall>p \<in> X. tss_cs (tss (tstore s1 p)) AND 3 \<noteq> 0))"

lemma outcome_kept_trans:
  assumes "contexts_kept X s s1" "current s1 = current s" "outcome_kept {} s1 x" "\<forall>p \<in> X. tss_cs (tss (tstore s1 p)) AND 3 \<noteq> 0"
  shows "outcome_kept X s x"
proof -
  have "contexts_kept X s s2 \<and> (\<forall>p \<in> X. tss_cs (tss (tstore s2 p)) AND 3 \<noteq> 0)" if "contexts_kept {} s1 s2" for s2
    using that assms(1,4) by (auto simp: contexts_kept_def)
  then show ?thesis using assms(2,3) by (cases x) (simp_all add: outcome_kept_def)
qed

lemma ret_contexts:
  assumes "ret_from_system_call k st m s = Inr x" "user_frame st"
  shows "outcome_kept {} s x"
proof -
  obtain g m1 s1 where sig: "do_signal (sig_regs_of st) m s = Inr (g, m1, s1)"
    using assms(1) by (auto simp: ret_from_system_call_def rbind_eq_Inr)
  note k = do_signal_contexts [OF sig, where X = "{}"]
  show ?thesis
  proof (cases "current s1 = current s")
    case False
    then have "x = Away (store_sig_regs g st) m1 s1" using assms(1) sig by (simp add: ret_from_system_call_def Let_def)
    then show ?thesis using k False user_frame_store [OF assms(2)] by (auto simp: dispatched_to_def outcome_kept_def)
  next
    case True
    obtain a b c d di si bp sd se sf ip cs fl sp sg rest where
      st: "store_sig_regs g st = a # b # c # d # di # si # bp # sd # se # sf # ip # cs # fl # sp # sg # rest" "cs AND 3 \<noteq> 0"
      using frame_words [OF user_frame_store [OF assms(2)]] by metis
    then show ?thesis using assms(1) sig k True by (auto simp: ret_from_system_call_def Let_def outcome_kept_def)
  qed
qed

lemma timer_contexts:
  assumes "timer_interrupt r m s = Inr x" "r_cs r AND 3 \<noteq> 0"
  shows "outcome_kept {} s x"
proof -
  let ?st = "push32 (r_eax r) (save_regs r (int_push r))" and ?s1 = "do_timer_interrupt (ucast (r_cs r)) s"
  have cs: "?st ! 11 = ucast (r_cs r)" by (simp add: saved_stack)
  note t = tick_contexts(1) [of "{}" s "ucast (r_cs r)"] tick_contexts(2) [of s "ucast (r_cs r)"] and fr = user_frame_saved [OF assms(2), of "r_eax r"]
  show ?thesis
  proof (cases "current ?s1 = current s")
    case False
    then have "x = Away ?st m ?s1" using assms(1) unfolding timer_interrupt_def Let_def cs by simp
    then show ?thesis using t fr False by (auto simp: dispatched_to_def outcome_kept_def)
  next
    case True
    then have "ret_from_system_call r ?st m ?s1 = Inr x" using assms(1) unfolding timer_interrupt_def Let_def cs by simp
    from outcome_kept_trans [OF t(1) True ret_contexts [OF this fr]] show ?thesis by simp
  qed
qed

lemma system_call_contexts:
  assumes "system_call r m s = Inr x" "r_cs r AND 3 \<noteq> 0"
  obtains X where "\<forall>p \<in> X. \<not> kept_frame (mm s) (frame_of p)" "outcome_kept X s x"
proof (cases "dispatch (r_eax r)")
  case (Bad_Number v)
  then show thesis using assms by (intro that [of "{}"]) (auto simp: system_call_def outcome_kept_def)
next
  case Null_Call
  then show thesis using assms by (simp add: system_call_def)
next
  case (Called f)
  let ?st = "save_regs r (int_push r)"
  obtain v m1 s1 where h: "call_handler f ?st m s = Inr (v, m1, s1)"
    using assms(1) Called by (auto simp: system_call_def Let_def rbind_eq_Inr)
  obtain X where X: "contexts_kept X s s1" "dispatched_to s s1"
    "\<And>p. p \<in> X \<Longrightarrow> \<not> kept_frame (mm s) (frame_of p) \<and> tss_cs (tss (tstore s1 p)) = r_cs r"
    using call_handler_contexts [OF h assms(2)] by metis
  then have new: "\<forall>p \<in> X. tss_cs (tss (tstore s1 p)) AND 3 \<noteq> 0" "\<forall>p \<in> X. \<not> kept_frame (mm s) (frame_of p)" using assms(2) by auto
  note fr = user_frame_saved [OF assms(2), of v]
  show thesis
  proof (cases "current s1 = current s")
    case False
    then have "x = Away (push32 v ?st) m1 s1" using assms(1) Called h by (simp add: system_call_def Let_def)
    then show thesis using X(1,2) new fr False by (intro that [of X]) (auto simp: dispatched_to_def outcome_kept_def)
  next
    case True
    then have "ret_from_system_call r (push32 v ?st) m1 s1 = Inr x" using assms(1) Called h by (simp add: system_call_def Let_def)
    from outcome_kept_trans [OF X(1) True ret_contexts [OF this fr] new(1)] new(2) that show thesis by blast
  qed
qed

section \<open>The system\<close>

text \<open>
  The processor executes a program, or has just come back to a task in the kernel, behind the \<open>ljmp\<close> of
  \<open>switch_to\<close>. \<open>kstack\<close> is what lies on the kernel stack of each task that is not running.
\<close>

datatype processor = User cpu_regs | Kernel cpu_regs

record system =
  cpu :: processor
  kstack :: "u32 \<Rightarrow> u32 list"
  kern :: kernel

definition save_tss :: "cpu_regs \<Rightarrow> tss_data \<Rightarrow> tss_data" where
  "save_tss r t = t\<lparr>tss_eax := r_eax r, tss_ebx := r_ebx r, tss_ecx := r_ecx r, tss_edx := r_edx r, tss_ebp := r_ebp r,
     tss_esi := r_esi r, tss_edi := r_edi r, tss_eip := r_eip r, tss_eflags := r_eflags r, tss_esp := r_esp r, tss_cs := r_cs r,
     tss_ds := r_ds r, tss_es := r_es r, tss_fs := r_fs r, tss_gs := r_gs r, tss_ss := r_ss r\<rparr>"

text \<open>
  The jump to the selector of a task state segment: the registers \<open>k\<close> are saved in that of the task that loses the
  processor, and those of the new task are loaded.
\<close>

definition switch_task :: "cpu_regs \<Rightarrow> u32 list \<Rightarrow> system \<Rightarrow> kernel \<Rightarrow> system" where
  "switch_task k st S s =
     (let a = current (kern S);
          s1 = upd_task a (\<lambda>t. t\<lparr>tss := save_tss k (tss t)\<rparr>) s;
          r = tss_regs (tss (cur_task s1))
      in \<lparr>cpu = if r_cs r AND 3 = 0 then Kernel r else User r, kstack = (kstack S)(a := st), kern = s1\<rparr>)"

datatype event = Compute | Tick | Call | Resume

text \<open>What the kernel does at an event, with the user memory \<open>m\<close> of the program, and the registers before it.\<close>

fun kernel_run :: "event \<Rightarrow> user_mem \<Rightarrow> system \<Rightarrow> (cpu_regs \<times> outcome kresult) option" where
  "kernel_run Tick m S = (case cpu S of User r \<Rightarrow> Some (r, timer_interrupt r m (kern S)) | Kernel _ \<Rightarrow> None)"
| "kernel_run Call m S = (case cpu S of User r \<Rightarrow> Some (r, system_call r m (kern S)) | Kernel _ \<Rightarrow> None)"
| "kernel_run Resume m S = (case cpu S of User _ \<Rightarrow> None
     | Kernel k \<Rightarrow> Some (k, ret_from_system_call k (kstack S (current (kern S))) m (kern S)))"
| "kernel_run Compute m S = None"

text \<open>
  A program can change its registers in any way that keeps it in an outer ring. The kernel code at a
  switch has registers of its own, but for \<open>gs\<close>, which it never changes. Interrupts are disabled from the
  entry to the return, so kernel code is not interrupted.
\<close>

inductive sys_step :: "event \<Rightarrow> system \<Rightarrow> system \<Rightarrow> bool" where
  compute: "\<lbrakk>cpu S = User r; r_cs r' AND 3 \<noteq> 0\<rbrakk> \<Longrightarrow> sys_step Compute S (S\<lparr>cpu := User r'\<rparr>)"
| returns: "kernel_run e m S = Some (r, Inr (Back r' m' s')) \<Longrightarrow> sys_step e S (S\<lparr>cpu := User r', kern := s'\<rparr>)"
| switches: "\<lbrakk>kernel_run e m S = Some (r, Inr (Away st m' s')); r_cs k AND 3 = 0; r_gs k = r_gs r\<rbrakk> \<Longrightarrow>
    sys_step e S (switch_task k st S s')"

inductive_cases sys_step_cases [consumes 1, case_names compute returns switches]: "sys_step e S T"

inductive reachable :: "system \<Rightarrow> system \<Rightarrow> bool" where
  start: "reachable S S"
| next_state: "reachable S T \<Longrightarrow> sys_step e T U \<Longrightarrow> reachable S U"

section \<open>Programs stay in user mode\<close>

text \<open>
  The invariant: the running program is in an outer ring, and so is every task that waits, either by its task state
  segment (a child that has not run yet) or by the frame on its kernel stack.
\<close>

definition in_user_mode :: "system \<Rightarrow> bool" where
  "in_user_mode S \<longleftrightarrow>
     (case cpu S of User r \<Rightarrow> r_cs r AND 3 \<noteq> 0 | Kernel k \<Rightarrow> r_cs k AND 3 = 0 \<and> user_frame (kstack S (current (kern S)))) \<and>
     (\<forall>a \<in> table_tasks (kern S) - {current (kern S)}. tss_cs (tss (tstore (kern S) a)) AND 3 = 0 \<longrightarrow> user_frame (kstack S a))"

lemma tss_regs_simps [simp]: "r_cs (tss_regs t) = tss_cs t" "r_gs (tss_regs t) = tss_gs t"
  by (simp_all add: tss_regs_def)

lemma kernel_run_contexts:
  assumes "kernel_run e m S = Some (r, Inr x)" "in_user_mode S"
  obtains X where "\<forall>p \<in> X. \<not> kept_frame (mm (kern S)) (frame_of p)" "outcome_kept X (kern S) x"
proof (cases e)
  case Tick
  then have t: "cpu S = User r" "timer_interrupt r m (kern S) = Inr x" using assms(1) by (auto split: processor.splits)
  then have "r_cs r AND 3 \<noteq> 0" using assms(2) by (simp add: in_user_mode_def)
  then show thesis using timer_contexts [OF t(2)] by (intro that [of "{}"]) simp_all
next
  case Call
  then have t: "cpu S = User r" "system_call r m (kern S) = Inr x" using assms(1) by (auto split: processor.splits)
  then have "r_cs r AND 3 \<noteq> 0" using assms(2) by (simp add: in_user_mode_def)
  then show thesis using system_call_contexts [OF t(2)] that by blast
next
  case Resume
  then have t: "cpu S = Kernel r" "ret_from_system_call r (kstack S (current (kern S))) m (kern S) = Inr x"
    using assms(1) by (auto split: processor.splits)
  then have "user_frame (kstack S (current (kern S)))" using assms(2) by (simp add: in_user_mode_def)
  then show thesis using ret_contexts [OF t(2)] by (intro that [of "{}"]) simp_all
qed (use assms(1) in simp)

lemma waiting_kept:
  assumes "in_user_mode S" "contexts_kept X (kern S) s" "\<forall>p \<in> X. tss_cs (tss (tstore s p)) AND 3 \<noteq> 0"
    "a \<in> table_tasks s" "a \<noteq> current (kern S)" "tss_cs (tss (tstore s a)) AND 3 = 0"
  shows "user_frame (kstack S a)"
proof -
  have "a \<notin> X" using assms(3,6) by blast
  then have "a \<in> table_tasks (kern S)" "tss (tstore s a) = tss (tstore (kern S) a)" using assms(2,4) by (auto simp: contexts_kept_def)
  then show ?thesis using assms(1,5,6) by (simp add: in_user_mode_def)
qed

lemma sys_step_in_user_mode:
  assumes "sys_step e S T" "in_user_mode S"
  shows "in_user_mode T"
  using assms(1)
proof (cases rule: sys_step_cases)
  case (compute r r')
  then show ?thesis using assms(2) by (simp add: in_user_mode_def)
next
  case (returns m r r' m' s')
  then obtain X where "outcome_kept X (kern S) (Back r' m' s')" using kernel_run_contexts [OF _ assms(2)] by blast
  then have X: "contexts_kept X (kern S) s'" "current s' = current (kern S)" "r_cs r' AND 3 \<noteq> 0"
    "\<forall>p \<in> X. tss_cs (tss (tstore s' p)) AND 3 \<noteq> 0" by (simp_all add: outcome_kept_def)
  show ?thesis using waiting_kept [OF assms(2) X(1,4)] X(2,3) by (simp add: in_user_mode_def returns(1))
next
  case (switches m r st m' s' k)
  then obtain X where "outcome_kept X (kern S) (Away st m' s')" using kernel_run_contexts [OF _ assms(2)] by blast
  then have X: "contexts_kept X (kern S) s'" "current s' \<in> table_tasks s'" "current s' \<noteq> current (kern S)" "user_frame st"
    "\<forall>p \<in> X. tss_cs (tss (tstore s' p)) AND 3 \<noteq> 0" by (simp_all add: outcome_kept_def)
  note waiting = waiting_kept [OF assms(2) X(1,5)]
  have T: "kern T = upd_task (current (kern S)) (\<lambda>t. t\<lparr>tss := save_tss k (tss t)\<rparr>) s'" "kstack T = (kstack S)(current (kern S) := st)"
    "cpu T = (let r = tss_regs (tss (tstore s' (current s'))) in if r_cs r AND 3 = 0 then Kernel r else User r)"
    using X(3) by (auto simp: switches(1) switch_task_def Let_def)
  have tab: "table_tasks (kern T) = table_tasks s'" by (simp add: T table_tasks_def)
  show ?thesis unfolding in_user_mode_def tab using X(2-4) waiting by (auto simp: T Let_def)
qed


section \<open>A task that waits\<close>

text \<open>Steps of the others: task \<open>a\<close> has not got the processor, and its page is in use.\<close>

inductive while_others :: "u32 \<Rightarrow> system \<Rightarrow> system \<Rightarrow> bool" for a S where
  nothing: "while_others a S S"
| more: "\<lbrakk>while_others a S T; current (kern T) \<noteq> a; kept_frame (mm (kern T)) (frame_of a); sys_step e T U\<rbrakk> \<Longrightarrow> while_others a S U"

definition load_context :: "tss_data \<Rightarrow> processor" where
  "load_context t = (if tss_cs t AND 3 = 0 then Kernel (tss_regs t) else User (tss_regs t))"

lemma switch_task_fields:
  assumes "current s \<noteq> current (kern S)"
  shows "kern (switch_task k st S s) = upd_task (current (kern S)) (\<lambda>t. t\<lparr>tss := save_tss k (tss t)\<rparr>) s"
    "kstack (switch_task k st S s) = (kstack S)(current (kern S) := st)"
    "cpu (switch_task k st S s) = load_context (tss (cur_task s))"
  using assms by (simp_all add: switch_task_def Let_def load_context_def)

text \<open>Its stack and its task state segment are what they were, and the latter is loaded when its turn comes.\<close>

lemma waiting_task_kept:
  assumes "while_others a S T" "in_user_mode S" "current (kern S) \<noteq> a"
  shows "in_user_mode T \<and> kstack T a = kstack S a \<and> tss (tstore (kern T) a) = tss (tstore (kern S) a)
    \<and> (current (kern T) = a \<longrightarrow> cpu T = load_context (tss (tstore (kern S) a)))"
  using assms(1)
proof (induction rule: while_others.induct)
  case nothing
  then show ?case using assms(2,3) by simp
next
  case (more T e U)
  then have inv: "in_user_mode T" by simp
  note U = sys_step_in_user_mode [OF more.hyps(4) inv]
  from more.hyps(4) show ?case
  proof (cases rule: sys_step_cases)
    case (compute r r')
    then show ?thesis using more U by simp
  next
    case (returns m r r' m' s')
    then obtain X where X: "\<forall>p \<in> X. \<not> kept_frame (mm (kern T)) (frame_of p)" "outcome_kept X (kern T) (Back r' m' s')"
      using kernel_run_contexts [OF _ inv] by blast
    then have "a \<notin> X" using more.hyps(3) by blast
    then show ?thesis using X(2) more U by (simp add: returns(1) outcome_kept_def contexts_kept_def)
  next
    case (switches m r st m' s' k)
    then obtain X where X: "\<forall>p \<in> X. \<not> kept_frame (mm (kern T)) (frame_of p)" "outcome_kept X (kern T) (Away st m' s')"
      using kernel_run_contexts [OF _ inv] by blast
    then have "a \<notin> X" using more.hyps(3) by blast
    then have "tss (tstore s' a) = tss (tstore (kern T) a)" "current s' \<noteq> current (kern T)"
      using X(2) by (simp_all add: outcome_kept_def contexts_kept_def)
    then show ?thesis using more U by (auto simp: switches(1) switch_task_fields)
  qed
qed

section \<open>A program that loses the processor\<close>

lemma ret_other_registers:
  assumes "signal (cur_task s) AND blocked (cur_task s) = 0" "r_cs r AND 3 \<noteq> 0"
  shows "ret_from_system_call k (push32 a (save_regs r (int_push r))) m s = Inr (Back (r\<lparr>r_eax := a, r_gs := r_gs k\<rparr>) m s)"
proof -
  have "do_signal g m s = Inr (g, m, s)" for g using assms(1) bsf_None [of 0] by (simp add: do_signal_def)
  moreover have "Option.bind (restore_regs (push32 a (save_regs r (int_push r))) k) (\<lambda>(st, r1). iret st r1) = Some (r\<lparr>r_eax := a, r_gs := r_gs k\<rparr>)"
    using assms(2) unfolding saved_stack by simp
  ultimately show ?thesis by (simp add: ret_from_system_call_def store_same)
qed

text \<open>
  C5. Preemption is invisible to a program: when a tick takes the processor from it, then whatever the other tasks compute,
  whatever calls and ticks come and however the processor is switched among them, as long as its page is not
  given away, once it has the processor again (and no signal to handle) the one step that is possible brings it back with every
  register as it was at the tick.
\<close>

theorem preemption_is_transparent:
  assumes "in_user_mode S" "cpu S = User r" "current (kern S) = a"
    "current (do_timer_interrupt (ucast (r_cs r)) (kern S)) \<noteq> a" "sys_step Tick S S1" "while_others a S1 S2"
    "current (kern S2) = a" "signal (cur_task (kern S2)) AND blocked (cur_task (kern S2)) = 0"
  shows "(\<exists>S3. sys_step Resume S2 S3) \<and> (\<forall>e S3. sys_step e S2 S3 \<longrightarrow> cpu S3 = User r \<and> current (kern S3) = a)"
proof -
  let ?st = "push32 (r_eax r) (save_regs r (int_push r))" and ?s = "do_timer_interrupt (ucast (r_cs r)) (kern S)"
  have ring: "r_cs r AND 3 \<noteq> 0" using assms(1,2) by (simp add: in_user_mode_def)
  have cs: "?st ! 11 = ucast (r_cs r)" by (simp add: saved_stack)
  have "timer_interrupt r m (kern S) = Inr (Away ?st m ?s)" for m
    using assms(3,4) unfolding timer_interrupt_def Let_def cs by simp
  then have run: "kernel_run Tick m S = Some (r, Inr (Away ?st m ?s))" for m using assms(2) by simp
  from assms(5) obtain k where k: "S1 = switch_task k ?st S ?s" "r_cs k AND 3 = 0" "r_gs k = r_gs r"
    by (cases rule: sys_step_cases) (auto simp: run simp del: kernel_run.simps)
  have ne: "current ?s \<noteq> current (kern S)" using assms(3,4) by simp
  have S1: "in_user_mode S1" "current (kern S1) \<noteq> a" "kstack S1 a = ?st" "tss (tstore (kern S1) a) = save_tss k (tss (tstore ?s a))"
    using sys_step_in_user_mode [OF assms(5,1)] ne assms(3) by (simp_all add: k(1) switch_task_fields [OF ne])
  have t: "tss_cs (save_tss k t) = r_cs k" "tss_gs (save_tss k t) = r_gs k" for t by (simp_all add: save_tss_def)
  obtain k2 where S2: "cpu S2 = Kernel k2" "r_gs k2 = r_gs r" "kstack S2 a = ?st"
    using waiting_task_kept [OF assms(6) S1(1,2)] assms(7) S1(3,4) k(2,3) by (auto simp: load_context_def t)
  have resumed: "kernel_run e m S2 = (if e = Resume then Some (k2, Inr (Back r m (kern S2))) else None)" for e m
    using ret_other_registers [OF assms(8) ring, of k2 "r_eax r" m] S2 assms(7) by (cases e) simp_all
  have "sys_step Resume S2 (S2\<lparr>cpu := User r, kern := kern S2\<rparr>)"
    by (rule sys_step.returns [where m = "\<lambda>_. 0"]) (simp add: resumed)
  moreover have "cpu S3 = User r \<and> current (kern S3) = a" if "sys_step e S2 S3" for e S3
    using that by (cases rule: sys_step_cases) (use S2(1) assms(7) in \<open>auto simp: resumed simp del: kernel_run.simps split: if_splits\<close>)
  ultimately show ?thesis by blast
qed


end
