(* ===== verification/Task_Runs.thy ===== *)
theory Task_Runs
  imports Multitasking
begin

text \<open>
  Runs of the system of \<open>Multitasking\<close> with two and three tasks: a preempted task that gets the processor back, and a
  child that is scheduled for the first time.
\<close>

section \<open>One pass of \<open>schedule\<close>\<close>

lemma woken_quiet: "\<forall>a \<in> table_tasks s. alarm (tstore s a) = 0 \<and> signal (tstore s a) = 0 \<Longrightarrow> woken s = s"
  by (simp add: woken_def wake_task_def Let_def cong: if_cong)

lemma next_task_is:
  assumes "k < NUMBER_OF_TASKS" "can_run s k" "0 < ticks s k"
    "\<forall>i < NUMBER_OF_TASKS. can_run s i \<and> i \<noteq> k \<longrightarrow> ticks s i < ticks s k \<or> ticks s i = ticks s k \<and> i < k"
  shows "next_task s = Some k"
proof (cases "next_task s")
  case None
  then show ?thesis using assms(1-3) next_task_None [of s] by (metis not_le)
next
  case (Some j)
  then have "ticks s k \<le> ticks s j" "j < k \<longrightarrow> ticks s k < ticks s j" "can_run s j" "j < NUMBER_OF_TASKS"
    using next_task_Some [of s j] assms(1,2) by auto
  then have "j = k" using assms(4) by fastforce
  with Some show ?thesis by simp
qed

lemma schedule_picks:
  assumes "\<forall>a \<in> table_tasks s. alarm (tstore s a) = 0 \<and> signal (tstore s a) = 0" "next_task s = Some k"
  shows "schedule s = s\<lparr>current := tasks_ptr s k\<rparr>"
  using assms by (simp add: schedule_eq woken_quiet)

lemma schedule_refills:
  assumes "\<forall>a \<in> table_tasks s. alarm (tstore s a) = 0 \<and> signal (tstore s a) = 0" "next_task s = None"
  shows "schedule s = refilled s"
  using assms by (simp add: schedule_eq woken_quiet)

section \<open>A call of \<open>pause\<close>\<close>

definition paused :: "system \<Rightarrow> kernel" where
  "paused S = schedule (upd_task (current (kern S)) (\<lambda>t. t\<lparr>state := TASK_INTERRUPTIBLE\<rparr>) (kern S))"

lemma pause_handler: "call_handler SysPause st m (kern S) = Inr (0, m, paused S)"
  by (simp add: call_handler_def Let_def sys_pause_def paused_def)

lemma pause_returns:
  assumes "cpu S = User r" "r_eax r = of_nat (NR SysPause)" "current (paused S) = current (kern S)"
    "signal (cur_task (paused S)) AND blocked (cur_task (paused S)) = 0"
  shows "sys_step Call S (S\<lparr>cpu := User (r\<lparr>r_eax := 0\<rparr>), kern := paused S\<rparr>)"
proof (rule sys_step.returns [where m = "\<lambda>_. 0"])
  show "kernel_run Call (\<lambda>_. 0) S = Some (r, Inr (Back (r\<lparr>r_eax := 0\<rparr>) (\<lambda>_. 0) (paused S)))"
    using system_call_back [OF assms(2) pause_handler assms(3,4)] assms(1) by simp
qed

lemma pause_switches:
  assumes "cpu S = User r" "r_eax r = of_nat (NR SysPause)" "current (paused S) \<noteq> current (kern S)" "r_cs k AND 3 = 0" "r_gs k = r_gs r"
  shows "sys_step Call S (switch_task k (push32 0 (save_regs r (int_push r))) S (paused S))"
proof (rule sys_step.switches [where m = "\<lambda>_. 0" and m' = "\<lambda>_. 0"])
  show "kernel_run Call (\<lambda>_. 0) S = Some (r, Inr (Away (push32 0 (save_regs r (int_push r))) (\<lambda>_. 0) (paused S)))"
    using assms(1-3) by (simp add: system_call_def dispatch_NR pause_handler Let_def del: NR.simps)
qed (use assms(4,5) in simp_all)

section \<open>Two tasks\<close>

text \<open>Task 0 and task 1 of \<open>demo_kernel\<close>.\<close>

definition duo :: "task_struct \<Rightarrow> task_struct \<Rightarrow> u32 \<Rightarrow> i32 \<Rightarrow> kernel" where
  "duo t0 t1 c j = demo_kernel\<lparr>tstore := (tstore demo_kernel)(0x10000 := t0, 0x20000 := t1), current := c, jiffies := j\<rparr>"

lemma duo_simps [simp]:
  "current (duo t0 t1 c j) = c" "tasks_ptr (duo t0 t1 c j) = (\<lambda>_. 0)(0 := 0x10000, 1 := 0x20000)"
  "tstore (duo t0 t1 c j) 0x10000 = t0" "tstore (duo t0 t1 c j) 0x20000 = t1" "mm (duo t0 t1 c j) = one_page_task"
  "upd_task 0x10000 f (duo t0 t1 c j) = duo (f t0) t1 c j" "upd_task 0x20000 f (duo t0 t1 c j) = duo t0 (f t1) c j"
  "(duo t0 t1 c j)\<lparr>current := c'\<rparr> = duo t0 t1 c' j" "(duo t0 t1 c j)\<lparr>jiffies := j'\<rparr> = duo t0 t1 c j'" "jiffies (duo t0 t1 c j) = j"
  "table_tasks (duo t0 t1 c j) = {0x10000, 0x20000}"
  by (auto simp: duo_def upd_task_def table_tasks_def NUMBER_OF_TASKS_def fun_upd_twist)

lemma duo_refilled [simp]: "refilled (duo t0 t1 c j) = duo (refill_task t0) (refill_task t1) c j"
proof -
  have "tstore (refilled (duo t0 t1 c j)) = tstore (duo (refill_task t0) (refill_task t1) c j)"
    by (rule ext) (auto simp: refilled_def, auto simp: duo_def)
  then show ?thesis by (simp add: refilled_def) (simp add: duo_def)
qed

abbreviation waits :: "task_struct \<Rightarrow> bool" where "waits t \<equiv> state t \<noteq> TASK_RUNNING \<or> ts t = 0"
abbreviation quiet :: "task_struct \<Rightarrow> bool" where "quiet t \<equiv> alarm t = 0 \<and> signal t = 0"

lemma duo_can_run: "can_run (duo t0 t1 c j) i \<longleftrightarrow> i = 0 \<and> state t0 = TASK_RUNNING \<or> i = 1 \<and> state t1 = TASK_RUNNING"
  by (auto simp: can_run_def)

lemma duo_schedule:
  assumes "quiet t0" "quiet t1"
  shows "state t0 = TASK_RUNNING \<Longrightarrow> 0 < sint (ts t0) \<Longrightarrow> waits t1 \<Longrightarrow> schedule (duo t0 t1 c j) = duo t0 t1 0x10000 j"
    "state t1 = TASK_RUNNING \<Longrightarrow> 0 < sint (ts t1) \<Longrightarrow> waits t0 \<Longrightarrow> schedule (duo t0 t1 c j) = duo t0 t1 0x20000 j"
    "waits t0 \<Longrightarrow> waits t1 \<Longrightarrow> schedule (duo t0 t1 c j) = duo (refill_task t0) (refill_task t1) c j"
proof -
  have q: "\<forall>a \<in> table_tasks (duo t0 t1 c j). alarm (tstore (duo t0 t1 c j) a) = 0 \<and> signal (tstore (duo t0 t1 c j) a) = 0"
    using assms by simp
  show "schedule (duo t0 t1 c j) = duo t0 t1 0x10000 j" if "state t0 = TASK_RUNNING" "0 < sint (ts t0)" "waits t1"
    using that by (subst schedule_picks [OF q next_task_is [of 0]]) (auto simp: duo_can_run NUMBER_OF_TASKS_def)
  show "schedule (duo t0 t1 c j) = duo t0 t1 0x20000 j" if "state t1 = TASK_RUNNING" "0 < sint (ts t1)" "waits t0"
    using that by (subst schedule_picks [OF q next_task_is [of 1]]) (auto simp: duo_can_run NUMBER_OF_TASKS_def)
  show "schedule (duo t0 t1 c j) = duo (refill_task t0) (refill_task t1) c j" if "waits t0" "waits t1"
    using that by (subst schedule_refills [OF q]) (auto simp: duo_can_run next_task_None)
qed

section \<open>A preempted task gets the processor back\<close>

text \<open>Task 1 runs with one tick left; task 0 waits for its turn. The kernel's registers at a switch are those of the program, in ring 0.\<close>

definition demo_t0 :: task_struct where "demo_t0 = task0_init 0 0 0x10000 0"

definition one_tick :: system where
  "one_tick = \<lparr>cpu = User demo_user_regs, kstack = (\<lambda>_. []), kern = duo demo_t0 (demo_task1\<lparr>ts := 1\<rparr>) 0x20000 7\<rparr>"

abbreviation kernel_regs :: "cpu_regs \<Rightarrow> cpu_regs" where "kernel_regs r \<equiv> r\<lparr>r_cs := 8\<rparr>"

lemma demo_t0_simps [simp]: "quiet demo_t0" "blocked demo_t0 = 0" "state demo_t0 = TASK_RUNNING" "ts demo_t0 = 10" "priority demo_t0 = 10"
  "tss_cs (tss demo_t0) = 0xF"
  by (simp_all add: demo_t0_def task0_init_def task0_tss_def)

lemma demo_task1_simps [simp]: "quiet demo_task1" "blocked demo_task1 = 0" "state demo_task1 = TASK_RUNNING" "ts demo_task1 = 10"
  "priority demo_task1 = 10" "tss_cs (tss demo_task1) = 0xF"
  by (simp_all add: demo_task1_def task0_init_def task0_tss_def)

lemma low_task_kept: "kept_frame one_page_task (frame_of 0x20000)"
  by (rule low_frame_kept) (simp add: frame_of_def)

abbreviation demo_frame :: "u32 list" where "demo_frame \<equiv> push32 (r_eax demo_user_regs) (save_regs demo_user_regs (int_push demo_user_regs))"

lemma one_tick_in_user_mode: "in_user_mode one_tick"
  by (auto simp: in_user_mode_def one_tick_def demo_user_regs_def)

lemma one_tick_scheduled:
  "do_timer_interrupt (ucast (r_cs demo_user_regs)) (kern one_tick) = duo demo_t0 (demo_task1\<lparr>ts := 0, uts := uts demo_task1 + 1\<rparr>) 0x10000 8"
proof -
  have "(ucast (r_cs demo_user_regs) :: u32) AND 3 \<noteq> 0" by (simp add: demo_user_regs_def)
  then show ?thesis
    using duo_schedule(1) [of demo_t0 "demo_task1\<lparr>ts := 0, uts := uts demo_task1 + 1\<rparr>" "0x20000" 8]
    by (simp add: do_timer_interrupt_def Let_def one_tick_def word_sle_eq)
qed

definition preempted :: system where
  "preempted = switch_task (kernel_regs demo_user_regs) demo_frame one_tick
     (duo demo_t0 (demo_task1\<lparr>ts := 0, uts := uts demo_task1 + 1\<rparr>) 0x10000 8)"

lemma one_tick_step: "sys_step Tick one_tick preempted"
  unfolding preempted_def
proof (rule sys_step.switches [where m = "\<lambda>_. 0" and m' = "\<lambda>_. 0"])
  have cs: "demo_frame ! 11 = ucast (r_cs demo_user_regs)" by (simp add: saved_stack)
  have "timer_interrupt demo_user_regs (\<lambda>_. 0) (kern one_tick) =
      Inr (Away demo_frame (\<lambda>_. 0) (duo demo_t0 (demo_task1\<lparr>ts := 0, uts := uts demo_task1 + 1\<rparr>) 0x10000 8))"
    unfolding timer_interrupt_def Let_def cs one_tick_scheduled by (simp add: one_tick_def)
  then show "kernel_run Tick (\<lambda>_. 0) one_tick = Some (demo_user_regs,
      Inr (Away demo_frame (\<lambda>_. 0) (duo demo_t0 (demo_task1\<lparr>ts := 0, uts := uts demo_task1 + 1\<rparr>) 0x10000 8)))"
    by (simp add: one_tick_def)
qed simp_all

text \<open>Then task 0 calls \<open>pause\<close> twice: the first call gives task 1 new ticks, the second the processor.\<close>

lemma preempted_cpu: "cpu preempted = User (tss_regs (tss demo_t0))"
  by (simp add: preempted_def switch_task_def one_tick_def Let_def)

lemma preempted_kern: "kern preempted = duo demo_t0
    ((demo_task1\<lparr>uts := uts demo_task1 + 1, tss := save_tss (kernel_regs demo_user_regs) (tss demo_task1)\<rparr>)\<lparr>ts := 0\<rparr>) 0x10000 8"
  unfolding preempted_def switch_task_def Let_def
  by (simp add: one_tick_def) (rule arg_cong [where f = "\<lambda>t. duo demo_t0 t 0x10000 8"], rule task_struct.equality, simp_all)

lemma two_pauses:
  obtains S2 where "while_others 0x20000 preempted S2" "current (kern S2) = 0x20000" "signal (cur_task (kern S2)) = 0"
proof -
  define t1 where "t1 = demo_task1\<lparr>uts := uts demo_task1 + 1, tss := save_tss (kernel_regs demo_user_regs) (tss demo_task1)\<rparr>"
  define p0 where "p0 = demo_t0\<lparr>state := TASK_INTERRUPTIBLE\<rparr>"
  have simps [simp]: "quiet t1" "quiet p0" "state t1 = TASK_RUNNING" "ts t1 = 10" "priority t1 = 10" "state p0 = TASK_INTERRUPTIBLE" "blocked p0 = 0"
    "refill_task p0 = p0" "p0\<lparr>state := TASK_INTERRUPTIBLE\<rparr> = p0" "demo_t0\<lparr>state := TASK_INTERRUPTIBLE\<rparr> = p0" "refill_task (t1\<lparr>ts := 0\<rparr>) = t1"
    by (simp_all add: t1_def p0_def refill_task_def)
  define r where "r = (tss_regs (tss demo_t0))\<lparr>r_eax := of_nat (NR SysPause)\<rparr>"
  have ring: "r_cs r AND 3 \<noteq> 0" by (simp add: r_def)
  define A where "A = preempted\<lparr>cpu := User r\<rparr>"
  have A: "sys_step Compute preempted A" using preempted_cpu ring unfolding A_def by (intro sys_step.compute)
  have kA: "kern A = duo demo_t0 (t1\<lparr>ts := 0\<rparr>) 0x10000 8" "cpu A = User r" by (simp_all add: A_def preempted_kern t1_def)
  have pA: "paused A = duo p0 t1 0x10000 8" using duo_schedule(3) [of p0 "t1\<lparr>ts := 0\<rparr>"] by (simp add: paused_def kA)
  define B where "B = A\<lparr>cpu := User (r\<lparr>r_eax := 0\<rparr>), kern := paused A\<rparr>"
  have B: "sys_step Call A B" unfolding B_def by (rule pause_returns) (simp_all add: pA, simp_all add: kA r_def)
  define C where "C = B\<lparr>cpu := User r\<rparr>"
  have C: "sys_step Compute B C" using ring unfolding C_def by (intro sys_step.compute [of _ "r\<lparr>r_eax := 0\<rparr>"]) (simp_all add: B_def)
  have kC: "kern C = duo p0 t1 0x10000 8" "cpu C = User r" by (simp_all add: C_def B_def pA)
  have pC: "paused C = duo p0 t1 0x20000 8" using duo_schedule(2) [of p0 t1] by (simp add: paused_def kC)
  define D where "D = switch_task (kernel_regs r) (push32 0 (save_regs r (int_push r))) C (paused C)"
  have D: "sys_step Call C D" unfolding D_def by (rule pause_switches) (simp_all add: pC, simp_all add: kC r_def)
  have "while_others 0x20000 preempted A" by (rule while_others.more [OF while_others.nothing _ _ A]) (simp_all add: preempted_kern low_task_kept)
  then have "while_others 0x20000 preempted B" by (rule while_others.more [OF _ _ _ B]) (simp_all add: kA low_task_kept)
  then have "while_others 0x20000 preempted C" by (rule while_others.more [OF _ _ _ C]) (simp_all add: B_def pA low_task_kept)
  then have "while_others 0x20000 preempted D" by (rule while_others.more [OF _ _ _ D]) (simp_all add: kC low_task_kept)
  moreover have "current (kern D) = 0x20000" "signal (cur_task (kern D)) = 0" by (simp_all add: D_def switch_task_def Let_def pC kC)
  ultimately show thesis by (rule that)
qed

theorem preemption_is_transparent_witness:
  "\<exists>S2 S3. while_others 0x20000 preempted S2 \<and> current (kern preempted) = 0x10000 \<and> sys_step Resume S2 S3 \<and> cpu S3 = User demo_user_regs"
proof -
  obtain S2 where S2: "while_others 0x20000 preempted S2" "current (kern S2) = 0x20000" "signal (cur_task (kern S2)) = 0" by (rule two_pauses)
  have now: "cpu one_tick = User demo_user_regs" "current (kern one_tick) = 0x20000" by (simp_all add: one_tick_def)
  have lost: "current (do_timer_interrupt (ucast (r_cs demo_user_regs)) (kern one_tick)) \<noteq> 0x20000" unfolding one_tick_scheduled by simp
  have "signal (cur_task (kern S2)) AND blocked (cur_task (kern S2)) = 0" using S2(3) by simp
  note preemption_is_transparent [OF one_tick_in_user_mode now lost one_tick_step S2(1,2) this]
  moreover have "current (kern preempted) = 0x10000" by (simp add: preempted_kern)
  ultimately show ?thesis using S2(1) by blast
qed

section \<open>One task\<close>

text \<open>Task 0 alone computes something and is interrupted by a tick.\<close>

definition alone :: system where
  "alone = \<lparr>cpu = User demo_user_regs, kstack = (\<lambda>_. []),
     kern = (duo demo_t0 demo_task1 0x10000 7)\<lparr>tasks_ptr := (\<lambda>_. 0)(0 := 0x10000)\<rparr>\<rparr>"


section \<open>A child is scheduled for the first time\<close>

lemma forked_child_ready:
  assumes "copy_process r s = Inr (c, s1)" "c \<noteq> - EAGAIN" "fork_ready s" "empty_slot s \<noteq> 1"
  obtains p where "tasks_ptr s1 = (tasks_ptr s)(empty_slot s := p)" "p \<noteq> 0" "\<And>a. a \<noteq> p \<Longrightarrow> tstore s1 a = tstore s a"
    "state (tstore s1 p) = TASK_RUNNING" "ts (tstore s1 p) = priority (cur_task s)" "quiet (tstore s1 p)" "current s1 = current s"
    "\<not> kept_frame (mm s) (frame_of p)" "kept_frame (mm s1) (frame_of p)"
  using assms(1)
proof (cases rule: copy_process_cases)
  case (child q p m s3)
  note fr = copy_mem_frame [OF child(6)] and cur = cur_task_child_entered [OF assms(3) child(2,3)]
  obtain i where i: "i < PAGING_PAGES" "p = page_addr i" "mem_map (mm s) i = 0" "mem_map m = (mem_map (mm s))(i := 1)"
    "copy_ready m (dir_slot (user_base s)) (dir_slot (slot_base (empty_slot s))) (nr_of_dir_ent (user_limit s))"
    using copy_ready_alloc [OF child(2,3)] assms(3) unfolding fork_ready_def by metis
  from child(6) assms(4) obtain m2 where cp:
    "copy_page_tables (user_base s) (slot_base (empty_slot s)) (user_limit s) m = Inr (0, m2)" "mm s3 = m2"
    by (cases rule: copy_mem_cases) (auto simp: user_base_def user_limit_def slot_base_def cur(1) ENOMEM_def)
  obtain L where "alloc_ext L m m2" using copy_page_tables_inv [OF cp(1) i(5)] by (auto simp: dir_acct_def)
  then have "kept_frame m2 (page_frame i)" using i by (intro kept_frame_ext [OF kept_page]) simp_all
  then have k: "kept_frame (mm s1) (frame_of p)" "\<not> kept_frame (mm s) (frame_of p)"
    using i by (auto simp: child cp(2) page_addr_facts kept_frame_def)
  have "state (tstore s1 p) = TASK_RUNNING" "ts (tstore s1 p) = priority (cur_task s)" "quiet (tstore s1 p)"
    "\<And>a. a \<noteq> p \<Longrightarrow> tstore s1 a = tstore s a"
    using fr(6) by (auto simp: child child_task_def Let_def)
  moreover have "tasks_ptr s1 = (tasks_ptr s)(empty_slot s := p)" "current s1 = current s" using fr(1,2) by (simp_all add: child)
  ultimately show thesis using that [of p] child(3) k by blast
qed (use assms(2) in simp_all)

text \<open>Task 1 forks and pauses: the child, in slot 2, has as many ticks as task 0 and is preferred.\<close>

definition forking :: system where
  "forking = \<lparr>cpu = User (demo_user_regs\<lparr>r_eax := of_nat (NR SysFork)\<rparr>), kstack = (\<lambda>_. []), kern = demo_kernel\<rparr>"

lemma demo_tasks: "table_tasks demo_kernel = {0x10000, 0x20000}"
  by (auto simp: table_tasks_def NUMBER_OF_TASKS_def)

lemma forking_in_user_mode: "in_user_mode forking"
proof -
  have "tstore demo_kernel 0x10000 = demo_t0" by (simp add: demo_kernel_def demo_t0_def)
  then show ?thesis by (auto simp: in_user_mode_def forking_def demo_user_regs_def demo_tasks)
qed

lemma fork_then_pause:
  assumes "copy_process (fork_regs_of (save_regs r0 (int_push r0))) demo_kernel = Inr (c, s1)" "c \<noteq> - EAGAIN"
    "r0 = demo_user_regs\<lparr>r_eax := of_nat (NR SysFork)\<rparr>"
  shows "\<exists>S1 S2. sys_step Call forking S1 \<and> while_others (tasks_ptr s1 2) S1 S2 \<and> current (kern S2) = tasks_ptr s1 2"
proof -
  have slot: "empty_slot demo_kernel \<noteq> 1" unfolding demo_slot by simp
  obtain p where p: "tasks_ptr s1 = (tasks_ptr demo_kernel)(2 := p)" "p \<noteq> 0" "\<And>a. a \<noteq> p \<Longrightarrow> tstore s1 a = tstore demo_kernel a"
    "state (tstore s1 p) = TASK_RUNNING" "ts (tstore s1 p) = 10" "quiet (tstore s1 p)" "current s1 = 0x20000"
    "\<not> kept_frame one_page_task (frame_of p)" "kept_frame (mm s1) (frame_of p)"
    using forked_child_ready [OF assms(1,2) demo_fork_ready slot] unfolding demo_slot by auto
  have "kept_frame one_page_task (frame_of 0x10000)" by (rule low_frame_kept) (simp add: frame_of_def)
  then have ne: "p \<noteq> 0x10000" "p \<noteq> 0x20000" using p(8) low_task_kept by auto
  have t: "tstore s1 0x10000 = demo_t0" "tstore s1 0x20000 = demo_task1"
    using p(3) [of "0x10000"] p(3) [of "0x20000"] ne by (simp_all add: demo_kernel_def demo_t0_def)
  have h: "call_handler SysFork (save_regs r0 (int_push r0)) (\<lambda>_. 0) demo_kernel = Inr (c, \<lambda>_. 0, s1)"
    using assms(1) by (simp add: call_handler_def Let_def)
  have "system_call r0 (\<lambda>_. 0) demo_kernel = Inr (Back (r0\<lparr>r_eax := c\<rparr>) (\<lambda>_. 0) s1)"
    by (rule system_call_back [OF _ h]) (simp_all add: assms(3) p(7) t)
  then have run: "kernel_run Call (\<lambda>_. 0) forking = Some (r0, Inr (Back (r0\<lparr>r_eax := c\<rparr>) (\<lambda>_. 0) s1))"
    by (simp add: forking_def assms(3))
  define r where "r = demo_user_regs\<lparr>r_eax := of_nat (NR SysPause)\<rparr>"
  have ring: "r_cs r AND 3 \<noteq> 0" by (simp add: r_def demo_user_regs_def)
  define A where "A = forking\<lparr>cpu := User (r0\<lparr>r_eax := c\<rparr>), kern := s1\<rparr>"
  define B where "B = A\<lparr>cpu := User r\<rparr>"
  have A: "sys_step Call forking A" unfolding A_def by (rule sys_step.returns [OF run])
  have B: "sys_step Compute A B" using ring unfolding B_def by (intro sys_step.compute) (simp_all add: A_def)
  have kB: "kern B = s1" "cpu B = User r" by (simp_all add: B_def A_def)
  define s2 where "s2 = upd_task 0x20000 (\<lambda>t. t\<lparr>state := TASK_INTERRUPTIBLE\<rparr>) s1"
  have tab: "table_tasks s2 \<subseteq> {0x10000, 0x20000, p}" by (auto simp: s2_def table_tasks_def p(1) split: if_splits)
  have q: "\<forall>a \<in> table_tasks s2. alarm (tstore s2 a) = 0 \<and> signal (tstore s2 a) = 0"
    using tab p(6) ne by (auto simp: s2_def t)
  have "next_task s2 = Some 2"
  proof (rule next_task_is)
    show "can_run s2 2" "0 < ticks s2 2" using p(2,4,5) ne by (simp_all add: can_run_def s2_def p(1))
    show "\<forall>i < NUMBER_OF_TASKS. can_run s2 i \<and> i \<noteq> 2 \<longrightarrow> ticks s2 i < ticks s2 2 \<or> ticks s2 i = ticks s2 2 \<and> i < 2"
      using p(5) ne by (auto simp: can_run_def s2_def p(1) t)
  qed (simp add: NUMBER_OF_TASKS_def)
  from schedule_picks [OF q this] have pB: "paused B = s2\<lparr>current := p\<rparr>" by (simp add: paused_def kB p(7) s2_def p(1))
  define C where "C = switch_task (kernel_regs r) (push32 0 (save_regs r (int_push r))) B (paused B)"
  have C: "sys_step Call B C" unfolding C_def
    by (rule pause_switches) (use ne in \<open>simp_all add: kB pB p(7)\<close>, simp_all add: r_def)
  have "while_others p A B" by (rule while_others.more [OF while_others.nothing _ _ B]) (use ne p(7,9) in \<open>simp_all add: A_def\<close>)
  then have "while_others p A C" by (rule while_others.more [OF _ _ _ C]) (use ne p(7,9) in \<open>simp_all add: kB\<close>)
  moreover have "current (kern C) = p" by (simp add: C_def switch_task_def Let_def pB)
  ultimately show ?thesis using A by (auto simp: p(1))
qed


end
