(* ===== verification/Disk_Read.thy ===== *)
theory Disk_Read
  imports Disk_Transfer
begin

text \<open>
  A block from the disk to the caller of \<open>bread\<close>: the buffer cache, the request queue, the driver with its interrupts, and
  the task that sleeps until its buffer is unlocked, put together.
\<close>

section \<open>A read that waits in the queue\<close>

text \<open>Request \<open>r\<close>, the last of the queue, asks for the sectors of buffer \<open>b\<close>, and the driver can send it when its turn comes.\<close>

definition queued_read :: "nat \<Rightarrow> nat \<Rightarrow> u32 \<Rightarrow> 'a hd_state_scheme \<Rightarrow> bool" where
  "queued_read dev r b s \<longleftrightarrow> sendable dev (set_CURR_REQ r s) \<and> rq_cmd (requests s r) = BLK_READ \<and> rq_nr_sector (requests s r) = 2 \<and>
     rq_next (requests s r) = 0 \<and> rq_bh (requests s r) = b \<and> b \<noteq> 0 \<and> addressable (hd_hw s dev) \<and>
     unat (disk_block (set_CURR_REQ r s)) div unat (hw_sect (hd_hw s dev)) div unat (hw_head (hd_hw s dev)) < 0x10000"

lemma set_CURR_REQ_simps [simp]:
  "CURR_REQ (set_CURR_REQ r s) = r" "requests (set_CURR_REQ r s) = requests s" "bufs (set_CURR_REQ r s) = bufs s"
  "hd_parts (set_CURR_REQ r s) = hd_parts s" "number_of_hd (set_CURR_REQ r s) = number_of_hd s" "hd_hw (set_CURR_REQ r s) = hd_hw s"
  by (simp_all add: set_CURR_REQ_def CURR_REQ_def)

lemma sendable_cong:
  assumes "CURR_REQ t = r" "requests t r = requests s r" "bufs t (rq_bh (requests s r)) = bufs s (rq_bh (requests s r))"
    "hd_parts t = hd_parts s" "number_of_hd t = number_of_hd s"
  shows "sendable dev t \<longleftrightarrow> sendable dev (set_CURR_REQ r s)" "disk_block t = disk_block (set_CURR_REQ r s)"
  using assms by (simp_all add: sendable_def out_of_range_def disk_block_def)

text \<open>Among what was written to the ports is a command to read two sectors from sector \<open>n\<close> of a drive with geometry \<open>hw\<close>.\<close>

definition commanded :: "hd_hw_info \<Rightarrow> nat \<Rightarrow> nat \<Rightarrow> (u16 \<times> u8) list \<Rightarrow> bool" where
  "commanded hw drive n ps \<longleftrightarrow> (\<exists>pre post ctl pc sec lcyl hcyl cur.
     ps = pre @ [(HD_CMD, ctl), (HD_PRECOMP, pc), (HD_NSECTOR, 2), (HD_SECTOR, sec), (HD_LCYL, lcyl), (HD_HCYL, hcyl),
       (HD_CURRENT, cur), (HD_COMMAND, 0x20)] @ post \<and>
     named_sector hw sec lcyl hcyl cur = n \<and> (bit cur 4 \<longleftrightarrow> drive = 1))"

lemma commandedI:
  "\<lbrakk>ps = pre @ [(HD_CMD, ctl), (HD_PRECOMP, pc), (HD_NSECTOR, 2), (HD_SECTOR, sec), (HD_LCYL, lcyl), (HD_HCYL, hcyl),
       (HD_CURRENT, cur), (HD_COMMAND, 0x20)] @ post;
    named_sector hw sec lcyl hcyl cur = n; bit cur 4 \<longleftrightarrow> drive = 1\<rbrakk> \<Longrightarrow> commanded hw drive n ps"
  unfolding commanded_def by blast

lemma commanded_append: "commanded hw drive n ps \<Longrightarrow> commanded hw drive n (ps @ qs)"
  unfolding commanded_def by (metis append.assoc)

lemma interrupts_before_next:
  assumes "do_hd s = Some Read_Intr" "controller_idle s" "CURR_REQ s = r0" "rq_nr_sector (requests s r0) = 2"
    "rq_next (requests s r0) = r" "rq_bh (requests s r0) = b0" "b0 \<noteq> 0" "r \<noteq> r0" "b \<noteq> b0" "queued_read dev r b s"
    "\<not> reset_flag s" "\<not> recalibrate s"
  shows "\<exists>s1 s2. hd_interrupt s = Some (Inr s1) \<and> hd_interrupt s1 = Some (Inr s2) \<and> CURR_REQ s2 = r \<and> do_hd s2 = Some Read_Intr \<and>
    controller_idle s2 \<and> requests s2 r = requests s r \<and>
    bufs s2 = (bufs s)(b0 := (bufs s b0)\<lparr>b_uptodate := 1, b_lock := 0, b_wait := 0\<rparr>) \<and>
    data_read s2 = data_read s + 1024 \<and> data_value s2 = data_value s \<and> commanded (hd_hw s dev) dev (unat (disk_block (set_CURR_REQ r s))) (ports_written s2)"
proof -
  define s1 where "s1 = acknowledged ((sector_taken (s\<lparr>do_hd := None\<rparr>))\<lparr>do_hd := Some Read_Intr\<rparr>)"
  define t where "t = sector_taken (s1\<lparr>do_hd := None\<rparr>)"
  define u where "u = end_request 1 t"
  note f = sector_taken_fields and q = assms(10) [unfolded queued_read_def]
  have i1: "hd_interrupt s = Some (Inr s1)" unfolding s1_def by (rule first_read_interrupt) (simp_all add: assms)
  have c1: "CURR_REQ s1 = r0" "bufs s1 = bufs s" "requests s1 = (requests s)(r0 := (requests s r0)\<lparr>rq_errors := 0,
      rq_buffer := rq_buffer (requests s r0) + 512, rq_sector := rq_sector (requests s r0) + 1, rq_nr_sector := 1\<rparr>)"
    "data_value s1 = data_value s" "data_read s1 = data_read s + 512" "do_hd s1 = Some Read_Intr" "port_value s1 = port_value s"
    by (simp_all add: s1_def f assms(3,4))
  have idle: "controller_idle (s1\<lparr>do_hd := None\<rparr>)" using assms(2) by (simp add: controller_idle_def c1)
  have nr: "rq_nr_sector (curr_req (s1\<lparr>do_hd := None\<rparr>)) = 1" by (simp add: c1)
  have ct: "CURR_REQ t = r0" "bufs t = bufs s" "requests t r = requests s r" "rq_bh (requests t r0) = b0" "rq_next (requests t r0) = r"
    "data_value t = data_value s" "data_read t = data_read s + 1024" "port_value t = port_value s"
    using assms(8) by (simp_all add: t_def f c1 assms(5,6))
  have ch: "hd_parts t = hd_parts s" "number_of_hd t = number_of_hd s" "hd_hw t = hd_hw s" "reset_flag t = reset_flag s" "recalibrate t = recalibrate s"
    by (simp_all add: t_def s1_def acknowledged_def write_port_def sector_taken_def port_read_def upd_req_def)
  note e = end_request_fields [where u = 1 and s = t, unfolded ct] and h = hd_more [OF end_request_fields(4) [where u = 1 and s = t]]
  have cu: "CURR_REQ u = r" "requests u r = requests s r" "bufs u = (bufs s)(b0 := (bufs s b0)\<lparr>b_uptodate := 1, b_lock := 0, b_wait := 0\<rparr>)"
    "hd_parts u = hd_parts s" "number_of_hd u = number_of_hd s" "hd_hw u = hd_hw s" "\<not> reset_flag u" "\<not> recalibrate u" "data_read u = data_read s + 1024"
    using e(1-3) h assms(7,8,11,12) ch ct(3,7) by (simp_all add: u_def)
  have du: "data_value u = data_value s" "port_value u = port_value s"
    using end_request_fields(4) [where u = 1 and s = t] ct(6,8) by (cases u; cases t; simp add: u_def)+
  have send: "sendable dev u" "disk_block u = disk_block (set_CURR_REQ r s)"
    using sendable_cong(1) [of u r s dev] sendable_cong(2) [of u r s] cu q assms(9) by simp_all
  have "controller_idle u" using assms(2) by (simp add: controller_idle_def du)
  then obtain v ctl pre sec lcyl hcyl cur where v: "do_hd_request u = Some (Inr v)" "do_hd v = Some Read_Intr" "requests v = requests u"
    "ports_written v = ports_written u @ [(HD_CMD, ctl), (HD_PRECOMP, pre), (HD_NSECTOR, 2),
      (HD_SECTOR, sec), (HD_LCYL, lcyl), (HD_HCYL, hcyl), (HD_CURRENT, cur), (HD_COMMAND, 0x20)]"
    "named_sector (hd_hw s dev) sec lcyl hcyl cur = unat (disk_block (set_CURR_REQ r s))" "bit cur 4 \<longleftrightarrow> dev = 1"
    "bufs v = bufs u" "blk_dev v = blk_dev u" "data_value v = data_value u" "data_read v = data_read u" "port_value v = port_value u"
    using read_command_sent [OF send(1)] cu q send(2) by (auto simp: cu)
  have "hd_interrupt s1 = Some (Inr (acknowledged v))"
    using read_intr_idle [OF idle] nr v(1) by (simp add: hd_interrupt_read [OF c1(6)] u_def t_def)
  moreover have "CURR_REQ v = r" using cu(1) v(8) by (simp add: CURR_REQ_def)
  moreover have "commanded (hd_hw s dev) dev (unat (disk_block (set_CURR_REQ r s))) (ports_written (acknowledged v))"
    by (rule commandedI [where pre = "ports_written u" and post = "[(0xA0, 0x20), (0x20, 0x20)]", OF _ v(5,6)])
      (simp add: v(4) acknowledged_def write_port_def)
  moreover have "controller_idle (acknowledged v)" using assms(2) v(11) du by (simp add: controller_idle_def)
  ultimately show ?thesis using i1 v cu du by (intro exI [of _ s1] exI [of _ "acknowledged v"]) simp
qed

section \<open>Four interrupts\<close>

fun interrupts :: "nat \<Rightarrow> 'a hd_state_scheme \<Rightarrow> 'a hd_state_scheme kresult option" where
  "interrupts 0 s = Some (Inr s)"
| "interrupts (Suc n) s = obind (hd_interrupt s) (interrupts n)"

lemma four_interrupts:
  assumes "do_hd s = Some Read_Intr" "controller_idle s" "CURR_REQ s = r0" "rq_nr_sector (requests s r0) = 2"
    "rq_next (requests s r0) = r" "rq_bh (requests s r0) = b0" "b0 \<noteq> 0" "r \<noteq> r0" "b \<noteq> b0" "queued_read dev r b s"
    "\<not> reset_flag s" "\<not> recalibrate s"
  shows "\<exists>s'. interrupts 4 s = Some (Inr s') \<and> CURR_REQ s' = 0 \<and>
    bufs s' = (bufs s)(b0 := (bufs s b0)\<lparr>b_uptodate := 1, b_lock := 0, b_wait := 0\<rparr>, b := (bufs s b)\<lparr>b_uptodate := 1, b_lock := 0, b_wait := 0\<rparr>) \<and>
    (\<forall>x. unat (x - rq_buffer (requests s r)) < 1024 \<longrightarrow>
       memory s' x = data_value s (data_read s + 1024 + unat (x - rq_buffer (requests s r)))) \<and>
    commanded (hd_hw s dev) dev (unat (disk_block (set_CURR_REQ r s))) (ports_written s')"
proof -
  obtain s1 s2 where s2: "hd_interrupt s = Some (Inr s1)" "hd_interrupt s1 = Some (Inr s2)" "CURR_REQ s2 = r" "do_hd s2 = Some Read_Intr"
    "controller_idle s2" "requests s2 r = requests s r" "bufs s2 = (bufs s)(b0 := (bufs s b0)\<lparr>b_uptodate := 1, b_lock := 0, b_wait := 0\<rparr>)"
    "data_read s2 = data_read s + 1024" "data_value s2 = data_value s"
    "commanded (hd_hw s dev) dev (unat (disk_block (set_CURR_REQ r s))) (ports_written s2)"
    using interrupts_before_next [OF assms] by blast
  have q: "rq_nr_sector (requests s2 r) = 2" "rq_next (requests s2 r) = 0" "rq_bh (requests s2 r) = b" "b \<noteq> 0"
    using assms(10) by (simp_all add: s2(6) queued_read_def)
  obtain s3 s4 ps where s4: "hd_interrupt s2 = Some (Inr s3)" "hd_interrupt s3 = Some (Inr s4)" "CURR_REQ s4 = 0"
    "\<forall>x. memory s4 x = (if unat (x - rq_buffer (requests s2 r)) < 1024
       then data_value s2 (data_read s2 + unat (x - rq_buffer (requests s2 r))) else memory s2 x)"
    "bufs s4 = (bufs s2)(b := (bufs s2 b)\<lparr>b_uptodate := 1, b_lock := 0, b_wait := 0\<rparr>)" "ports_written s4 = ports_written s2 @ ps"
    using two_read_interrupts [OF s2(4,5,3) q] by blast
  have "interrupts 4 s = Some (Inr s4)" using s2(1,2) s4(1,2) by (simp add: numeral_eq_Suc)
  then show ?thesis using s4 s2 commanded_append [OF s2(10)] assms(9) by (intro exI [of _ s4]) simp
qed

section \<open>The way of a block\<close>

text \<open>A block of a partition of a disk that is there, whose sectors the controller can name.\<close>

definition on_disk :: "i32 \<Rightarrow> u32 \<Rightarrow> 'a hd_state_scheme \<Rightarrow> bool" where
  "on_disk dev block s \<longleftrightarrow> (let m = unat (MINOR dev); hw = hd_hw s (m div 5) in
     MAJOR dev = 3 \<and> m div 5 < 2 \<and> \<not> number_of_hd s * 5 \<le>s ucast (ucast (MINOR dev) :: u8) \<and>
     \<not> nr_sects (hd_parts s m) < block * 2 + 2 \<and> addressable hw \<and>
     unat (block * 2 + start_sect (hd_parts s m)) div unat (hw_sect hw) div unat (hw_head hw) < 0x10000)"

text \<open>The disk is reading for request \<open>r0\<close>, the only one of the queue, and buffer \<open>b0\<close>.\<close>

definition reading :: "nat \<Rightarrow> u32 \<Rightarrow> 'a hd_state_scheme \<Rightarrow> bool" where
  "reading r0 b0 s \<longleftrightarrow> do_hd s = Some Read_Intr \<and> controller_idle s \<and> blk_dev s 3 = \<lparr>do_req_fn = Some Do_Hd_Request, req_q = r0\<rparr> \<and>
     r0 \<noteq> 0 \<and> rq_nr_sector (requests s r0) = 2 \<and> rq_next (requests s r0) = 0 \<and> rq_bh (requests s r0) = b0 \<and> b0 \<noteq> 0 \<and>
     \<not> reset_flag s \<and> \<not> recalibrate s"

lemma unat_minor: "unat (ucast (MINOR d) :: u8) = unat (MINOR d)"
proof -
  have "unat (MINOR d) < 256" unfolding MINOR_def using word_and_le1 [of d "0xFF"] by (simp add: word_le_nat_alt)
  then show ?thesis by (simp add: unat_byte)
qed

lemma asleep_more:
  assumes "sched_state.more (t :: 'a hd_state_scheme) = sched_state.more s"
  shows "bufs t = bufs s" "requests t = requests s" "blk_dev t = blk_dev s" "do_hd t = do_hd s" "port_value t = port_value s"
    "reset_flag t = reset_flag s" "recalibrate t = recalibrate s" "hd_hw t = hd_hw s" "hd_parts t = hd_parts s"
    "number_of_hd t = number_of_hd s" "data_value t = data_value s" "data_read t = data_read s" "memory t = memory s"
    "ports_written t = ports_written s"
  using assms by (cases s; cases t; simp)+

lemma claimed_more:
  assumes "buffer_state.more (t :: 'a hd_state_scheme) = buffer_state.more s"
  shows "requests t = requests s" "blk_dev t = blk_dev s" "do_hd t = do_hd s" "port_value t = port_value s"
    "reset_flag t = reset_flag s" "recalibrate t = recalibrate s" "hd_hw t = hd_hw s" "hd_parts t = hd_parts s"
    "number_of_hd t = number_of_hd s" "data_value t = data_value s" "data_read t = data_read s" "memory t = memory s"
    "ports_written t = ports_written s"
  using assms by (cases s; cases t; simp)+

text \<open>The call of \<open>ll_rw_block\<close> with a queue of one: the request goes behind it.\<close>

definition read_queued :: "nat \<Rightarrow> nat \<Rightarrow> u32 \<Rightarrow> 'a hd_state_scheme \<Rightarrow> 'a hd_state_scheme" where
  "read_queued r0 r b s = upd_req r0 (\<lambda>x. x\<lparr>rq_next := r\<rparr>) (upd_buf b (\<lambda>b. b\<lparr>b_dirt := 0\<rparr>) (upd_req r (\<lambda>r. r\<lparr>rq_next := 0\<rparr>)
     (upd_req r (fill_request BLK_READ b ((bufs s b)\<lparr>b_lock := 1\<rparr>)) (upd_buf b (\<lambda>b. b\<lparr>b_lock := 1\<rparr>) s))))"

lemma ll_rw_block_queues:
  assumes "reading r0 b0 s" "MAJOR (ucast (b_dev (bufs s b))) = 3" "b_uptodate (bufs s b) = 0" "b_lock (bufs s b) = 0"
    "idle_request s = Some r" "r \<noteq> r0"
  shows "ll_rw_block others run BLK_READ b s = Some (Inr (read_queued r0 r b s))"
proof -
  note rd = assms(1) [unfolded reading_def]
  let ?t = "upd_buf b (\<lambda>b. b\<lparr>b_lock := 1\<rparr>) s"
  let ?u = "upd_req r (fill_request BLK_READ b ((bufs s b)\<lparr>b_lock := 1\<rparr>)) ?t"
  have "idle_request ?t = Some r" using assms(5) by (simp add: idle_request_def)
  then have get: "get_request others ?t = Some (Inr (r, ?t))" by (simp add: get_request.simps)
  have "last_request r0 (upd_buf b (\<lambda>b. b\<lparr>b_dirt := 0\<rparr>) (upd_req r (\<lambda>r. r\<lparr>rq_next := 0\<rparr>) ?u)) = Some r0"
    using rd assms(6) by (subst last_request.simps) simp
  then have "add_request run 3 r ?u = Some (Inr (read_queued r0 r b s))"
    using rd by (simp add: add_request_def Let_def fill_request_def read_queued_def)
  then have "make_request others run 3 BLK_READ b s = Some (Inr (read_queued r0 r b s))"
    using assms(3,4) get by (simp add: make_request_def lock_buffer_def wait_unlocked BLK_READ_def BLK_WRITE_def)
  then show ?thesis using assms(2) rd by (simp add: ll_rw_block_def Let_def BLK_DEV_KINDS_def)
qed


lemma idle_request_nonzero: "idle_request s = Some r \<Longrightarrow> r \<noteq> 0"
  by (auto simp: idle_request_def find_Some_iff NUMBER_OF_REQUESTS_def rev_nth simp del: upt_Suc)

lemma read_queued_fields:
  assumes "r \<noteq> r0"
  shows "requests (read_queued r0 r b s) r = fill_request BLK_READ b ((bufs s b)\<lparr>b_lock := 1\<rparr>) (requests s r)"
    "requests (read_queued r0 r b s) r0 = (requests s r0)\<lparr>rq_next := r\<rparr>"
    "bufs (read_queued r0 r b s) = (bufs s)(b := (bufs s b)\<lparr>b_lock := 1, b_dirt := 0\<rparr>)"
    "blk_state.more (read_queued r0 r b s) = blk_state.more s" "blk_dev (read_queued r0 r b s) = blk_dev s"
    "current (read_queued r0 r b s) = current s" "task0_addr (read_queued r0 r b s) = task0_addr s"
  using assms by (simp_all add: read_queued_def fill_request_def upd_req_def upd_buf_def)

text \<open>What the disk driver finds while the reader of the block sleeps.\<close>

definition awaiting :: "nat \<Rightarrow> nat \<Rightarrow> u32 \<Rightarrow> u32 \<Rightarrow> 'a hd_state_scheme \<Rightarrow> 'a hd_state_scheme \<Rightarrow> bool" where
  "awaiting r0 r b q s t \<longleftrightarrow> sched_state.more t = sched_state.more (upd_buf b (\<lambda>b. b\<lparr>b_wait := q\<rparr>) (read_queued r0 r b s))"

lemma upd_buf_more:
  assumes "sched_state.more (s :: 'a buffer_state_scheme) = sched_state.more t"
  shows "sched_state.more (upd_buf b f s) = sched_state.more (upd_buf b f t)"
  using assms by (cases s; cases t; simp add: upd_buf_def)

lemma awaiting_fields:
  assumes "awaiting r0 r b q s t" "r \<noteq> r0"
  shows "requests t r = fill_request BLK_READ b ((bufs s b)\<lparr>b_lock := 1\<rparr>) (requests s r)"
    "requests t r0 = (requests s r0)\<lparr>rq_next := r\<rparr>" "bufs t = (bufs s)(b := (bufs s b)\<lparr>b_lock := 1, b_dirt := 0, b_wait := q\<rparr>)"
    "blk_dev t = blk_dev s" "do_hd t = do_hd s" "port_value t = port_value s" "reset_flag t = reset_flag s"
    "recalibrate t = recalibrate s" "hd_hw t = hd_hw s" "hd_parts t = hd_parts s"
    "number_of_hd t = number_of_hd s" "data_value t = data_value s" "data_read t = data_read s"
proof -
  note a = asleep_more [OF assms(1) [unfolded awaiting_def]] and f = read_queued_fields [OF assms(2)] and m = hd_more [OF f(4)]
  show "requests t r = fill_request BLK_READ b ((bufs s b)\<lparr>b_lock := 1\<rparr>) (requests s r)"
    "requests t r0 = (requests s r0)\<lparr>rq_next := r\<rparr>" "bufs t = (bufs s)(b := (bufs s b)\<lparr>b_lock := 1, b_dirt := 0, b_wait := q\<rparr>)"
    "blk_dev t = blk_dev s"
    by (simp_all add: a f)
  have "blk_state.more t = blk_state.more s"
    using assms(1) f(4) by (cases t; cases s; simp add: awaiting_def read_queued_def upd_req_def upd_buf_def)
  then show "do_hd t = do_hd s" "port_value t = port_value s" "reset_flag t = reset_flag s"
    "recalibrate t = recalibrate s" "hd_hw t = hd_hw s" "hd_parts t = hd_parts s"
    "number_of_hd t = number_of_hd s" "data_value t = data_value s" "data_read t = data_read s"
    by (cases t; cases s; simp)+
qed


lemma awaiting_queued:
  assumes "awaiting r0 r b q s t" "r \<noteq> r0" "r \<noteq> 0" "b \<noteq> 0" "holds dev block (bufs s b)" "on_disk dev block s"
  shows "queued_read (unat (MINOR dev) div 5) r b t"
    "unat (disk_block (set_CURR_REQ r t)) = unat (block * 2 + start_sect (hd_parts s (unat (MINOR dev))))"
proof -
  note f = awaiting_fields [OF assms(1,2)] and d = assms(6) [unfolded on_disk_def Let_def]
  have dev: "rq_dev (requests t r) = dev" "rq_sector (requests t r) = block * 2" "rq_nr_sector (requests t r) = 2"
    "rq_bh (requests t r) = b" "rq_cmd (requests t r) = BLK_READ" "rq_next (requests t r) = 0"
    using assms(5) by (simp_all add: f(1) fill_request_def holds_def)
  show db: "unat (disk_block (set_CURR_REQ r t)) = unat (block * 2 + start_sect (hd_parts s (unat (MINOR dev))))"
    by (simp add: disk_block_def dev f(10))
  have "sendable (unat (MINOR dev) div 5) (set_CURR_REQ r t)"
    using d assms(3) f(3) by (simp add: sendable_def dev out_of_range_def f(10,11) unat_minor)
  then show "queued_read (unat (MINOR dev) div 5) r b t"
    using d assms(4) by (simp add: queued_read_def dev db f(9))
qed

lemma wait_sleeps_once:
  assumes "b_lock (bufs s b) \<noteq> 0" "current s \<noteq> task0_addr s" "b_lock (bufs (sleep_on_leave (b_wait (bufs s b)) (others
      (upd_buf b (\<lambda>x. x\<lparr>b_wait := current s\<rparr>) (schedule (upd_task (current s) (\<lambda>t. t\<lparr>state := TASK_UNINTERRUPTIBLE\<rparr>) s))))) b) = 0"
  shows "wait_on_buffer others b s = Some (Inr (sleep_on_leave (b_wait (bufs s b)) (others
      (upd_buf b (\<lambda>x. x\<lparr>b_wait := current s\<rparr>) (schedule (upd_task (current s) (\<lambda>t. t\<lparr>state := TASK_UNINTERRUPTIBLE\<rparr>) s))))))"
  using assms by (subst wait_on_buffer.simps) (simp add: sleep_on_buffer_def sleep_on_enter_def wait_unlocked)



text \<open>The disk of the examples while it reads into the second buffer for a task; another task, not the first, asks for a block.\<close>

definition busy_disk :: hd_state where
  "busy_disk = (demo_disk 0 2 2 (Some Do_Hd_Request))\<lparr>do_hd := Some Read_Intr, current := 0x20000\<rparr>"

definition four_come :: "hd_state \<Rightarrow> hd_state" where
  "four_come t = (case interrupts 4 t of Some (Inr t') \<Rightarrow> t' | _ \<Rightarrow> t)"


end
