(* ===== verification/Task_Zero.thy ===== *)
theory Task_Zero
  imports Kernel_Boot
begin

text \<open>
  The program of the first three tasks (\<open>TASK_0\<close> of main.c): two forks, and three loops that count. What is proved: in
  whatever order the tasks get the processor, each counts its own turns and reports them.
\<close>

section \<open>The program\<close>

record task0_locals =
  cnt_i :: u32
  cnt_j :: u32
  cnt_k :: u32

text \<open>Where a task is: at one of the calls of \<open>fork\<close>, or at the head of a loop.\<close>

datatype place = First_Fork | Second_Fork | Loop_0 | Loop_1 | Loop_2

text \<open>To the next such place; \<open>v\<close> is what \<open>fork\<close> returns. The messages are those given to \<open>printk\<close>, without the line feed.\<close>

fun TASK_0 :: "place \<Rightarrow> i32 \<Rightarrow> task0_locals \<Rightarrow> place \<times> task0_locals \<times> string list" where
  "TASK_0 First_Fork v l = (if v = 0 then Second_Fork else Loop_0, l, [])"
| "TASK_0 Second_Fork v l = (if v = 0 then Loop_2 else Loop_1, l, [])"
| "TASK_0 Loop_2 v l =
     (let k = cnt_k l + 10 in (Loop_2, l\<lparr>cnt_k := if 0x7A0000 \<le> k then 0 else k\<rparr>, []))"
| "TASK_0 Loop_1 v l =
     (let j = cnt_j l + 1 in if j = 0x4C0000 then (Loop_1, l\<lparr>cnt_j := 0\<rparr>, [''in task1'']) else (Loop_1, l\<lparr>cnt_j := j\<rparr>, []))"
| "TASK_0 Loop_0 v l =
     (let i = cnt_i l + 1 in if i = 0x980000 then (Loop_0, l\<lparr>cnt_i := 0\<rparr>, [''in task0'']) else (Loop_0, l\<lparr>cnt_i := i\<rparr>, []))"

section \<open>Three tasks\<close>

text \<open>
  Tasks 0 and 1 have one stack frame between them, since task 1 maps the memory of task 0 (\<open>init_task1_paging\<close>); task 2 has a
  copy. A message is printed in one piece.
\<close>

record first_tasks =
  places :: "nat \<Rightarrow> place option"
  frames :: "nat \<Rightarrow> task0_locals"
  printed :: "string list"

definition frame_nr :: "nat \<Rightarrow> nat" where
  "frame_nr n = (if n = 1 then 0 else n)"

definition is_fork :: "place \<Rightarrow> bool" where
  "is_fork p \<longleftrightarrow> p = First_Fork \<or> p = Second_Fork"

text \<open>A turn of task \<open>n\<close>; a \<open>fork\<close> that succeeds starts the next task, in which it returns 0.\<close>

definition turn :: "i32 \<times> nat \<Rightarrow> first_tasks \<Rightarrow> first_tasks" where
  "turn a s = (let n = snd a in case places s n of
      None \<Rightarrow> s
    | Some p \<Rightarrow> let (q, l, out) = TASK_0 p (fst a) (frames s (frame_nr n));
        s1 = s\<lparr>places := (places s)(n \<mapsto> q), frames := (frames s)(frame_nr n := l), printed := printed s @ out\<rparr>
      in if is_fork p \<and> 0 <s fst a
         then s1\<lparr>places := (places s1)(Suc n \<mapsto> fst (TASK_0 p 0 l)), frames := (frames s1)(frame_nr (Suc n) := l)\<rparr>
         else s1)"

definition task0_alone :: first_tasks where
  "task0_alone = \<lparr>places = [0 \<mapsto> First_Fork], frames = (\<lambda>_. \<lparr>cnt_i = 0, cnt_j = 0, cnt_k = 0\<rparr>), printed = []\<rparr>"

section \<open>Counting\<close>

definition turns :: "nat \<Rightarrow> (i32 \<times> nat) list \<Rightarrow> nat" where
  "turns n as = length (filter (\<lambda>a. snd a = n) as)"

lemma turns_snoc: "turns n (as @ [a]) = (if snd a = n then Suc (turns n as) else turns n as)" "turns n [] = 0"
  by (simp_all add: turns_def)

text \<open>After how many turns each counter is back at 0.\<close>

definition period0 :: nat where "period0 = 0x980000"
definition period1 :: nat where "period1 = 0x4C0000"
definition period2 :: nat where "period2 = 799540"

lemma counter:
  assumes "0 < p" "p < 4294967296"
  shows "of_nat (n mod p) + 1 = (of_nat p :: u32) \<longleftrightarrow> Suc n mod p = 0"
    "of_nat (n mod p) + 1 \<noteq> (of_nat p :: u32) \<Longrightarrow> of_nat (n mod p) + 1 = (of_nat (Suc n mod p) :: u32)"
    "Suc n div p = n div p + (if Suc n mod p = 0 then 1 else 0)"
proof -
  have "Suc (n mod p) < 4294967296" using assms mod_less_divisor [of p n] by linarith
  then have "unat (of_nat (Suc (n mod p)) :: u32) = Suc (n mod p)" "unat (of_nat p :: u32) = p"
    using assms by (simp_all only: unat_of_nat_small)
  then have "of_nat (Suc (n mod p)) = (of_nat p :: u32) \<longleftrightarrow> Suc (n mod p) = p" by (metis word_unat_eq_iff)
  then have w: "of_nat (n mod p) + 1 = (of_nat p :: u32) \<longleftrightarrow> Suc (n mod p) = p" by (simp add: add.commute)
  then show "of_nat (n mod p) + 1 = (of_nat p :: u32) \<longleftrightarrow> Suc n mod p = 0" by (simp add: mod_Suc)
  show "of_nat (n mod p) + 1 = (of_nat (Suc n mod p) :: u32)" if "of_nat (n mod p) + 1 \<noteq> (of_nat p :: u32)"
    using that w by (simp add: mod_Suc add.commute)
  show "Suc n div p = n div p + (if Suc n mod p = 0 then 1 else 0)" by (simp add: div_Suc)
qed

lemma counter_by_ten:
  "(if 0x7A0000 \<le> (of_nat (10 * (n mod period2)) + 10 :: u32) then 0 else of_nat (10 * (n mod period2)) + 10) = (of_nat (10 * (Suc n mod period2)) :: u32)"
proof -
  define m where "m = n mod period2"
  have m: "m < 799540" by (simp add: m_def period2_def)
  have e: "of_nat (10 * m) + 10 = (of_nat (10 * Suc m) :: u32)" by simp
  have "unat (of_nat (10 * Suc m) :: u32) = 10 * Suc m" using m by (intro unat_of_nat_small) simp
  then have "0x7A0000 \<le> (of_nat (10 * Suc m) :: u32) \<longleftrightarrow> 0x7A0000 \<le> 10 * Suc m" by (simp only: word_le_nat_alt) simp
  then have "0x7A0000 \<le> (of_nat (10 * m) + 10 :: u32) \<longleftrightarrow> Suc m = 799540" unfolding e using m by (simp del: of_nat_Suc of_nat_mult) linarith
  moreover have "Suc n mod period2 = (if Suc m = 799540 then 0 else Suc m)" by (simp add: m_def mod_Suc period2_def)
  ultimately show ?thesis unfolding m_def [symmetric] using e by simp
qed

text \<open>What the counters and the messages are after \<open>n0\<close>, \<open>n1\<close> and \<open>n2\<close> turns of the loops.\<close>

definition counted :: "nat \<Rightarrow> nat \<Rightarrow> nat \<Rightarrow> first_tasks \<Rightarrow> bool" where
  "counted n0 n1 n2 s \<longleftrightarrow> cnt_i (frames s 0) = of_nat (n0 mod period0) \<and> cnt_j (frames s 0) = of_nat (n1 mod period1) \<and>
     cnt_k (frames s 0) = 0 \<and> cnt_k (frames s 2) = of_nat (10 * (n2 mod period2)) \<and>
     count_list (printed s) ''in task0'' = n0 div period0 \<and> count_list (printed s) ''in task1'' = n1 div period1 \<and>
     length (printed s) = n0 div period0 + n1 div period1"

lemma turn_loop:
  assumes "places s n = Some p" "\<not> is_fork p" "TASK_0 p v (frames s (frame_nr n)) = (p, l, out)"
  shows "turn (v, n) s = s\<lparr>frames := (frames s)(frame_nr n := l), printed := printed s @ out\<rparr>"
  using assms by (simp add: turn_def Let_def map_upd_triv)

lemma turn_0:
  assumes "counted n0 n1 n2 s" "places s 0 = Some Loop_0"
  shows "counted (Suc n0) n1 n2 (turn (v, 0) s)" "places (turn (v, 0) s) = places s"
proof -
  define l out where "l = (frames s 0)\<lparr>cnt_i := of_nat (Suc n0 mod period0)\<rparr>" and "out = (if Suc n0 mod period0 = 0 then [''in task0''] else [])"
  have "TASK_0 Loop_0 v (frames s (frame_nr 0)) = (Loop_0, l, out)"
    using assms(1) counter(1,2) [of period0 n0] by (simp add: counted_def Let_def frame_nr_def l_def out_def period0_def)
  note t = turn_loop [OF assms(2) _ this, simplified is_fork_def, simplified]
  show "places (turn (v, 0) s) = places s" by (simp add: t)
  show "counted (Suc n0) n1 n2 (turn (v, 0) s)"
    using assms(1) counter(3) [of period0 n0] by (simp add: t counted_def l_def out_def frame_nr_def period0_def)
qed

lemma turn_1:
  assumes "counted n0 n1 n2 s" "places s 1 = Some Loop_1"
  shows "counted n0 (Suc n1) n2 (turn (v, 1) s)" "places (turn (v, 1) s) = places s"
proof -
  define l out where "l = (frames s 0)\<lparr>cnt_j := of_nat (Suc n1 mod period1)\<rparr>" and "out = (if Suc n1 mod period1 = 0 then [''in task1''] else [])"
  have "TASK_0 Loop_1 v (frames s (frame_nr 1)) = (Loop_1, l, out)"
    using assms(1) counter(1,2) [of period1 n1] by (simp add: counted_def Let_def frame_nr_def l_def out_def period1_def)
  note t = turn_loop [OF assms(2) _ this, simplified is_fork_def, simplified]
  show "places (turn (v, 1) s) = places s" by (simp add: t)
  show "counted n0 (Suc n1) n2 (turn (v, 1) s)"
    using assms(1) counter(3) [of period1 n1] by (simp add: t counted_def l_def out_def frame_nr_def period1_def)
qed

lemma turn_2:
  assumes "counted n0 n1 n2 s" "places s 2 = Some Loop_2"
  shows "counted n0 n1 (Suc n2) (turn (v, 2) s)" "places (turn (v, 2) s) = places s"
proof -
  define l where "l = (frames s 2)\<lparr>cnt_k := of_nat (10 * (Suc n2 mod period2))\<rparr>"
  have k: "cnt_k (frames s 2) = of_nat (10 * (n2 mod period2))" "frame_nr 2 = 2" using assms(1) by (simp_all add: counted_def frame_nr_def)
  have "TASK_0 Loop_2 v (frames s (frame_nr 2)) = (Loop_2, l, [])" by (simp only: TASK_0.simps Let_def k l_def counter_by_ten)
  note t = turn_loop [OF assms(2) _ this, simplified is_fork_def, simplified]
  show "places (turn (v, 2) s) = places s" by (simp add: t)
  show "counted n0 n1 (Suc n2) (turn (v, 2) s)" using assms(1) by (simp add: t counted_def l_def frame_nr_def)
qed

lemma turn_absent: "places s n = None \<Longrightarrow> turn (v, n) s = s"
  by (simp add: turn_def)

section \<open>The three loops\<close>

text \<open>Before the second fork only task 0 counts; after it, all three.\<close>

lemma first_loop:
  assumes "counted n0 0 0 s" "places s = [0 \<mapsto> Loop_0, 1 \<mapsto> Second_Fork]" "\<forall>a \<in> set as. snd a \<noteq> 1"
  shows "counted (n0 + turns 0 as) 0 0 (fold turn as s)" "places (fold turn as s) = places s"
proof -
  have "counted (n0 + turns 0 as) 0 0 (fold turn as s) \<and> places (fold turn as s) = places s"
    using assms(3)
  proof (induction as rule: rev_induct)
    case Nil
    then show ?case using assms(1) by (simp add: turns_snoc)
  next
    case (snoc a as)
    let ?s = "fold turn as s"
    have IH: "counted (n0 + turns 0 as) 0 0 ?s" "places ?s = places s" using snoc by simp_all
    obtain v n where a: "a = (v, n)" by fastforce
    show ?case
    proof (cases "n = 0")
      case True
      then show ?thesis using turn_0 [OF IH(1), of v] IH(2) assms(2) by (simp add: a turns_snoc)
    next
      case False
      then have "places ?s n = None" using snoc.prems IH(2) assms(2) by (simp add: a)
      then show ?thesis using IH False by (simp add: a turn_absent turns_snoc)
    qed
  qed
  then show "counted (n0 + turns 0 as) 0 0 (fold turn as s)" "places (fold turn as s) = places s" by blast+
qed

lemma three_loops:
  assumes "counted n0 n1 n2 s" "places s = [0 \<mapsto> Loop_0, 1 \<mapsto> Loop_1, 2 \<mapsto> Loop_2]"
  shows "counted (n0 + turns 0 bs) (n1 + turns 1 bs) (n2 + turns 2 bs) (fold turn bs s) \<and> places (fold turn bs s) = places s"
proof (induction bs rule: rev_induct)
  case Nil
  then show ?case using assms(1) by (simp add: turns_snoc)
next
  case (snoc a bs)
  let ?s = "fold turn bs s"
  have IH: "counted (n0 + turns 0 bs) (n1 + turns 1 bs) (n2 + turns 2 bs) ?s" "places ?s = places s" using snoc by simp_all
  obtain v n where a: "a = (v, n)" by fastforce
  consider "n = 0" | "n = 1" | "n = 2" | "n \<noteq> 0" "n \<noteq> 1" "n \<noteq> 2" by blast
  then show ?case
  proof cases
    case 1
    then show ?thesis using turn_0 [OF IH(1), of v] IH(2) assms(2) by (simp add: a turns_snoc)
  next
    case 2
    then show ?thesis using turn_1 [OF IH(1), of v] IH(2) assms(2) by (simp add: a turns_snoc)
  next
    case 3
    then show ?thesis using turn_2 [OF IH(1), of v] IH(2) assms(2) by (simp add: a turns_snoc)
  next
    case 4
    then have "places ?s n = None" using IH(2) assms(2) by simp
    then show ?thesis using IH 4 by (simp add: a turn_absent turns_snoc)
  qed
qed

text \<open>
  Each of the first three tasks counts its own turns. Both forks succeed, task 0 may count between them, and
  after the second the processor goes round in any order \<open>bs\<close>: tasks 0 and 1, though they share a stack, have
  each counted its turns and nothing else, and have printed their message once in 9961472 and once in 4980736 turns; task
  2 prints nothing.
\<close>

lemma tasks_count_turns:
  assumes "0 <s u" "0 <s v" "\<forall>a \<in> set as. snd a \<noteq> 1" "s = fold turn ((u, 0) # as @ (v, 1) # bs) task0_alone"
  shows "cnt_i (frames s 0) = of_nat ((turns 0 as + turns 0 bs) mod 0x980000) \<and> cnt_j (frames s 0) = of_nat (turns 1 bs mod 0x4C0000) \<and>
     cnt_k (frames s 2) = of_nat (10 * (turns 2 bs mod 799540)) \<and>
     count_list (printed s) ''in task0'' = (turns 0 as + turns 0 bs) div 0x980000 \<and>
     count_list (printed s) ''in task1'' = turns 1 bs div 0x4C0000 \<and>
     length (printed s) = (turns 0 as + turns 0 bs) div 0x980000 + turns 1 bs div 0x4C0000"
proof -
  have pos: "u \<noteq> 0" "v \<noteq> 0" using assms(1,2) by (auto simp: word_sless_alt)
  define s1 where "s1 = turn (u, 0) task0_alone"
  have s1: "counted 0 0 0 s1" "places s1 = [0 \<mapsto> Loop_0, 1 \<mapsto> Second_Fork]"
    using assms(1) pos by (simp_all add: s1_def turn_def task0_alone_def Let_def is_fork_def frame_nr_def counted_def)
  note s2 = first_loop [OF s1 assms(3), simplified]
  define s2 where "s2 = fold turn as s1"
  have "counted (turns 0 as) 0 0 s2" "places s2 = [0 \<mapsto> Loop_0, 1 \<mapsto> Second_Fork]" using s2 s1(2) by (simp_all add: s2_def)
  then have "counted (turns 0 as) 0 0 (turn (v, 1) s2)"  "places (turn (v, 1) s2) = [0 \<mapsto> Loop_0, 1 \<mapsto> Loop_1, 2 \<mapsto> Loop_2]"
    using assms(2) pos by (simp_all add: turn_def Let_def is_fork_def frame_nr_def counted_def numeral_2_eq_2)
  from three_loops [OF this, of bs] show ?thesis
    by (simp add: assms(4) s1_def [symmetric] s2_def [symmetric] counted_def period0_def period1_def period2_def)
qed

end
