(* ===== verification/Spec2Isabelle.thy ===== *)
theory Spec2Isabelle
  imports Cache_Memory Task_Runs Disk_Read Task_Zero
begin

text \<open>
  Verification of the cherryos kernel, a small kernel for one i386 processor in the style of Linux 0.11.

  \<^bold>\<open>The parts and where they are modelled.\<close> Every routine of the C sources is one definition with the name it has
  there; a long one is a composition of definitions for its loops and branches. Each theory starts with its
  state and operations and ends with what is proved of them.

  \<^item> \<open>Kernel_Base\<close>: machine integers, errors as values (\<open>kerror\<close>, \<open>kresult\<close>, \<open>rbind\<close>), loops (\<open>for_each\<close>,
    \<open>scan_up\<close>), and the facts on words that all parts share.
  \<^item> \<open>Segments\<close> (kernel/sched.c, kernel/traps.c, include/linux/head.h): descriptors, selectors and gates.
  \<^item> \<open>Phys_Memory\<close>, \<open>Address_Space\<close> (mm/memory.c): the page map, page directory and tables; copying and freeing the
    address space of a task.
  \<^item> \<open>Scheduler\<close> (kernel/sched.c, include/linux/sched.h): task structures, \<open>schedule\<close>, the timer tick, wait queues,
    \<open>sched_init\<close> and the switch to task 0. \<open>Fork\<close> (kernel/fork.c), \<open>Exit\<close> (kernel/exit.c) and \<open>Signals\<close>
    (kernel/signal.c) are the life of a process on top of it; their state \<open>kernel\<close> joins the tasks with the
    memory.
  \<^item> \<open>Linked_Lists\<close>, \<open>Buffer_Cache\<close>, \<open>Cache_Order\<close>, \<open>Cache_Boot\<close> (fs/buffer.c, include/linux/fs.h): the buffer
    cache, its heads in hash chains and in one ring; \<open>Cache_Memory\<close>: the same heads as bytes of physical memory, beside the
    page directory; \<open>Blk_Requests\<close> (driver/ll_rw_blk.c, include/linux/blk_req.h): the
    requests and \<open>bread\<close>; \<open>Hard_Disk\<close>, \<open>Disk_Requests\<close>, \<open>Disk_Transfer\<close>, \<open>Disk_Read\<close> (driver/hd.c, driver/hd.h, \<open>hd_interrupt\<close> of
    kernel/system_call.s): the disk driver. Each state record extends the one before it, from the task
    table to the disk.
  \<^item> \<open>Tty_Queue\<close>, \<open>Ctype\<close>, \<open>Console\<close>, \<open>Terminal\<close>, \<open>Tty\<close> (include/linux/tty.h, lib/ctype.c, driver/console.c,
    driver/tty_io.c): the terminal, from the ring buffers to the line discipline and the messages of the kernel.
  \<^item> \<open>C_String\<close> (lib/string.c) and \<open>Format\<close> (kernel/vsprintf.c, kernel/printk.c): the string routines and \<open>printk\<close>.
  \<^item> \<open>Traps\<close> (kernel/traps.c, kernel/sys.c): the exception handlers, the gates and the table of system calls.
  \<^item> \<open>Kernel_Boot\<close> (main.c): \<open>main\<close>, which puts the parts together. \<open>Task_Zero\<close>: \<open>TASK_0\<close>, the program of the first three
    tasks.
  \<^item> \<open>System_Call\<close> (kernel/system_call.s, include/unistd.h) and \<open>Exception_Entry\<close> (kernel/asm.s, mm/page.s): the
    entries, from the registers of a program over the kernel stack to the handlers and back, and the library wrappers.
  \<^item> \<open>Multitasking\<close> (\<open>switch_to\<close> of include/linux/sched.h and the entries of kernel/system_call.s): the tasks that share
    the processor, as a step relation: a program computes, a tick or a call enters the kernel, the kernel returns
    or the processor stores the registers in one task state segment and loads them from another. \<open>Task_Runs\<close> has
    its example runs.
\<close>

text \<open>
  \<^bold>\<open>State and effects.\<close> A C structure is a record, an integer a word of its width, so that sums wrap as they do
  in C; comparisons are signed or unsigned as the types of the source make them. A pointer is an
  address, and a structure reached through pointers lies in a store from addresses to records: tasks in
  \<open>tstore\<close>, buffer heads in \<open>bufs\<close>. These stores and the byte memories of the pages, of the screen and of the user are
  apart from each other. Where the code writes a head through a null pointer, \<open>Cache_Memory\<close> repeats the stores in physical memory,
  with the layout of the structure, and says what they do to the page directory that lies there.
  A panic, a jump to a null pointer and a loop that is known not to end are values of \<open>kerror\<close>. Ports
  are lists of what was written; what is read from them is an argument.

  A routine that can sleep takes an argument \<open>others\<close> for all that happens until it has the processor back; the
  theorems hold for every such function, or name what it must keep (\<open>others_keep\<close>) or the steps of the kernel it consists of
  (\<open>kernel_step\<close>).

  \<^bold>\<open>Loops.\<close> A loop with a bound is a recursion over the bound of the source: 10000 reads of the status port in
  \<open>controller_ready\<close> and \<open>drive_busy\<close>, 3000 in the wait for a write, 64 tasks, 1024 entries of a page table. A search
  that ends for a reason of its own is total by that reason (\<open>fresh_pid\<close> finds a number within 65 tries). A loop
  that may run forever is a partial function into \<open>option\<close>, where \<open>None\<close> is a call that never returns; that it
  returns is then a theorem (\<open>getblk_refines_lru\<close>, \<open>no_disk_drains_queue\<close>, \<open>boot_builds_cache\<close> with its 2967
  buffers), and so is that it does not (\<open>getblk_spins_on_dirty_buffers\<close>, \<open>first_request_is_lost\<close>).

  \<^bold>\<open>Contracts.\<close> The interfaces between the parts are locales, each interpreted on the definitions of the part that
  provides it: \<open>base_limit_fields\<close> (descriptor fields), \<open>page_allocator\<close> (pages that are handed out and given
  back), \<open>cpu_scheduler\<close> (who may run), \<open>bounded_fifo\<close> (the ring of a terminal), \<open>simulation\<close> (the console and the
  terminal it shows), \<open>request_queue\<close> (the file system's and the driver's side of a disk queue).

  \<^bold>\<open>Abstract specifications.\<close> The console is compared with a grid of glyphs and a cursor (\<open>t_char\<close>), the line
  discipline with an editor on lists, \<open>number\<close> with the layout of a field, the buffer cache with a
  least-recently-used list (\<open>lru_get\<close>), the disk queue with a list, the string routines with operations on lists.

  \<^bold>\<open>What the theorems show.\<close> Fork, exit and release together return every page and every slot they took (but the exit of
  the first child, task 1, panics), and a failed fork leaves no trace; a child reads what its parent reads through pages of its
  own, but for task 1, which has the low megabyte; \<open>schedule\<close>
  chooses the task with the most ticks, and a sleeper waits for its wake-up; whatever the tasks do and
  however they are switched, no program gets into ring 0, a program that loses the processor goes on with the registers
  it had, and a child begins with its parent's; the buffer cache
  keeps its queues in order and returns the block asked for whatever the others do; a read command
  names the sector asked for, two interrupts complete it and the next request follows, and a failed one is tried seven times; a \<open>bread\<close> that has to wait behind another
  read returns the bytes of its block; a system call returns to the program with its
  registers, and a \<open>fork\<close> returns twice; the console shows what the terminal
  specification shows; and \<open>main\<close> reaches task 0 with every part in order. The theorems on errors say
  exactly where the code falls short: after the start no block can be read, since no driver is started, and with one the first
  request of a queue is lost and its buffer locked for ever; the first block overwrites a page directory entry; signals are delivered only when they
  are blocked; an exception with an error code exchanges two registers.

  \<^bold>\<open>Not modelled.\<close> The boot loader and the keyboard entry, which calls nothing (bootsect.s, setup.s, head.s,
  driver/keyboard.s), beyond the addresses and the table limit the C code relies on; the registers of
  kernel code at a task switch, which are arbitrary but for the code segment and \<open>gs\<close>; disabling and enabling interrupts, since what interrupts do is
  an argument where it matters; page faults on user memory, which \<open>Signals\<close> takes as plain bytes; a tick
  within a \<open>printk\<close> of tasks 0 and 1, which call it on the stack they share; prototypes and build files.
\<close>

end
